(* ===== verification/Prelude.thy ===== *)
theory Prelude
  imports Main "HOL-Library.Word" "HOL-Library.Multiset"
begin

text \<open>
  Shared vocabulary of the development: instants and durations, the time-bounded maps every
  store of the enricher keeps, and the generic facts on lists, maps and folds that more than
  one component uses.

  Instants (\<open>time.Time\<close>) are integers counting nanoseconds from the Unix epoch; durations
  (\<open>time.Duration\<close>) are integers counting nanoseconds. Go's \<open>t.After(u)\<close> is \<open>u < t\<close> and
  \<open>t.Before(u)\<close> is \<open>t < u\<close>. Nothing in the code reaches the ends of the int64 range of a
  duration except where a theorem says so (see \<open>DnsStore\<close>).
\<close>

type_synonym time = int
type_synonym duration = int

abbreviation (input) nanosecond :: duration where "nanosecond \<equiv> 1"
abbreviation (input) second :: duration where "second \<equiv> 1000000000"
abbreviation (input) minute :: duration where "minute \<equiv> 60 * second"
abbreviation (input) hour :: duration where "hour \<equiv> 60 * minute"

type_synonym uint16 = "16 word"
type_synonym uint32 = "32 word"
type_synonym uint64 = "64 word"

named_theorems store_simps "equations that push a look-up through a store operation"
named_theorems frame_simps "fields an operation does not write"

section \<open>Maps with a deadline\<close>

text \<open>
  The sweep every store runs: Go deletes from the map, while ranging over it, each entry whose
  deadline has passed. Deleting during the range is well defined in Go and the guard reads only
  the entry itself, so the result is the restriction below whatever the iteration order.
\<close>

definition evict_map :: "('v \<Rightarrow> time) \<Rightarrow> time \<Rightarrow> ('k \<rightharpoonup> 'v) \<Rightarrow> ('k \<rightharpoonup> 'v)" where
  "evict_map deadline now m =
     (\<lambda>k. case m k of None \<Rightarrow> None | Some b \<Rightarrow> if deadline b < now then None else Some b)"

lemma evict_map_apply [store_simps]:
  "evict_map deadline now m k =
     (case m k of None \<Rightarrow> None | Some b \<Rightarrow> if deadline b < now then None else Some b)"
  by (simp add: evict_map_def)

lemma dom_evict_map: "dom (evict_map d now m) \<subseteq> dom m"
  by (auto simp: evict_map_def split: option.splits if_splits)

lemma evict_map_Some: "evict_map d now m k = Some b \<longleftrightarrow> m k = Some b \<and> now \<le> d b"
  by (auto simp: evict_map_def split: option.splits if_splits)

text \<open>
  What a sweep promises its readers, stated as an interface. A store is read through
  \<open>get\<close>; a binding is live at an instant when it is not a tombstone and its deadline has not
  passed; a sweep drops exactly the bindings past their deadline. The two lemmas are then
  common to the identity maps and the DNS map: a sweep is invisible to every later reader and
  a second sweep at the same instant finds nothing.
\<close>

locale expiring_store =
  fixes get :: "'s \<Rightarrow> 'k \<Rightarrow> 'v option"
    and deadline :: "'v \<Rightarrow> time"
    and dead :: "'v \<Rightarrow> bool"
    and evict :: "time \<Rightarrow> 's \<Rightarrow> 's"
  assumes get_evict: "get (evict now s) k =
    (case get s k of None \<Rightarrow> None | Some b \<Rightarrow> if deadline b < now then None else Some b)"
begin

definition live :: "time \<Rightarrow> 's \<Rightarrow> 'k \<Rightarrow> 'v option" where
  "live now s k =
     (case get s k of None \<Rightarrow> None
      | Some b \<Rightarrow> if dead b \<or> deadline b < now then None else Some b)"

lemma live_evict: "now \<le> later \<Longrightarrow> live later (evict now s) k = live later s k"
  by (auto simp: live_def get_evict split: option.splits)

lemma get_evict_twice: "get (evict now (evict now s)) k = get (evict now s) k"
  by (auto simp: get_evict split: option.splits)

lemma get_evict_fresh: "get (evict now s) k = Some b \<Longrightarrow> now \<le> deadline b \<and> get s k = Some b"
  by (auto simp: get_evict split: option.splits if_splits)

end

section \<open>Outcomes of a line parser\<close>

text \<open>
  A Go parser returning \<open>(event, ok, err)\<close> has three outcomes: an error (\<open>Inl\<close>), a line that is
  skipped silently (\<open>Inr None\<close>), and an event (\<open>Inr (Some ev)\<close>). The errors are the program's
  sentinel values, and whatever the XML decoder reports.
\<close>

datatype parse_error =
    errShortDHCPRow | errInvalidTimestamp | errXML string
  | errMalformedDNS
  | errMalformedTcpdumpDNS
  | errMalformedDnstapDNS

type_synonym 'e parsed = "parse_error + 'e option"

section \<open>Folds and sorted lists\<close>

lemma fold_id_on: "(\<And>x. x \<in> set xs \<Longrightarrow> f x s = s) \<Longrightarrow> fold f xs s = s"
  by (induction xs) auto

lemma sorted_wrt_less_snoc:
  "sorted_wrt (<) (map f (xs @ [x])) \<longleftrightarrow>
     sorted_wrt (<) (map f xs) \<and> (\<forall>y\<in>set xs. f y < (f x :: 'a :: linorder))"
  by (auto simp: sorted_wrt_append)

end
