(* ===== verification/SlotMachine.thy ===== *)
theory SlotMachine
  imports Prelude
begin

text \<open>
  The abstract contract of one identity slot. Both live maps of the identity store
  (\<open>ip \<rightarrow> device\<close> from DHCP, \<open>device \<rightarrow> session\<close> from RADIUS) run the same little machine for
  each key: an event opens the slot for an entity (a MAC token, an Acct-Session-Id) or closes
  it, the newest event wins, and a close leaves a tombstone behind. This theory defines the
  machine, the declarative meaning of a history (who holds the key at an instant), and the
  interface through which a store's handlers are shown to run it.
\<close>

datatype ('ent, 'pl) act =
    Open (act_ent: 'ent) (act_pl: 'pl) (act_time: time)
  | Close (act_ent: 'ent) (act_pl: 'pl) (act_time: time)

record ('ent, 'pl) slot =
  slot_ent :: 'ent
  slot_pl :: 'pl
  slot_time :: time
  slot_closed :: bool

abbreviation mk_slot :: "'ent \<Rightarrow> 'pl \<Rightarrow> time \<Rightarrow> bool \<Rightarrow> ('ent, 'pl) slot" where
  "mk_slot e p t c \<equiv> \<lparr>slot_ent = e, slot_pl = p, slot_time = t, slot_closed = c\<rparr>"

fun slot_step :: "('ent, 'pl) act \<Rightarrow> ('ent, 'pl) slot option \<Rightarrow> ('ent, 'pl) slot option" where
  "slot_step (Open e p t) None = Some (mk_slot e p t False)"
| "slot_step (Open e p t) (Some b) =
     (if (slot_closed b \<and> slot_ent b = e \<and> t \<le> slot_time b) \<or> t < slot_time b
      then Some b else Some (mk_slot e p t False))"
| "slot_step (Close e p t) None = None"
| "slot_step (Close e p t) (Some b) =
     (if slot_ent b = e \<and> slot_time b \<le> t then Some (mk_slot e p t True) else Some b)"

text \<open>Who a slot names at an instant, for a trust horizon \<open>L\<close>.\<close>

definition slot_holder ::
  "duration \<Rightarrow> time \<Rightarrow> ('ent, 'pl) slot option \<Rightarrow> ('ent \<times> 'pl) option" where
  "slot_holder L T v =
     (case v of None \<Rightarrow> None
      | Some b \<Rightarrow> if slot_closed b \<or> slot_time b + L < T then None
                   else Some (slot_ent b, slot_pl b))"

text \<open>
  The declarative meaning of a set of events: entity \<open>e\<close> with payload \<open>p\<close> holds the key at
  \<open>T\<close> when it was opened at the latest opening instant not after \<open>T\<close>, that opening is within
  the horizon, and no close of \<open>e\<close> lies between the opening and \<open>T\<close>.
\<close>

definition holds_at ::
  "duration \<Rightarrow> time \<Rightarrow> ('ent, 'pl) act set \<Rightarrow> 'ent \<Rightarrow> 'pl \<Rightarrow> bool" where
  "holds_at L T A e p \<longleftrightarrow>
     (\<exists>t. Open e p t \<in> A \<and> t \<le> T \<and> T \<le> t + L
        \<and> (\<forall>e' p' t'. Open e' p' t' \<in> A \<longrightarrow> t' \<le> T \<longrightarrow> t' \<le> t)
        \<and> (\<forall>p' t'. Close e p' t' \<in> A \<longrightarrow> t \<le> t' \<longrightarrow> t' \<le> T \<longrightarrow> False))"

section \<open>Newest event wins\<close>

lemma slot_step_time_mono:
  "v = Some b \<Longrightarrow> \<exists>b'. slot_step a v = Some b' \<and> slot_time b \<le> slot_time b'"
  by (cases a) auto

lemma slot_step_older:
  "v = Some b \<Longrightarrow> act_time a < slot_time b \<Longrightarrow> slot_step a v = v"
  by (cases a) auto

lemma slot_run_time_mono:
  "v = Some b \<Longrightarrow> \<exists>b'. fold slot_step as v = Some b' \<and> slot_time b \<le> slot_time b'"
proof (induction as arbitrary: v b)
  case Nil
  then show ?case by simp
next
  case (Cons a as)
  obtain b1 where b1: "slot_step a v = Some b1" "slot_time b \<le> slot_time b1"
    using slot_step_time_mono [OF Cons.prems] by blast
  obtain b2 where "fold slot_step as (slot_step a v) = Some b2" "slot_time b1 \<le> slot_time b2"
    using Cons.IH [OF b1(1)] by blast
  with b1(2) show ?case by auto
qed

text \<open>Every slot was written by an event of the history (or was there before).\<close>

lemma slot_step_origin:
  "slot_step a v = Some b \<Longrightarrow>
     v = Some b \<or> (slot_ent b = act_ent a \<and> slot_pl b = act_pl a \<and> slot_time b = act_time a
       \<and> slot_closed b = (case a of Open _ _ _ \<Rightarrow> False | Close _ _ _ \<Rightarrow> True))"
  by (cases a; cases v) (auto split: if_splits)

lemma slot_run_origin:
  "fold slot_step as v = Some b \<Longrightarrow> \<not> slot_closed b \<Longrightarrow>
     v = Some b \<or> Open (slot_ent b) (slot_pl b) (slot_time b) \<in> set as"
proof (induction as arbitrary: v)
  case Nil
  then show ?case by simp
next
  case (Cons a as)
  from Cons.prems have "slot_step a v = Some b \<or> Open (slot_ent b) (slot_pl b) (slot_time b) \<in> set as"
    by (intro Cons.IH) simp_all
  then show ?case
    using Cons.prems(2) by (cases a) (auto dest!: slot_step_origin)
qed

section \<open>A history in time order\<close>

text \<open>
  What the machine remembers after a strictly time-ordered history that started empty: nothing
  if nothing was ever opened, otherwise the last entity opened, as a tombstone exactly when a
  close of that entity followed.
\<close>

definition last_open :: "('ent, 'pl) act list \<Rightarrow> 'ent \<Rightarrow> 'pl \<Rightarrow> time \<Rightarrow> bool" where
  "last_open as e p t \<longleftrightarrow> Open e p t \<in> set as
     \<and> (\<forall>e' p' t'. Open e' p' t' \<in> set as \<longrightarrow> t' < t \<or> (e' = e \<and> p' = p \<and> t' = t))"

inductive slot_reflects :: "('ent, 'pl) act list \<Rightarrow> ('ent, 'pl) slot option \<Rightarrow> bool" for as where
  never: "(\<And>e p t. Open e p t \<notin> set as) \<Longrightarrow> slot_reflects as None"
| opened: "last_open as e p t \<Longrightarrow> (\<And>p' t'. Close e p' t' \<in> set as \<Longrightarrow> t' < t) \<Longrightarrow>
     slot_reflects as (Some (mk_slot e p t False))"
| closed: "last_open as e p t \<Longrightarrow> Close e q u \<in> set as \<Longrightarrow> t \<le> u \<Longrightarrow>
     slot_reflects as (Some (mk_slot e q u True))"

lemma last_open_snoc_open:
  "\<forall>a\<in>set as. act_time a < t \<Longrightarrow> last_open (as @ [Open e p t]) e p t"
  unfolding last_open_def by fastforce

lemma last_open_snoc_close: "last_open as e p t \<Longrightarrow> last_open (as @ [Close e' q u]) e p t"
  by (simp add: last_open_def)

lemma slot_reflects_time: "slot_reflects as (Some b) \<Longrightarrow> \<exists>a\<in>set as. act_time a = slot_time b"
  by (auto elim!: slot_reflects.cases simp: last_open_def intro: rev_bexI)

lemma slot_reflects_snoc:
  assumes r: "slot_reflects as v" and new: "\<forall>a\<in>set as. act_time a < act_time x"
  shows "slot_reflects (as @ [x]) (slot_step x v)"
proof (cases x)
  case (Open e p t)
  have t: "\<forall>a\<in>set as. act_time a < t" using new Open by simp
  have "slot_step x v = Some (mk_slot e p t False)"
  proof (cases v)
    case None
    then show ?thesis using Open by simp
  next
    case (Some b)
    then obtain a where "a \<in> set as" "act_time a = slot_time b"
      using slot_reflects_time r by blast
    then have "slot_time b < t" using t by auto
    then show ?thesis using Open Some by simp
  qed
  moreover have "t' < t" if "Close e p' t' \<in> set (as @ [x])" for p' t'
    using that Open t by auto
  ultimately show ?thesis
    using Open last_open_snoc_open [OF t] by (auto intro: slot_reflects.opened)
next
  case (Close e q u)
  have u: "\<forall>a\<in>set as. act_time a < u" using new Close by simp
  from r show ?thesis
  proof cases
    case never
    then show ?thesis using Close by (auto intro!: slot_reflects.never)
  next
    case (opened f p t)
    have tu: "t < u" using opened(2) u by (auto simp: last_open_def)
    show ?thesis
    proof (cases "f = e")
      case True
      have "slot_reflects (as @ [x]) (Some (mk_slot e q u True))"
        using Close opened(2) True tu by (auto intro!: slot_reflects.closed last_open_snoc_close)
      then show ?thesis using Close opened(1) True tu by simp
    next
      case False
      have "slot_reflects (as @ [x]) (Some (mk_slot f p t False))"
        using Close opened(2,3) False by (auto intro!: slot_reflects.opened last_open_snoc_close)
      then show ?thesis using Close opened(1) False by simp
    qed
  next
    case (closed f p t q' u')
    have tu: "t < u" "u' < u" using closed(2,3) u by (auto simp: last_open_def)
    have "slot_reflects (as @ [x]) (Some (mk_slot f (if f = e then q else q') (if f = e then u else u') True))"
      using Close closed(2,3,4) tu
      by (cases "f = e") (auto intro!: slot_reflects.closed last_open_snoc_close)
    then show ?thesis using Close closed(1) tu by auto
  qed
qed

lemma slot_run_reflects:
  "sorted_wrt (<) (map act_time as) \<Longrightarrow> slot_reflects as (fold slot_step as None)"
proof (induction as rule: rev_induct)
  case Nil
  then show ?case by (auto intro: slot_reflects.never)
next
  case (snoc x xs)
  then have "slot_reflects xs (fold slot_step xs None)" "\<forall>a\<in>set xs. act_time a < act_time x"
    by (simp_all add: sorted_wrt_less_snoc del: map_append)
  then show ?case using slot_reflects_snoc by simp
qed

text \<open>The machine computes the declarative meaning of a time-ordered history.\<close>

lemma holds_at_last_open:
  assumes o: "last_open as e p t" and T: "\<forall>a\<in>set as. act_time a \<le> T"
  shows "holds_at L T (set as) e' p' \<longleftrightarrow>
    e' = e \<and> p' = p \<and> T \<le> t + L \<and> (\<forall>q u. Close e q u \<in> set as \<longrightarrow> u < t)"
proof
  assume "holds_at L T (set as) e' p'"
  then obtain u where u: "Open e' p' u \<in> set as" "T \<le> u + L"
    "\<And>e p t. Open e p t \<in> set as \<Longrightarrow> t \<le> T \<Longrightarrow> t \<le> u"
    "\<And>q s. Close e' q s \<in> set as \<Longrightarrow> u \<le> s \<Longrightarrow> s \<le> T \<Longrightarrow> False"
    unfolding holds_at_def by blast
  have "t \<le> u" using u(3) [of e p t] o T by (auto simp: last_open_def)
  then have eq: "e' = e \<and> p' = p \<and> u = t" using o u(1) unfolding last_open_def by (metis leD)
  moreover have "s < t" if "Close e q s \<in> set as" for q s
    using u(4) [of q s] that eq T by (cases "t \<le> s") auto
  ultimately show "e' = e \<and> p' = p \<and> T \<le> t + L \<and> (\<forall>q u. Close e q u \<in> set as \<longrightarrow> u < t)"
    using u(2) by blast
next
  assume h: "e' = e \<and> p' = p \<and> T \<le> t + L \<and> (\<forall>q u. Close e q u \<in> set as \<longrightarrow> u < t)"
  have "t \<le> T" using o T by (auto simp: last_open_def)
  moreover have "s \<le> t" if "Open f q s \<in> set as" for f q s
    using o that unfolding last_open_def by fastforce
  ultimately show "holds_at L T (set as) e' p'"
    using h o unfolding holds_at_def last_open_def by (metis leD)
qed

lemma slot_run_holds:
  assumes "sorted_wrt (<) (map act_time as)" and T: "\<forall>a\<in>set as. act_time a \<le> T"
  shows "slot_holder L T (fold slot_step as None) = Some (e, p) \<longleftrightarrow> holds_at L T (set as) e p"
  using slot_run_reflects [OF assms(1)]
proof cases
  case never
  then show ?thesis by (auto simp: slot_holder_def holds_at_def)
next
  case (opened f q t)
  then show ?thesis using holds_at_last_open [OF opened(2) T, of L e p]
    by (auto simp: slot_holder_def)
next
  case (closed f q t r u)
  then show ?thesis using holds_at_last_open [OF closed(2) T, of L e p]
    by (auto simp: slot_holder_def dest: leD)
qed

section \<open>Replaying a history\<close>

text \<open>
  Feeding a strictly time-ordered history a second time changes nothing: every event older
  than the slot is refused, the event that wrote the slot rewrites it, and the only events
  newer than the slot are closes of other entities.
\<close>

lemma slot_replay_step:
  assumes "sorted_wrt (<) (map act_time as)" and "a \<in> set as"
    and v: "v = fold slot_step as None"
  shows "slot_step a v = v"
  using assms
proof (induction as arbitrary: a v rule: rev_induct)
  case Nil
  then show ?case by simp
next
  case (snoc x xs)
  let ?w = "fold slot_step xs None"
  have srt: "sorted_wrt (<) (map act_time xs)"
    and lt: "\<And>y. y \<in> set xs \<Longrightarrow> act_time y < act_time x"
    using snoc.prems(1) by (simp_all add: sorted_wrt_less_snoc del: map_append)
  have v: "v = slot_step x ?w" using snoc.prems(3) by simp
  have tm: "\<And>b. ?w = Some b \<Longrightarrow> slot_time b < act_time x"
    using slot_run_reflects [OF srt] lt slot_reflects_time by fastforce
  show ?case
  proof (cases "a = x")
    case True
    then show ?thesis using v by (cases x; cases ?w) auto
  next
    case False
    then have a: "a \<in> set xs" using snoc.prems(2) by simp
    have IH: "slot_step a ?w = ?w" using snoc.IH [OF srt a refl] .
    show ?thesis
    proof (cases "v = ?w")
      case True
      then show ?thesis using IH by simp
    next
      case False
      then obtain b where "v = Some b" "slot_time b = act_time x"
        using v slot_step_origin [of x ?w] by (cases v; cases x; cases ?w) (auto split: if_splits)
      then show ?thesis using lt [OF a] by (auto intro: slot_step_older)
    qed
  qed
qed

lemma slot_replay:
  assumes "sorted_wrt (<) (map act_time as)"
  shows "fold slot_step as (fold slot_step as None) = fold slot_step as None"
  using slot_replay_step [OF assms _ refl] by (intro fold_id_on) blast

section \<open>The interface of a newest-wins store\<close>

text \<open>The events of a log that concern one key, as actions of that key's slot.\<close>

definition acts_for ::
  "('e \<Rightarrow> 'k) \<Rightarrow> ('e \<Rightarrow> ('ent, 'pl) act option) \<Rightarrow> 'k \<Rightarrow> 'e list \<Rightarrow> ('ent, 'pl) act list" where
  "acts_for key act k es = List.map_filter (\<lambda>e. if key e = k then act e else None) es"

lemma acts_for_simps [simp]:
  "acts_for key act k [] = []"
  "acts_for key act k (e # es) =
     (if key e = k then case act e of None \<Rightarrow> acts_for key act k es
                                    | Some a \<Rightarrow> a # acts_for key act k es
      else acts_for key act k es)"
  by (auto simp: acts_for_def map_filter_simps split: option.splits)

lemma set_acts_for: "set (acts_for key act k es) = {a. \<exists>e\<in>set es. key e = k \<and> act e = Some a}"
  by (induction es) (auto split: option.splits)

lemma acts_for_mem: "a \<in> set (acts_for key act k es) \<longleftrightarrow> (\<exists>e\<in>set es. key e = k \<and> act e = Some a)"
  by (simp add: set_acts_for)

locale newest_wins_store =
  fixes handler :: "'e \<Rightarrow> 's \<Rightarrow> 's"
    and view :: "'s \<Rightarrow> 'k \<Rightarrow> ('ent, 'pl) slot option"
    and key :: "'e \<Rightarrow> 'k"
    and act :: "'e \<Rightarrow> ('ent, 'pl) act option"
  assumes view_handler: "view (handler e s) k =
    (if key e = k then case act e of None \<Rightarrow> view s k | Some a \<Rightarrow> slot_step a (view s k)
     else view s k)"
begin

lemma view_run: "view (fold handler es s) k = fold slot_step (acts_for key act k es) (view s k)"
  by (induction es arbitrary: s) (auto simp: view_handler split: option.splits)

lemma never_backward:
  "view s k = Some b \<Longrightarrow> \<exists>b'. view (fold handler es s) k = Some b' \<and> slot_time b \<le> slot_time b'"
  by (simp add: view_run slot_run_time_mono)

lemma provenance:
  "view (fold handler es s) k = Some b \<Longrightarrow> \<not> slot_closed b \<Longrightarrow> view s k = None \<Longrightarrow>
     \<exists>e\<in>set es. key e = k \<and> act e = Some (Open (slot_ent b) (slot_pl b) (slot_time b))"
  using slot_run_origin by (fastforce simp: view_run acts_for_mem)

lemma history_meaning:
  assumes "view s k = None" and "sorted_wrt (<) (map act_time (acts_for key act k es))"
    and "\<forall>a\<in>set (acts_for key act k es). act_time a \<le> T"
  shows "slot_holder L T (view (fold handler es s) k) = Some (e, p)
     \<longleftrightarrow> holds_at L T (set (acts_for key act k es)) e p"
  using slot_run_holds [OF assms(2,3)] assms(1) by (simp add: view_run)

lemma replay_view:
  assumes "view s k = None" and "sorted_wrt (<) (map act_time (acts_for key act k es))"
  shows "view (fold handler es (fold handler es s)) k = view (fold handler es s) k"
  using slot_replay [OF assms(2)] assms(1) by (simp add: view_run)

end

section \<open>A history with sweeps\<close>

text \<open>
  The store also drops slots past the horizon now and then. A sweep can forget a tombstone, so
  a sweep is not invisible to the next event in general; it is when the events come in time
  order, because whatever a sweep forgot no longer constrains an event newer than it.
\<close>

datatype 'e store_op = Ev 'e | Sweep time

primrec op_events :: "'e store_op \<Rightarrow> 'e list" where
  "op_events (Ev e) = [e]"
| "op_events (Sweep now) = []"

abbreviation events_of :: "'e store_op list \<Rightarrow> 'e list" where
  "events_of ops \<equiv> concat (map op_events ops)"

definition sweeps_before :: "time \<Rightarrow> 'e store_op list \<Rightarrow> bool" where
  "sweeps_before T ops \<longleftrightarrow> (\<forall>now. Sweep now \<in> set ops \<longrightarrow> now \<le> T)"

lemma sweeps_before_simps [simp]:
  "sweeps_before T []"
  "sweeps_before T (Ev e # ops) = sweeps_before T ops"
  "sweeps_before T (Sweep now # ops) = (now \<le> T \<and> sweeps_before T ops)"
  "sweeps_before T (ops @ ops') = (sweeps_before T ops \<and> sweeps_before T ops')"
  by (auto simp: sweeps_before_def)

definition slot_sweep :: "duration \<Rightarrow> time \<Rightarrow> ('ent, 'pl) slot option \<Rightarrow> ('ent, 'pl) slot option" where
  "slot_sweep L now v =
     (case v of None \<Rightarrow> None | Some b \<Rightarrow> if slot_time b + L < now then None else Some b)"

primrec slot_op :: "duration \<Rightarrow> ('ent, 'pl) act store_op \<Rightarrow> ('ent, 'pl) slot option \<Rightarrow> ('ent, 'pl) slot option"
  where
  "slot_op L (Ev a) v = slot_step a v"
| "slot_op L (Sweep now) v = slot_sweep L now v"

text \<open>The swept slot is the unswept one, or it is gone and the unswept one names nobody.\<close>

definition swept_agree where
  "swept_agree L T ve v \<longleftrightarrow> ve = v \<or> (ve = None \<and> slot_holder L T v = None)"

lemma swept_agree_holder: "swept_agree L T ve v \<Longrightarrow> slot_holder L T ve = slot_holder L T v"
  by (auto simp: swept_agree_def slot_holder_def)

lemma swept_agree_sweep:
  "swept_agree L T ve v \<Longrightarrow> now \<le> T \<Longrightarrow> swept_agree L T (slot_sweep L now ve) v"
  by (auto simp: swept_agree_def slot_sweep_def slot_holder_def split: option.splits if_splits)

lemma swept_agree_step:
  "swept_agree L T ve v \<Longrightarrow> (\<And>b. v = Some b \<Longrightarrow> slot_time b < act_time a) \<Longrightarrow>
     swept_agree L T (slot_step a ve) (slot_step a v)"
  by (cases a; cases v; cases ve) (auto simp: swept_agree_def slot_holder_def split: if_splits)

lemma slot_ops_agree:
  assumes "sorted_wrt (<) (map act_time (events_of ops))" and "sweeps_before T ops"
  shows "swept_agree L T (fold (slot_op L) ops None) (fold slot_step (events_of ops) None)"
  using assms
proof (induction ops rule: rev_induct)
  case Nil
  show ?case by (simp add: swept_agree_def)
next
  case (snoc op ops)
  show ?case
  proof (cases op)
    case (Sweep now)
    then show ?thesis using snoc by (simp add: swept_agree_sweep)
  next
    case (Ev a)
    then have srt: "sorted_wrt (<) (map act_time (events_of ops))"
      and lt: "\<And>y. y \<in> set (events_of ops) \<Longrightarrow> act_time y < act_time a"
      using snoc.prems(1) by (simp_all add: sorted_wrt_append del: set_concat)
    have "swept_agree L T (fold (slot_op L) ops None) (fold slot_step (events_of ops) None)"
      using snoc.IH srt snoc.prems(2) by simp
    moreover have "slot_time b < act_time a"
      if "fold slot_step (events_of ops) None = Some b" for b
      using slot_run_reflects [OF srt] that lt slot_reflects_time by fastforce
    ultimately show ?thesis using Ev by (simp add: swept_agree_step)
  qed
qed

lemma slot_op_origin:
  assumes "fold (slot_op L) ops v = Some b" "\<not> slot_closed b" "v = None"
  shows "Open (slot_ent b) (slot_pl b) (slot_time b) \<in> set (events_of ops)"
  using assms(1,2)
proof (induction ops arbitrary: b rule: rev_induct)
  case Nil
  then show ?case using assms(3) by simp
next
  case (snoc op ops)
  show ?case
  proof (cases op)
    case (Sweep now)
    then show ?thesis using snoc
      by (auto simp: slot_sweep_def split: option.splits if_splits)
  next
    case (Ev a)
    then have "slot_step a (fold (slot_op L) ops v) = Some b" using snoc.prems(1) by simp
    from slot_step_origin [OF this] show ?thesis using snoc.IH snoc.prems(2) Ev
      by (cases a) auto
  qed
qed

text \<open>A newest-wins store with a sweep, whose slots are trusted for a fixed horizon.\<close>

locale swept_store = newest_wins_store handler view key act
  for handler :: "'e \<Rightarrow> 's \<Rightarrow> 's" and view :: "'s \<Rightarrow> 'k \<Rightarrow> ('ent, 'pl) slot option"
    and key :: "'e \<Rightarrow> 'k" and act :: "'e \<Rightarrow> ('ent, 'pl) act option" +
  fixes sweep :: "time \<Rightarrow> 's \<Rightarrow> 's" and inv :: "'s \<Rightarrow> bool" and horizon :: duration
  assumes inv_handler: "inv s \<Longrightarrow> inv (handler e s)"
    and inv_sweep: "inv s \<Longrightarrow> inv (sweep now s)"
    and view_sweep: "inv s \<Longrightarrow> view (sweep now s) k = slot_sweep horizon now (view s k)"
begin

primrec store_step :: "'e store_op \<Rightarrow> 's \<Rightarrow> 's" where
  "store_step (Ev e) s = handler e s"
| "store_step (Sweep now) s = sweep now s"

primrec slot_ops :: "'k \<Rightarrow> 'e store_op \<Rightarrow> ('ent, 'pl) act store_op list" where
  "slot_ops k (Ev e) = map Ev (acts_for key act k [e])"
| "slot_ops k (Sweep now) = [Sweep now]"

lemma inv_step: "inv s \<Longrightarrow> inv (store_step op s)"
  by (cases op) (simp_all add: inv_handler inv_sweep)

lemma inv_run: "inv s \<Longrightarrow> inv (fold store_step ops s)"
  by (induction ops arbitrary: s) (simp_all add: inv_step)

lemma view_op: "inv s \<Longrightarrow>
    view (store_step op s) k = fold (slot_op horizon) (slot_ops k op) (view s k)"
  by (cases op) (simp_all add: view_handler view_sweep split: option.splits)

lemma view_ops: "inv s \<Longrightarrow>
    view (fold store_step ops s) k = fold (slot_op horizon) (concat (map (slot_ops k) ops)) (view s k)"
proof (induction ops arbitrary: s)
  case Nil
  show ?case by simp
next
  case (Cons op ops)
  from Cons.IH [OF inv_step [OF Cons.prems, of op]] show ?case
    by (simp add: view_op [OF Cons.prems])
qed

lemma events_slot_ops:
  "events_of (concat (map (slot_ops k) ops)) = acts_for key act k (events_of ops)"
proof (induction ops)
  case Nil
  show ?case by simp
next
  case (Cons op ops)
  then show ?case by (cases op) (auto split: option.splits)
qed

lemma sweeps_slot_ops:
  "sweeps_before T ops \<Longrightarrow> sweeps_before T (concat (map (slot_ops k) ops))"
proof (induction ops)
  case Nil
  show ?case by simp
next
  case (Cons op ops)
  then show ?case by (cases op) (auto split: option.splits)
qed

lemma swept_meaning:
  assumes "inv s" "view s k = None" "sweeps_before T ops"
    and "sorted_wrt (<) (map act_time (acts_for key act k (events_of ops)))"
    and "\<forall>a\<in>set (acts_for key act k (events_of ops)). act_time a \<le> T"
  shows "slot_holder horizon T (view (fold store_step ops s) k) = Some (e, p)
    \<longleftrightarrow> holds_at horizon T (set (acts_for key act k (events_of ops))) e p"
proof -
  let ?ops = "concat (map (slot_ops k) ops)"
  have "swept_agree horizon T (fold (slot_op horizon) ?ops None) (fold slot_step (events_of ?ops) None)"
    using assms(4) by (intro slot_ops_agree sweeps_slot_ops assms(3)) (simp add: events_slot_ops)
  then show ?thesis
    using slot_run_holds [OF assms(4,5)] assms(2)
    by (simp add: view_ops [OF assms(1)] swept_agree_holder events_slot_ops)
qed

lemma swept_provenance:
  assumes "inv s" "view s k = None" "view (fold store_step ops s) k = Some b" "\<not> slot_closed b"
  shows "\<exists>e\<in>set (events_of ops). key e = k \<and> act e = Some (Open (slot_ent b) (slot_pl b) (slot_time b))"
  using slot_op_origin [of horizon "concat (map (slot_ops k) ops)" "view s k" b] assms
  unfolding view_ops [OF assms(1)] events_slot_ops acts_for_mem by blast

end

end
