(* ===== verification/ClickHouse.thy ===== *)
theory ClickHouse
  imports Prelude "HOL-Library.Sublist"
begin

text \<open>
  The three calls the writers make of the ClickHouse driver (a third-party package), as a
  parameter: opening a batch, appending one row to it (a client-side conversion that can
  reject the row) and sending the batch. \<open>'c\<close> is the state of the connection, the server and
  the network; nothing is assumed about it. \<open>Send\<close> reports success only when the server
  acknowledged the whole batch, which is what the ghost log of \<open>recording\<close> notes down.

  The theory also states, as an interface, what a buffered writer with retry promises: rows
  reach the log at most once and in order, and are lost only by the overflow of the buffer.
\<close>

record ('c, 'row) batch_driver =
  PrepareBatch :: "'c \<Rightarrow> bool \<times> 'c"
  Append :: "'row \<Rightarrow> bool"
  Send :: "'row list \<Rightarrow> 'c \<Rightarrow> bool \<times> 'c"

type_synonym ('c, 'row) sender = "'row list \<Rightarrow> 'c \<Rightarrow> bool \<times> 'c"

text \<open>The loop of \<open>batch.Append\<close> calls, which returns at the first row that is rejected.\<close>

fun append_rows :: "('c, 'row) batch_driver \<Rightarrow> 'row list \<Rightarrow> bool" where
  "append_rows d [] = True"
| "append_rows d (r # rs) = (if Append d r then append_rows d rs else False)"

definition send_batch :: "('c, 'row) batch_driver \<Rightarrow> ('c, 'row) sender" where
  "send_batch d rows c =
     (let (ok, c') = PrepareBatch d c
      in if \<not> ok then (False, c')
         else if append_rows d rows then Send d rows c' else (False, c'))"

lemma append_rows_iff: "append_rows d rs \<longleftrightarrow> (\<forall>r\<in>set rs. Append d r)"
  by (induction rs) auto

lemma send_batch_poison: "r \<in> set rows \<Longrightarrow> \<not> Append d r \<Longrightarrow> \<not> fst (send_batch d rows c)"
  by (auto simp: send_batch_def append_rows_iff split: prod.splits)

text \<open>A sender that also notes the acknowledged rows.\<close>

definition recording :: "('c, 'row) sender \<Rightarrow> ('c \<times> 'row list, 'row) sender" where
  "recording send rows s =
     (let (ok, c') = send rows (fst s) in (ok, (c', if ok then snd s @ rows else snd s)))"

lemma recording_fst [simp]: "fst (recording send rows s) = fst (send rows (fst s))"
  by (simp add: recording_def split: prod.splits)

lemma recording_state [simp]: "fst (snd (recording send rows s)) = snd (send rows (fst s))"
  by (simp add: recording_def split: prod.splits)

lemma recording_log:
  "snd (snd (recording send rows s)) = (if fst (send rows (fst s)) then snd s @ rows else snd s)"
  by (simp add: recording_def split: prod.splits)

section \<open>The shutdown loop\<close>

text \<open>
  \<open>FinalFlush\<close> and \<open>FinalDrain\<close> are one loop: flush, count what is left, return when nothing is
  left or the attempts are used up, otherwise wait (\<open>pause\<close>, which may change the world) and try
  again. \<open>attempts\<close> is a signed integer in the code; the first flush runs whatever its value.
\<close>

function final_loop :: "('s \<Rightarrow> 's) \<Rightarrow> ('s \<Rightarrow> nat) \<Rightarrow> ('s \<Rightarrow> 's) \<Rightarrow> int \<Rightarrow> int \<Rightarrow> 's \<Rightarrow> nat \<times> 's" where
  "final_loop flush remaining pause attempts i s =
     (let s' = flush s; n = remaining s'
      in if n = 0 \<or> attempts - 1 \<le> i then (n, s')
         else final_loop flush remaining pause attempts (i + 1) (pause s'))"
  by pat_completeness auto
termination
  by (relation "measure (\<lambda>(f, r, p, attempts, i, s). nat (attempts - i))") auto

declare final_loop.simps [simp del]

text \<open>The state after the \<open>k\<close>-th flush of the loop, counting from 0.\<close>

primrec after_flush :: "('s \<Rightarrow> 's) \<Rightarrow> ('s \<Rightarrow> 's) \<Rightarrow> nat \<Rightarrow> 's \<Rightarrow> 's" where
  "after_flush flush pause 0 s = flush s"
| "after_flush flush pause (Suc k) s = flush (pause (after_flush flush pause k s))"

lemma after_flush_shift:
  "after_flush flush pause (Suc k) s = after_flush flush pause k (pause (flush s))"
  by (induction k arbitrary: s) simp_all

text \<open>
  The loop stops after a flush that left nothing or after the last attempt, whichever is
  first, and reports what that flush left.
\<close>

lemma final_loop_stops:
  "\<exists>k. final_loop flush remaining pause attempts i s
          = (remaining (after_flush flush pause k s), after_flush flush pause k s)
     \<and> k \<le> nat (attempts - 1 - i)
     \<and> (\<forall>j<k. remaining (after_flush flush pause j s) \<noteq> 0)
     \<and> (remaining (after_flush flush pause k s) = 0 \<or> k = nat (attempts - 1 - i))"
proof (induction flush remaining pause attempts i s rule: final_loop.induct)
  case (1 flush remaining pause attempts i s)
  show ?case
  proof (cases "remaining (flush s) = 0 \<or> attempts - 1 \<le> i")
    case True
    then show ?thesis
      by (intro exI [of _ 0]) (auto simp: final_loop.simps [of _ _ _ _ _ s] Let_def)
  next
    case False
    then obtain k where k: "final_loop flush remaining pause attempts (i + 1) (pause (flush s))
          = (remaining (after_flush flush pause k (pause (flush s))),
             after_flush flush pause k (pause (flush s)))"
      "k \<le> nat (attempts - 1 - (i + 1))"
      "\<forall>j<k. remaining (after_flush flush pause j (pause (flush s))) \<noteq> 0"
      "remaining (after_flush flush pause k (pause (flush s))) = 0 \<or> k = nat (attempts - 1 - (i + 1))"
      using "1.IH" [OF refl refl] by blast
    have "remaining (after_flush flush pause j s) \<noteq> 0" if "j < Suc k" for j
      using that k(3) False by (cases j) (auto simp: after_flush_shift simp del: after_flush.simps(2))
    moreover have "final_loop flush remaining pause attempts i s
        = (remaining (after_flush flush pause (Suc k) s), after_flush flush pause (Suc k) s)"
      using False k(1) by (subst final_loop.simps) (simp add: Let_def after_flush_shift del: after_flush.simps(2))
    moreover have "Suc k \<le> nat (attempts - 1 - i)" using k(2) False by linarith
    moreover have "remaining (after_flush flush pause (Suc k) s) = 0 \<or> Suc k = nat (attempts - 1 - i)"
      using k(4) False unfolding after_flush_shift by linarith
    ultimately show ?thesis by (intro exI [of _ "Suc k"]) blast
  qed
qed

section \<open>The bounded retry buffer\<close>

definition capTail :: "'a list \<Rightarrow> nat \<Rightarrow> 'a list" where
  "capTail s n = (if length s \<le> n then s else drop (length s - n) s)"

lemma length_capTail [simp]: "length (capTail s n) = min (length s) n"
  by (simp add: capTail_def)

lemma capTail_suffix: "suffix (capTail s n) s"
  by (simp add: capTail_def suffix_drop)

lemma capTail_subseq: "subseq (capTail s n) s"
  by (rule suffix_imp_subseq [OF capTail_suffix])

lemma capTail_id [simp]: "length s \<le> n \<Longrightarrow> capTail s n = s"
  by (simp add: capTail_def)

lemma capTail_Nil [simp]: "capTail [] n = []"
  by simp

text \<open>
  One flush of one buffer: nothing when it is empty; one attempt otherwise, which empties the
  buffer on success and cuts it to its newest rows on failure.
\<close>

definition flush_buffer :: "('c, 'row) sender \<Rightarrow> nat \<Rightarrow> 'row list \<Rightarrow> 'c \<Rightarrow> 'row list \<times> 'c" where
  "flush_buffer send cap b c =
     (if b = [] then (b, c)
      else let (ok, c') = send b c in (if ok then [] else capTail b cap, c'))"

lemma flush_buffer_cases:
  assumes "flush_buffer send cap b c = (b', c')"
  shows "(b = [] \<and> b' = [] \<and> c' = c)
    \<or> (b \<noteq> [] \<and> fst (send b c) \<and> b' = [] \<and> c' = snd (send b c))
    \<or> (b \<noteq> [] \<and> \<not> fst (send b c) \<and> b' = capTail b cap \<and> c' = snd (send b c))"
  using assms by (auto simp: flush_buffer_def split: prod.splits if_splits)

lemma flush_buffer_le:
  "flush_buffer send cap b c = (b', c') \<Longrightarrow> length b' \<le> length b \<and> (length b' \<le> cap \<or> b = [])"
  by (drule flush_buffer_cases) auto

text \<open>
  The interface. \<open>rows op\<close> are the rows an operation appends to the buffer, \<open>log\<close> the rows
  acknowledged so far. A step either appends, or acknowledges the whole buffer, or cuts it.
\<close>

locale retry_buffer =
  fixes step :: "'op \<Rightarrow> 's \<Rightarrow> 's"
    and buf :: "'s \<Rightarrow> 'row list"
    and log :: "'s \<Rightarrow> 'row list"
    and rows :: "'op \<Rightarrow> 'row list"
    and cap :: "'s \<Rightarrow> nat"
  assumes step_cases:
    "(buf (step op s) = buf s @ rows op \<and> log (step op s) = log s)
     \<or> (rows op = [] \<and> buf (step op s) = [] \<and> log (step op s) = log s @ buf s)
     \<or> (rows op = [] \<and> buf (step op s) = capTail (buf s) (cap s) \<and> log (step op s) = log s)"
    and cap_step: "cap (step op s) = cap s"
begin

abbreviation added :: "'op list \<Rightarrow> 'row list" where "added ops \<equiv> concat (map rows ops)"

lemma cap_run: "cap (fold step ops s) = cap s"
  by (induction ops arbitrary: s) (simp_all add: cap_step)

lemma step_subseq:
  "subseq (log (step op s) @ buf (step op s)) ((log s @ buf s) @ rows op)"
  using step_cases [of op s] capTail_subseq [of "buf s" "cap s"]
  by (auto intro: list_emb_append_mono)

lemma run_subseq: "subseq (log (fold step ops s) @ buf (fold step ops s)) ((log s @ buf s) @ added ops)"
proof (induction ops arbitrary: s)
  case Nil
  show ?case by simp
next
  case (Cons op ops)
  have "subseq ((log (step op s) @ buf (step op s)) @ added ops)
          (((log s @ buf s) @ rows op) @ added ops)"
    using step_subseq by (rule list_emb_append_mono) simp
  then show ?case using Cons.IH [of "step op s"] by (auto intro: subseq_order.trans)
qed

lemma step_exact:
  assumes "length (buf s) \<le> cap s"
  shows "log (step op s) @ buf (step op s) = (log s @ buf s) @ rows op"
  using step_cases [of op s] assms by auto

lemma run_exact:
  assumes "length (buf s) + length (added ops) \<le> cap s"
  shows "log (fold step ops s) @ buf (fold step ops s) = (log s @ buf s) @ added ops"
  using assms
proof (induction ops arbitrary: s)
  case Nil
  show ?case by simp
next
  case (Cons op ops)
  have b: "length (buf s) \<le> cap s" using Cons.prems by simp
  have "length (buf (step op s)) + length (added ops) \<le> cap (step op s)"
    using step_cases [of op s] Cons.prems by (auto simp: cap_step)
  from Cons.IH [OF this] step_exact [OF b] show ?case by simp
qed

text \<open>Lost rows are the overflow: what a failed flush cut from the old end.\<close>

lemma run_conserve:
  "length (log (fold step ops s)) + length (buf (fold step ops s))
     \<le> length (log s) + length (buf s) + length (added ops)"
  using list_emb_length [OF run_subseq [of ops s]] by simp

end

end
