(* ===== verification/GoStrings.thy ===== *)
theory GoStrings
  imports Prelude "HOL-Library.Sublist"
begin

text \<open>
  The parts of Go's \<open>strings\<close>, \<open>bytes\<close> and \<open>strconv\<close> packages the log parsers use. A Go
  string is its list of bytes. The case mapping and the white-space class are the ASCII ones:
  a byte above 127 is neither a letter nor a space here, while Go decodes UTF-8 runes; the
  logs the parsers read are ASCII. An index result of \<open>-1\<close> is \<open>None\<close>.
\<close>

section \<open>Characters\<close>

abbreviation (input) char_code :: "char \<Rightarrow> nat" where "char_code c \<equiv> of_char c"

definition isSpace :: "char \<Rightarrow> bool" where
  "isSpace c \<longleftrightarrow> c = CHR '' '' \<or> (9 \<le> char_code c \<and> char_code c \<le> 13)"

definition isDigit :: "char \<Rightarrow> bool" where
  "isDigit c \<longleftrightarrow> 48 \<le> char_code c \<and> char_code c \<le> 57"

definition digitVal :: "char \<Rightarrow> nat" where
  "digitVal c = char_code c - 48"

definition lowerChar :: "char \<Rightarrow> char" where
  "lowerChar c = (if 65 \<le> char_code c \<and> char_code c \<le> 90 then char_of (char_code c + 32) else c)"

lemma of_char_lowerChar:
  "char_code (lowerChar c) = (if 65 \<le> char_code c \<and> char_code c \<le> 90 then char_code c + 32 else char_code c)"
  by (auto simp: lowerChar_def of_char_of)

lemma lowerChar_idem [simp]: "lowerChar (lowerChar c) = lowerChar c"
  by (simp add: lowerChar_def of_char_of)

lemma lowerChar_eq_dot [simp]: "lowerChar c = CHR ''.'' \<longleftrightarrow> c = CHR ''.''"
proof -
  have "of_char (lowerChar c) = (46::nat) \<longleftrightarrow> of_char c = (46::nat)"
    by (simp add: of_char_lowerChar)
  moreover have "(of_char x = (46::nat)) = (x = CHR ''.'')" for x :: char
    using of_char_eq_iff [of x "CHR ''.''", where 'a = nat] by simp
  ultimately show ?thesis by simp
qed

lemma isSpace_lowerChar [simp]: "isSpace (lowerChar c) = isSpace c"
proof -
  have "(x = CHR '' '') = (of_char x = (32::nat))" for x :: char
    using of_char_eq_iff [of x "CHR '' ''", where 'a = nat] by simp
  then show ?thesis by (auto simp: isSpace_def of_char_lowerChar)
qed

section \<open>Trimming, prefixes and case\<close>

definition trimLeftIf :: "(char \<Rightarrow> bool) \<Rightarrow> string \<Rightarrow> string" where
  "trimLeftIf P s = dropWhile P s"

definition trimRightIf :: "(char \<Rightarrow> bool) \<Rightarrow> string \<Rightarrow> string" where
  "trimRightIf P s = rev (dropWhile P (rev s))"

definition trimIf :: "(char \<Rightarrow> bool) \<Rightarrow> string \<Rightarrow> string" where
  "trimIf P s = trimRightIf P (trimLeftIf P s)"

definition trimSpace :: "string \<Rightarrow> string" where
  "trimSpace s = trimIf isSpace s"

definition toLower :: "string \<Rightarrow> string" where
  "toLower s = map lowerChar s"

definition hasPrefix :: "string \<Rightarrow> string \<Rightarrow> bool" where
  "hasPrefix s p \<longleftrightarrow> take (length p) s = p"

definition hasSuffix :: "string \<Rightarrow> string \<Rightarrow> bool" where
  "hasSuffix s p \<longleftrightarrow> length p \<le> length s \<and> drop (length s - length p) s = p"

definition trimPrefix :: "string \<Rightarrow> string \<Rightarrow> string" where
  "trimPrefix s p = (if hasPrefix s p then drop (length p) s else s)"

definition trimSuffix :: "string \<Rightarrow> string \<Rightarrow> string" where
  "trimSuffix s p = (if hasSuffix s p then take (length s - length p) s else s)"

lemma hasPrefix_iff: "hasPrefix s p \<longleftrightarrow> prefix p s"
  unfolding hasPrefix_def prefix_def by (metis append_eq_conv_conj append_take_drop_id)

lemma hasPrefix_Cons [simp]:
  "hasPrefix s []"
  "hasPrefix [] (c # p) = False"
  "hasPrefix (d # s) (c # p) \<longleftrightarrow> d = c \<and> hasPrefix s p"
  by (auto simp: hasPrefix_def)

lemma hasSuffix_iff: "hasSuffix s p \<longleftrightarrow> suffix p s"
proof
  assume "hasSuffix s p"
  then show "suffix p s" unfolding hasSuffix_def suffix_def by (metis append_take_drop_id)
next
  assume "suffix p s"
  then show "hasSuffix s p" by (auto simp: hasSuffix_def suffix_def)
qed

lemma hasSuffix_single: "hasSuffix s [c] \<longleftrightarrow> s \<noteq> [] \<and> last s = c"
  by (cases s rule: rev_cases) (simp_all add: hasSuffix_def)

lemma trimSuffix_single:
  "trimSuffix s [c] = (if s \<noteq> [] \<and> last s = c then butlast s else s)"
  by (cases s rule: rev_cases) (auto simp: trimSuffix_def hasSuffix_single)

lemma trimSpace_Nil [simp]: "trimSpace [] = []"
  by (simp add: trimSpace_def trimIf_def trimLeftIf_def trimRightIf_def)

lemma set_trimIf: "set (trimIf P s) \<subseteq> set s"
  by (auto simp: trimIf_def trimRightIf_def trimLeftIf_def dest!: set_dropWhileD)

lemma dropWhile_hd: "s = [] \<or> \<not> P (hd s) \<Longrightarrow> dropWhile P s = s"
  by (cases s) auto

lemma trimIf_id: "s = [] \<or> (\<not> P (hd s) \<and> \<not> P (last s)) \<Longrightarrow> trimIf P s = s"
  unfolding trimIf_def trimLeftIf_def trimRightIf_def
  by (metis dropWhile_hd hd_rev rev_is_Nil_conv rev_rev_ident)

lemma trimIf_ends: "trimIf P s \<noteq> [] \<Longrightarrow> \<not> P (hd (trimIf P s)) \<and> \<not> P (last (trimIf P s))"
proof -
  assume ne: "trimIf P s \<noteq> []"
  let ?l = "dropWhile P s"
  have t: "trimIf P s = rev (dropWhile P (rev ?l))"
    by (simp add: trimIf_def trimRightIf_def trimLeftIf_def)
  have l: "?l \<noteq> []" using ne t by (metis dropWhile.simps(1) rev.simps(1))
  have "\<not> P (hd ?l)" using l by (rule hd_dropWhile)
  moreover have "hd (trimIf P s) = hd ?l"
  proof -
    have "prefix (rev (dropWhile P (rev ?l))) ?l"
      using suffix_dropWhile [of P "rev ?l"] by (simp add: suffix_to_prefix)
    then obtain zs where "?l = trimIf P s @ zs" unfolding t prefix_def by blast
    then show ?thesis using ne by (metis hd_append2)
  qed
  moreover have "\<not> P (last (trimIf P s))"
    using ne t hd_dropWhile [of P "rev ?l"] by (simp add: last_rev)
  ultimately show ?thesis by simp
qed

lemma trimSpace_idem [simp]: "trimSpace (trimSpace s) = trimSpace s"
  unfolding trimSpace_def using trimIf_ends [of isSpace s] by (intro trimIf_id) blast

lemma toLower_idem [simp]: "toLower (toLower s) = toLower s"
  by (simp add: toLower_def)

lemma toLower_eq_Nil [simp]: "toLower s = [] \<longleftrightarrow> s = []"
  by (simp add: toLower_def)

lemma dropWhile_isSpace_toLower: "dropWhile isSpace (toLower s) = toLower (dropWhile isSpace s)"
  by (simp add: toLower_def dropWhile_map comp_def)

lemma trimSpace_toLower: "trimSpace (toLower s) = toLower (trimSpace s)"
  by (simp add: trimSpace_def trimIf_def trimLeftIf_def trimRightIf_def toLower_def
      dropWhile_map comp_def rev_map)

section \<open>Searching and splitting\<close>

fun indexByte :: "string \<Rightarrow> char \<Rightarrow> nat option" where
  "indexByte [] c = None"
| "indexByte (d # s) c = (if d = c then Some 0 else map_option Suc (indexByte s c))"

fun index :: "string \<Rightarrow> string \<Rightarrow> nat option" where
  "index [] p = (if p = [] then Some 0 else None)"
| "index (c # s) p = (if hasPrefix (c # s) p then Some 0 else map_option Suc (index s p))"

definition lastIndexByte :: "string \<Rightarrow> char \<Rightarrow> nat option" where
  "lastIndexByte s c = map_option (\<lambda>i. length s - Suc i) (indexByte (rev s) c)"

definition lastIndex :: "string \<Rightarrow> string \<Rightarrow> nat option" where
  "lastIndex s p = map_option (\<lambda>i. length s - i - length p) (index (rev s) (rev p))"

definition contains :: "string \<Rightarrow> string \<Rightarrow> bool" where
  "contains s p \<longleftrightarrow> index s p \<noteq> None"

lemma indexByte_Some:
  "indexByte s c = Some i \<Longrightarrow> i < length s \<and> s ! i = c \<and> c \<notin> set (take i s)"
  by (induction s c arbitrary: i rule: indexByte.induct) (auto split: if_splits)

lemma indexByte_None: "indexByte s c = None \<longleftrightarrow> c \<notin> set s"
  by (induction s c rule: indexByte.induct) auto

lemma indexByte_append: "c \<notin> set u \<Longrightarrow> indexByte (u @ c # v) c = Some (length u)"
  by (induction u) auto

lemma index_Some: "index s p = Some i \<Longrightarrow> i + length p \<le> length s \<and> hasPrefix (drop i s) p"
proof (induction s p arbitrary: i rule: index.induct)
  case (2 c s p)
  then show ?case
    by (auto simp: hasPrefix_iff dest: prefix_length_le split: if_splits)
qed (auto split: if_splits)

lemma lastIndexByte_Some:
  assumes "lastIndexByte s c = Some i"
  shows "i < length s \<and> s ! i = c \<and> c \<notin> set (drop (Suc i) s)"
proof -
  obtain j where j: "indexByte (rev s) c = Some j" "i = length s - Suc j"
    using assms by (auto simp: lastIndexByte_def)
  have k: "j < length s" "rev s ! j = c" "c \<notin> set (take j (rev s))"
    using indexByte_Some [OF j(1)] by auto
  then show ?thesis using j(2) by (simp add: rev_nth take_rev Suc_diff_Suc)
qed

lemma lastIndexByte_append: "c \<notin> set v \<Longrightarrow> lastIndexByte (u @ c # v) c = Some (length u)"
proof -
  assume "c \<notin> set v"
  then have "indexByte (rev v @ c # rev u) c = Some (length (rev v))"
    by (intro indexByte_append) simp
  then show ?thesis by (simp add: lastIndexByte_def)
qed

text \<open>
  \<open>strings.Split\<close> with a non-empty separator (the only use in the code; Go splits into UTF-8
  sequences when it is empty).
\<close>

function split :: "string \<Rightarrow> string \<Rightarrow> string list" where
  "split s sep =
     (case index s sep of
        None \<Rightarrow> [s]
      | Some i \<Rightarrow> if sep = [] then map (\<lambda>c. [c]) s
                  else take i s # split (drop (i + length sep) s) sep)"
  by pat_completeness auto
termination
proof (relation "measure (length \<circ> fst)")
  fix s sep i
  assume "index s sep = Some i" "sep \<noteq> []"
  then show "((drop (i + length sep) s, sep), s, sep) \<in> measure (length \<circ> fst)"
    using index_Some [of s sep i] by (cases sep) auto
qed simp

declare split.simps [simp del]

text \<open>\<open>strings.Fields\<close>: the maximal runs of non-space bytes.\<close>

function fields :: "string \<Rightarrow> string list" where
  "fields s =
     (let t = dropWhile isSpace s
      in if t = [] then []
         else takeWhile (\<lambda>c. \<not> isSpace c) t # fields (dropWhile (\<lambda>c. \<not> isSpace c) t))"
  by pat_completeness auto
termination
proof (relation "measure length")
  fix s t
  assume t: "t = dropWhile isSpace s" and ne: "t \<noteq> []"
  have "\<not> isSpace (hd t)" using ne hd_dropWhile [of isSpace s] t by simp
  then have "length (dropWhile (\<lambda>c. \<not> isSpace c) t) < length t"
    using ne by (cases t) (auto intro: le_imp_less_Suc length_dropWhile_le)
  also have "length t \<le> length s" using t by (simp add: length_dropWhile_le)
  finally show "(dropWhile (\<lambda>c. \<not> isSpace c) t, s) \<in> measure length" by simp
qed simp

declare fields.simps [simp del]

lemma fields_nonempty: "f \<in> set (fields s) \<Longrightarrow> f \<noteq> [] \<and> (\<forall>c\<in>set f. \<not> isSpace c)"
proof (induction s rule: fields.induct)
  case (1 s)
  let ?t = "dropWhile isSpace s"
  have tn: "?t \<noteq> []"
  proof
    assume "?t = []"
    then have "fields s = []" by (simp only: fields.simps [of s] Let_def if_True refl)
    then show False using "1.prems" by simp
  qed
  let ?w = "takeWhile (\<lambda>c. \<not> isSpace c) ?t"
  have eq: "fields s = ?w # fields (dropWhile (\<lambda>c. \<not> isSpace c) ?t)"
    using tn by (simp only: fields.simps [of s] Let_def if_False)
  have ne: "?w \<noteq> []" using hd_dropWhile [OF tn] tn by (cases ?t) simp_all
  have ns: "\<forall>c\<in>set ?w. \<not> isSpace c" by (auto dest: set_takeWhileD)
  from "1.prems" have "f = ?w \<or> f \<in> set (fields (dropWhile (\<lambda>c. \<not> isSpace c) ?t))"
    unfolding eq by simp
  then show ?case
  proof
    assume f: "f = ?w"
    show ?thesis unfolding f using ne ns by (rule conjI)
  next
    assume "f \<in> set (fields (dropWhile (\<lambda>c. \<not> isSpace c) ?t))"
    then show ?thesis by (rule "1.IH" [OF refl tn])
  qed
qed

section \<open>Numbers\<close>

definition digitsVal :: "string \<Rightarrow> int" where
  "digitsVal s = foldl (\<lambda>n c. 10 * n + int (digitVal c)) 0 s"

text \<open>\<open>strconv.ParseUint(s, 10, bits)\<close>: \<open>None\<close> stands for the syntax and the range error.\<close>

definition parseUint :: "nat \<Rightarrow> string \<Rightarrow> int option" where
  "parseUint bits s =
     (if s = [] \<or> \<not> list_all isDigit s \<or> 2 ^ bits \<le> digitsVal s then None else Some (digitsVal s))"

text \<open>\<open>strconv.Atoi\<close> on a 64-bit machine.\<close>

definition atoi :: "string \<Rightarrow> int option" where
  "atoi s =
     (let (neg, body) = (case s of [] \<Rightarrow> (False, [])
                         | c # r \<Rightarrow> if c = CHR ''-'' then (True, r)
                                     else if c = CHR ''+'' then (False, r) else (False, s));
          v = (if neg then - digitsVal body else digitsVal body)
      in if body = [] \<or> \<not> list_all isDigit body \<or> v < - (2 ^ 63) \<or> 2 ^ 63 \<le> v then None else Some v)"

lemma digitsVal_nonneg: "0 \<le> digitsVal s"
proof -
  have "0 \<le> n \<Longrightarrow> 0 \<le> foldl (\<lambda>n c. 10 * n + int (digitVal c)) n s" for n
    by (induction s arbitrary: n) simp_all
  then show ?thesis by (simp add: digitsVal_def)
qed

lemma parseUint_bound: "parseUint bits s = Some n \<Longrightarrow> 0 \<le> n \<and> n < 2 ^ bits"
  using digitsVal_nonneg [of s] by (auto simp: parseUint_def split: if_splits)

section \<open>Splitting a joined row\<close>

text \<open>\<open>strings.Join\<close> is the inverse direction of \<open>strings.Split\<close> on cells free of the separator.\<close>

fun joinWith :: "char \<Rightarrow> string list \<Rightarrow> string" where
  "joinWith c [] = []"
| "joinWith c [x] = x"
| "joinWith c (x # y # ys) = x @ c # joinWith c (y # ys)"

lemma index_single: "index s [c] = indexByte s c"
  by (induction s) auto

lemma split_single: "split s [c] =
    (case indexByte s c of None \<Rightarrow> [s] | Some i \<Rightarrow> take i s # split (drop (Suc i) s) [c])"
  by (subst split.simps) (simp add: index_single cong: option.case_cong)

lemma split_no_sep: "c \<notin> set s \<Longrightarrow> split s [c] = [s]"
  by (simp add: split_single indexByte_None [THEN iffD2])

lemma split_append_sep: "c \<notin> set u \<Longrightarrow> split (u @ c # v) [c] = u # split v [c]"
  by (subst split_single) (simp add: indexByte_append)

lemma split_joinWith:
  "cells \<noteq> [] \<Longrightarrow> \<forall>x\<in>set cells. c \<notin> set x \<Longrightarrow> split (joinWith c cells) [c] = cells"
  by (induction c cells rule: joinWith.induct) (auto simp: split_no_sep split_append_sep)

lemma split_not_Nil [simp]: "sep \<noteq> [] \<Longrightarrow> split s sep \<noteq> []"
  by (subst split.simps) (auto split: option.splits)

text \<open>Trimming a joined row only trims its first and its last cell.\<close>

lemma trimSpace_joinWith_id:
  "s \<noteq> [] \<Longrightarrow> \<not> isSpace (hd s) \<Longrightarrow> \<not> isSpace (last s) \<Longrightarrow> trimSpace s = s"
  by (simp add: trimSpace_def trimIf_id)

end
