(* ===== verification/GoTime.thy ===== *)
theory GoTime
  imports GoStrings
begin

text \<open>
  The parts of Go's \<open>time\<close> package the parsers use: the calendar, \<open>time.Date\<close> in a location,
  and \<open>time.Parse\<close> / \<open>time.ParseInLocation\<close> for the layout elements that occur in the
  program's layouts. The zone database is a parameter: a location is its look-up function,
  which gives for an instant (in Unix seconds) the zone's offset and the interval the zone
  applies to, as \<open>(*Location).lookup\<close> does.
\<close>

type_synonym location = "int \<Rightarrow> int \<times> int \<times> int"

definition UTC :: location where
  "UTC t = (0, - (2 ^ 63), 2 ^ 63 - 1)"

section \<open>The calendar\<close>

definition isLeap :: "int \<Rightarrow> bool" where
  "isLeap y \<longleftrightarrow> y mod 4 = 0 \<and> (y mod 100 \<noteq> 0 \<or> y mod 400 = 0)"

definition daysIn :: "int \<Rightarrow> int \<Rightarrow> int" where
  "daysIn m y =
     (if m = 2 then if isLeap y then 29 else 28
      else if m = 4 \<or> m = 6 \<or> m = 9 \<or> m = 11 then 30 else 31)"

text \<open>Days from 1 January 1970 of a proleptic Gregorian date.\<close>

definition daysSinceEpoch :: "int \<Rightarrow> int \<Rightarrow> int \<Rightarrow> int" where
  "daysSinceEpoch y m d =
     (let y' = (if m \<le> 2 then y - 1 else y);
          era = y' div 400;
          yoe = y' - era * 400;
          doy = (153 * ((m + 9) mod 12) + 2) div 5 + d - 1;
          doe = yoe * 365 + yoe div 4 - yoe div 100 + doy
      in era * 146097 + doe - 719468)"

definition unixOfCivil :: "int \<Rightarrow> int \<Rightarrow> int \<Rightarrow> int \<Rightarrow> int \<Rightarrow> int \<Rightarrow> int" where
  "unixOfCivil y mo d h mi s = daysSinceEpoch y mo d * 86400 + h * 3600 + mi * 60 + s"

text \<open>
  \<open>time.Date\<close>: the wall clock is read as if it were UTC, the offset found there is
  subtracted, and looked up again when that leaves the zone it came from.
\<close>

definition unixInLocation :: "location \<Rightarrow> int \<Rightarrow> int" where
  "unixInLocation loc wall =
     (let (offset, start, stop) = loc wall
      in if offset = 0 then wall
         else let utc = wall - offset
              in if utc < start \<or> stop \<le> utc then wall - fst (loc utc) else utc)"

definition goDate :: "location \<Rightarrow> int \<Rightarrow> int \<Rightarrow> int \<Rightarrow> int \<Rightarrow> int \<Rightarrow> int \<Rightarrow> int \<Rightarrow> time" where
  "goDate loc y mo d h mi s ns = unixInLocation loc (unixOfCivil y mo d h mi s) * second + ns"

text \<open>The wall clock of an instant, in seconds, as \<open>t.In(loc)\<close> shows it.\<close>

definition wallClock :: "location \<Rightarrow> time \<Rightarrow> int" where
  "wallClock loc t = t div second + fst (loc (t div second))"

definition truncateSecond :: "time \<Rightarrow> time" where
  "truncateSecond t = t - t mod second"

text \<open>
  \<open>time.Time{}\<close>, the instant \<open>IsZero\<close> recognises: 1 January of year 1, UTC. Truncation rounds
  down since that instant, which is a whole number of seconds before the Unix epoch.
\<close>

definition zeroTime :: time where
  "zeroTime = - 62135596800 * second"

lemma zeroTime_civil: "zeroTime = goDate UTC 1 1 1 0 0 0 0"
  by (simp add: zeroTime_def goDate_def unixInLocation_def UTC_def unixOfCivil_def daysSinceEpoch_def)

lemma truncateSecond_idem [simp]: "truncateSecond (truncateSecond t) = truncateSecond t"
  by (simp add: truncateSecond_def)

lemma truncateSecond_le: "truncateSecond t \<le> t"
  by (simp add: truncateSecond_def)

lemma truncateSecond_whole: "t mod second = 0 \<Longrightarrow> truncateSecond t = t"
  by (simp add: truncateSecond_def)

section \<open>Layouts\<close>

datatype chunk =
    Lit string
  | Year4 | Year2 | Month2 | MonthName | Day2 | Hour2 | Minute2 | Second2
  | Frac0 nat | ZoneColon

record tfields =
  tf_year :: int
  tf_month :: int
  tf_day :: int
  tf_hour :: int
  tf_min :: int
  tf_sec :: int
  tf_nsec :: int
  tf_zone :: "int option"

definition tfields_init :: tfields where
  "tfields_init = \<lparr>tf_year = 0, tf_month = 1, tf_day = 1, tf_hour = 0, tf_min = 0,
     tf_sec = 0, tf_nsec = 0, tf_zone = None\<rparr>"

definition isDigitAt :: "string \<Rightarrow> nat \<Rightarrow> bool" where
  "isDigitAt s i \<longleftrightarrow> i < length s \<and> isDigit (s ! i)"

text \<open>\<open>getnum\<close>: one or two digits, exactly two when \<open>fixed\<close>.\<close>

definition getnum :: "string \<Rightarrow> bool \<Rightarrow> (int \<times> string) option" where
  "getnum s fixed =
     (if \<not> isDigitAt s 0 then None
      else if \<not> isDigitAt s 1
        then if fixed then None else Some (int (digitVal (s ! 0)), drop 1 s)
      else Some (int (digitVal (s ! 0)) * 10 + int (digitVal (s ! 1)), drop 2 s))"

text \<open>The package's own \<open>atoi\<close>: an optional sign, then digits only (possibly none).\<close>

definition time_atoi :: "string \<Rightarrow> int option" where
  "time_atoi s =
     (let neg = (s \<noteq> [] \<and> hd s = CHR ''-'');
          body = (if s \<noteq> [] \<and> (hd s = CHR ''-'' \<or> hd s = CHR ''+'') then tl s else s)
      in if \<not> list_all isDigit body then None
         else Some (if neg then - digitsVal body else digitsVal body))"

text \<open>\<open>skip\<close>: a space of the layout matches any run of spaces, none only at the end.\<close>

function skip :: "string \<Rightarrow> string \<Rightarrow> string option" where
  "skip v [] = Some v"
| "skip v (p # ps) =
     (if p = CHR '' ''
      then if v \<noteq> [] \<and> hd v \<noteq> CHR '' '' then None
           else skip (dropWhile (\<lambda>c. c = CHR '' '') v) (dropWhile (\<lambda>c. c = CHR '' '') ps)
      else case v of [] \<Rightarrow> None | c # cs \<Rightarrow> if c = p then skip cs ps else None)"
  by pat_completeness auto
termination
  by (relation "measure (length \<circ> snd)") (auto intro: le_imp_less_Suc length_dropWhile_le)

definition commaOrPeriod :: "char \<Rightarrow> bool" where
  "commaOrPeriod c \<longleftrightarrow> c = CHR ''.'' \<or> c = CHR '',''"

definition parseNanoseconds :: "string \<Rightarrow> nat \<Rightarrow> int option" where
  "parseNanoseconds v n =
     (if v = [] \<or> \<not> commaOrPeriod (hd v) then None
      else let n' = min n 10
           in case time_atoi (take (n' - 1) (tl v)) of
                None \<Rightarrow> None
              | Some ns \<Rightarrow> if ns < 0 then None else Some (ns * 10 ^ (10 - n')))"

definition shortMonthNames :: "string list" where
  "shortMonthNames = [''jan'', ''feb'', ''mar'', ''apr'', ''may'', ''jun'',
     ''jul'', ''aug'', ''sep'', ''oct'', ''nov'', ''dec'']"

definition lookupMonth :: "string \<Rightarrow> (int \<times> string) option" where
  "lookupMonth v =
     map_option (\<lambda>(i, _). (int i, drop 3 v))
       (List.find (\<lambda>(_, n). n = toLower (take 3 v)) (enumerate 1 shortMonthNames))"

text \<open>
  One element of a layout. \<open>fnext\<close> says whether the next element is a fractional second: a
  seconds element that is not followed by one swallows a fraction of the input.
\<close>

definition parseSeconds :: "string \<Rightarrow> bool \<Rightarrow> tfields \<Rightarrow> (tfields \<times> string) option" where
  "parseSeconds v fnext f =
     (case getnum v True of
        None \<Rightarrow> None
      | Some (s, r) \<Rightarrow>
          if 60 \<le> s then None
          else if length r \<ge> 2 \<and> commaOrPeriod (hd r) \<and> isDigitAt r 1 \<and> \<not> fnext
            then let n = 1 + length (takeWhile isDigit (tl r))
                 in case parseNanoseconds r n of
                      None \<Rightarrow> None
                    | Some ns \<Rightarrow> Some (f\<lparr>tf_sec := s, tf_nsec := ns\<rparr>, drop n r)
          else Some (f\<lparr>tf_sec := s\<rparr>, r))"

definition parseZoneColon :: "string \<Rightarrow> tfields \<Rightarrow> (tfields \<times> string) option" where
  "parseZoneColon v f =
     (if v \<noteq> [] \<and> hd v = CHR ''Z'' then Some (f\<lparr>tf_zone := Some 0\<rparr>, tl v)
      else if length v < 6 \<or> v ! 3 \<noteq> CHR '':'' then None
      else case (getnum (take 2 (drop 1 v)) True, getnum (take 2 (drop 4 v)) True) of
          (Some (hr, _), Some (mm, _)) \<Rightarrow>
            if 24 < hr \<or> 60 < mm then None
            else if hd v = CHR ''+'' then Some (f\<lparr>tf_zone := Some ((hr * 60 + mm) * 60)\<rparr>, drop 6 v)
            else if hd v = CHR ''-'' then Some (f\<lparr>tf_zone := Some (- ((hr * 60 + mm) * 60))\<rparr>, drop 6 v)
            else None
        | _ \<Rightarrow> None)"

fun parseChunk :: "chunk \<Rightarrow> bool \<Rightarrow> string \<Rightarrow> tfields \<Rightarrow> (tfields \<times> string) option" where
  "parseChunk (Lit p) fnext v f = map_option (\<lambda>r. (f, r)) (skip v p)"
| "parseChunk Year4 fnext v f =
     (if length v < 4 \<or> \<not> isDigitAt v 0 then None
      else map_option (\<lambda>y. (f\<lparr>tf_year := y\<rparr>, drop 4 v)) (time_atoi (take 4 v)))"
| "parseChunk Year2 fnext v f =
     (if length v < 2 then None
      else map_option (\<lambda>y. (f\<lparr>tf_year := if y \<ge> 69 then y + 1900 else y + 2000\<rparr>, drop 2 v))
             (time_atoi (take 2 v)))"
| "parseChunk Month2 fnext v f =
     (case getnum v True of None \<Rightarrow> None
      | Some (m, r) \<Rightarrow> if m \<le> 0 \<or> 12 < m then None else Some (f\<lparr>tf_month := m\<rparr>, r))"
| "parseChunk MonthName fnext v f = map_option (\<lambda>(m, r). (f\<lparr>tf_month := m\<rparr>, r)) (lookupMonth v)"
| "parseChunk Day2 fnext v f = map_option (\<lambda>(d, r). (f\<lparr>tf_day := d\<rparr>, r)) (getnum v True)"
| "parseChunk Hour2 fnext v f =
     (case getnum v False of None \<Rightarrow> None
      | Some (h, r) \<Rightarrow> if 24 \<le> h then None else Some (f\<lparr>tf_hour := h\<rparr>, r))"
| "parseChunk Minute2 fnext v f =
     (case getnum v True of None \<Rightarrow> None
      | Some (m, r) \<Rightarrow> if 60 \<le> m then None else Some (f\<lparr>tf_min := m\<rparr>, r))"
| "parseChunk Second2 fnext v f = parseSeconds v fnext f"
| "parseChunk (Frac0 n) fnext v f =
     (if length v < 1 + n then None
      else map_option (\<lambda>ns. (f\<lparr>tf_nsec := ns\<rparr>, drop (1 + n) v)) (parseNanoseconds v (1 + n)))"
| "parseChunk ZoneColon fnext v f = parseZoneColon v f"

fun fracNext :: "chunk list \<Rightarrow> bool" where
  "fracNext (Frac0 _ # _) = True"
| "fracNext _ = False"

fun parseChunks :: "chunk list \<Rightarrow> string \<Rightarrow> tfields \<Rightarrow> tfields option" where
  "parseChunks [] v f = (if v = [] then Some f else None)"
| "parseChunks (c # cs) v f =
     (case parseChunk c (fracNext cs) v f of None \<Rightarrow> None | Some (f', r) \<Rightarrow> parseChunks cs r f')"

text \<open>\<open>time.ParseInLocation\<close>; \<open>time.Parse\<close> is the same in \<open>UTC\<close>. \<open>None\<close> is the error.\<close>

definition parseInLocation :: "chunk list \<Rightarrow> string \<Rightarrow> location \<Rightarrow> time option" where
  "parseInLocation layout v loc =
     (case parseChunks layout v tfields_init of
        None \<Rightarrow> None
      | Some f \<Rightarrow>
          if tf_day f < 1 \<or> daysIn (tf_month f) (tf_year f) < tf_day f then None
          else case tf_zone f of
              Some z \<Rightarrow> Some (goDate UTC (tf_year f) (tf_month f) (tf_day f) (tf_hour f) (tf_min f)
                                (tf_sec f) (tf_nsec f) - z * second)
            | None \<Rightarrow> Some (goDate loc (tf_year f) (tf_month f) (tf_day f) (tf_hour f) (tf_min f)
                                (tf_sec f) (tf_nsec f)))"

definition RFC3339 :: "chunk list" where
  "RFC3339 = [Year4, Lit ''-'', Month2, Lit ''-'', Day2, Lit ''T'', Hour2, Lit '':'', Minute2,
     Lit '':'', Second2, ZoneColon]"

lemma parse_example_Z:
  "parseInLocation RFC3339 ''2026-07-15T08:42:54Z'' UTC = Some (1784104974 * second)"
  by code_simp

lemma parse_example_offset:
  "parseInLocation RFC3339 ''2026-07-15T15:42:54.5+07:00'' UTC = Some (1784104974 * second + 500000000)"
  by code_simp

end
