(* ===== verification/GoNet.thy ===== *)
theory GoNet
  imports GoStrings
begin

unbundle bit_operations_syntax

text \<open>
  The parts of Go's \<open>net\<close> package the program uses: \<open>net.ParseIP\<close> (which is
  \<open>netip.ParseAddr\<close> without zones, in 16-byte form), \<open>IP.To4\<close>, \<open>net.ParseCIDR\<close> and
  \<open>IPNet.Contains\<close>. A \<open>net.IP\<close> is its list of bytes; \<open>nil\<close> is \<open>None\<close>.
\<close>

type_synonym byte = "8 word"
type_synonym IP = "byte list"

section \<open>Addresses\<close>

definition ipv4Octet :: "string \<Rightarrow> byte option" where
  "ipv4Octet s =
     (if s = [] \<or> \<not> list_all isDigit s \<or> (length s > 1 \<and> hd s = CHR ''0'') \<or> 255 < digitsVal s
      then None else Some (of_int (digitsVal s)))"

text \<open>Dotted decimal: exactly four octets, no empty one, none with a leading zero.\<close>

definition parseIPv4Fields :: "string \<Rightarrow> IP option" where
  "parseIPv4Fields s =
     (let os = map ipv4Octet (split s ''.'')
      in if length os = 4 \<and> list_all (\<lambda>x. x \<noteq> None) os then Some (map the os) else None)"

definition isHex :: "char \<Rightarrow> bool" where
  "isHex c \<longleftrightarrow> isDigit c \<or> (97 \<le> char_code c \<and> char_code c \<le> 102)
     \<or> (65 \<le> char_code c \<and> char_code c \<le> 70)"

definition hexVal :: "char \<Rightarrow> nat" where
  "hexVal c = (if isDigit c then char_code c - 48
               else if 97 \<le> char_code c then char_code c - 87 else char_code c - 55)"

definition hexsVal :: "string \<Rightarrow> uint32" where
  "hexsVal s = foldl (\<lambda>n c. push_bit 4 n + of_nat (hexVal c)) 0 s"

text \<open>
  The loop over the colon-separated groups: the bytes so far, the place of the \<open>::\<close> if it was
  seen, and the rest of the text. The first argument counts the groups still allowed (the loop's
  \<open>i < 16\<close>), so running out of it is the loop's normal exit.
\<close>

fun ipv6Groups :: "nat \<Rightarrow> string \<Rightarrow> IP \<Rightarrow> nat option \<Rightarrow> (string \<times> IP \<times> nat option) option" where
  "ipv6Groups 0 s acc ell = Some (s, acc, ell)"
| "ipv6Groups (Suc n) s acc ell =
     (let hx = takeWhile isHex s; rest = drop (length hx) s
      in if hx = [] \<or> 4 < length hx then None
         else if rest \<noteq> [] \<and> hd rest = CHR ''.'' then
           (if (ell = None \<and> length acc \<noteq> 12) \<or> 16 < length acc + 4 then None
            else case parseIPv4Fields s of None \<Rightarrow> None | Some b \<Rightarrow> Some ([], acc @ b, ell))
         else
           let acc' = acc @ [ucast (drop_bit 8 (hexsVal hx)), ucast (hexsVal hx)]
           in if rest = [] then Some ([], acc', ell)
              else if hd rest \<noteq> CHR '':'' \<or> length rest = 1 then None
              else let s2 = tl rest
                   in if hd s2 = CHR '':'' then
                        (if ell \<noteq> None then None
                         else if tl s2 = [] then Some ([], acc', Some (length acc'))
                         else ipv6Groups n (tl s2) acc' (Some (length acc')))
                      else ipv6Groups n s2 acc' ell)"

definition parseIPv6 :: "string \<Rightarrow> IP option" where
  "parseIPv6 s =
     (let lead = hasPrefix s ''::''; s1 = (if lead then drop 2 s else s)
      in if lead \<and> s1 = [] then Some (replicate 16 0)
         else case ipv6Groups 8 s1 [] (if lead then Some 0 else None) of
             None \<Rightarrow> None
           | Some (rest, bs, ell) \<Rightarrow>
               if rest \<noteq> [] then None
               else if length bs < 16 then
                 (case ell of None \<Rightarrow> None
                  | Some e \<Rightarrow> Some (take e bs @ replicate (16 - length bs) 0 @ drop e bs))
               else if ell \<noteq> None then None else Some bs)"

definition v4InV6Prefix :: IP where
  "v4InV6Prefix = replicate 10 0 @ [255, 255]"

text \<open>\<open>net.ParseIP\<close>: the first dot or colon decides the family; a zone is refused.\<close>

definition parseIP :: "string \<Rightarrow> IP option" where
  "parseIP s =
     (if CHR ''%'' \<in> set s then None
      else case List.find (\<lambda>c. c = CHR ''.'' \<or> c = CHR '':'') s of
          None \<Rightarrow> None
        | Some c \<Rightarrow> if c = CHR ''.'' then map_option (\<lambda>b. v4InV6Prefix @ b) (parseIPv4Fields s)
                    else parseIPv6 s)"

definition To4 :: "IP \<Rightarrow> IP option" where
  "To4 ip = (if length ip = 4 then Some ip
             else if length ip = 16 \<and> take 12 ip = v4InV6Prefix then Some (drop 12 ip)
             else None)"

lemma parseIPv4Fields_length: "parseIPv4Fields s = Some b \<Longrightarrow> length b = 4"
  by (auto simp: parseIPv4Fields_def Let_def split: if_splits)

lemma parseIP_dotted_To4:
  "parseIP s = Some ip \<Longrightarrow> CHR '':'' \<notin> set s \<Longrightarrow> To4 ip \<noteq> None"
proof -
  assume p: "parseIP s = Some ip" and nc: "CHR '':'' \<notin> set s"
  from p obtain c where f: "List.find (\<lambda>c. c = CHR ''.'' \<or> c = CHR '':'') s = Some c"
    by (auto simp: parseIP_def split: if_splits option.splits)
  then have "c \<in> set s" "c = CHR ''.'' \<or> c = CHR '':''"
    unfolding find_Some_iff by (metis nth_mem)+
  then have "c = CHR ''.''" using nc by auto
  then obtain b where "parseIPv4Fields s = Some b" "ip = v4InV6Prefix @ b"
    using p f by (auto simp: parseIP_def split: if_splits)
  then show ?thesis
    using parseIPv4Fields_length by (auto simp: To4_def v4InV6Prefix_def)
qed

section \<open>Networks\<close>

record IPNet =
  net_ip :: IP
  net_mask :: IP

text \<open>\<open>net.CIDRMask(ones, 8*n)\<close>.\<close>

definition cidrMask :: "nat \<Rightarrow> nat \<Rightarrow> IP" where
  "cidrMask ones n =
     map (\<lambda>i. if 8 * (i + 1) \<le> ones then 255
              else if ones \<le> 8 * i then 0
              else NOT (mask (8 - (ones - 8 * i)))) [0..<n]"

text \<open>\<open>IPMask.Size\<close>: the leading ones of a canonical mask, 0 for any other.\<close>

definition leadingOnes :: "byte \<Rightarrow> nat" where
  "leadingOnes v = length (takeWhile (\<lambda>i. bit v (7 - i)) [0..<8])"

fun simpleMaskLength :: "IP \<Rightarrow> nat option" where
  "simpleMaskLength [] = Some 0"
| "simpleMaskLength (v # m) =
     (if v = 255 then map_option (\<lambda>n. 8 + n) (simpleMaskLength m)
      else if push_bit (leadingOnes v) v = 0 \<and> list_all (\<lambda>b. b = 0) m then Some (leadingOnes v)
      else None)"

definition maskSize :: "IP \<Rightarrow> nat" where
  "maskSize m = (case simpleMaskLength m of None \<Rightarrow> 0 | Some n \<Rightarrow> n)"

definition ipMask :: "IP \<Rightarrow> IP \<Rightarrow> IP" where
  "ipMask ip m =
     (let ip' = (if length m = 4 \<and> length ip = 16 \<and> take 12 ip = v4InV6Prefix then drop 12 ip else ip)
      in map2 (AND) ip' m)"

text \<open>\<open>net.ParseCIDR\<close>; an address written in dotted decimal is a 4-byte network.\<close>

definition parseCIDR :: "string \<Rightarrow> IPNet option" where
  "parseCIDR s =
     (case indexByte s (CHR ''/'') of
        None \<Rightarrow> None
      | Some i \<Rightarrow>
          (case parseIP (take i s) of
             None \<Rightarrow> None
           | Some ip \<Rightarrow>
               let m = drop (Suc i) s;
                   iplen = (if CHR '':'' \<in> set (take i s) then 16 else 4)
               in if m = [] \<or> \<not> list_all isDigit m \<or> 8 * int iplen < digitsVal m then None
                  else let msk = cidrMask (nat (digitsVal m)) iplen
                       in Some \<lparr>net_ip = ipMask ip msk, net_mask = msk\<rparr>))"

definition networkNumberAndMask :: "IPNet \<Rightarrow> (IP \<times> IP) option" where
  "networkNumberAndMask n =
     (let ip = (case To4 (net_ip n) of Some b \<Rightarrow> b | None \<Rightarrow> net_ip n); m = net_mask n
      in if length ip = 4 \<and> length m = 4 then Some (ip, m)
         else if length ip = 4 \<and> length m = 16 then Some (ip, drop 12 m)
         else if length ip = 16 \<and> length m = 16 then Some (ip, m)
         else None)"

definition ipNetContains :: "IPNet \<Rightarrow> IP \<Rightarrow> bool" where
  "ipNetContains n ip =
     (case networkNumberAndMask n of
        None \<Rightarrow> ip = []
      | Some (nn, m) \<Rightarrow>
          let x = (case To4 ip of Some b \<Rightarrow> b | None \<Rightarrow> ip)
          in length x = length nn \<and> map2 (AND) nn m = map2 (AND) x m)"

lemma parseIP_v4_example: "parseIP ''10.0.0.66'' = Some (v4InV6Prefix @ [10, 0, 0, 66])"
  by code_simp

lemma parseIP_v6_example:
  "parseIP ''2001:db8::1'' = Some [32, 1, 13, 184, 0, 0, 0, 0, 0, 0, 0, 0, 0, 0, 0, 1]"
  by code_simp

lemma parseIP_mapped_example:
  "parseIP ''::ffff:1.2.3.4'' = Some (v4InV6Prefix @ [1, 2, 3, 4])"
  by code_simp

lemma parseCIDR_example:
  "map_option (\<lambda>n. ipNetContains n (v4InV6Prefix @ [172, 31, 255, 255])) (parseCIDR ''172.16.0.0/12'')
     = Some True"
  by code_simp

end
