(* ===== verification/Pseudonym.thy ===== *)
theory Pseudonym
  imports GoNet
begin

text \<open>
  \<open>pseudonym.go\<close>: the normalisers that make every spelling of an identifier collapse to one
  form, the salted tokenizer over them, and the pass-through tokenizer. HMAC-SHA256 is a
  parameter (\<open>hmac key message\<close>, the digest's bytes); nothing about it is assumed except, where
  a theorem says so, that the digest has its documented 32 bytes.
\<close>

section \<open>Normalisers\<close>

definition hexDigitLower :: "char \<Rightarrow> string" where
  "hexDigitLower r =
     (if 48 \<le> char_code r \<and> char_code r \<le> 57 \<or> 97 \<le> char_code r \<and> char_code r \<le> 102 then [r]
      else if 65 \<le> char_code r \<and> char_code r \<le> 70 then [char_of (char_code r + 32)]
      else [])"

definition hexOnly :: "string \<Rightarrow> string" where
  "hexOnly s = concat (map hexDigitLower s)"

definition normalizeMAC :: "string \<Rightarrow> string" where
  "normalizeMAC mac =
     (let whole = (let h = hexOnly mac in if length h \<noteq> 12 then '''' else h)
      in case indexByte mac (CHR '':'') of
           Some i \<Rightarrow> (let head = hexOnly (take i mac) in if length head = 12 then head else whole)
         | None \<Rightarrow> whole)"

definition normalizeUser :: "string \<Rightarrow> string" where
  "normalizeUser user =
     (let u = trimSpace user;
          u = (case lastIndex u [CHR 0x5C] of Some i \<Rightarrow> drop (Suc i) u | None \<Rightarrow> u);
          u = (case indexByte u (CHR ''@'') of Some i \<Rightarrow> take i u | None \<Rightarrow> u)
      in toLower u)"

definition normalizeHost :: "string \<Rightarrow> string" where
  "normalizeHost host =
     (let h = trimSpace host;
          h = trimSuffix h ''.''
      in toLower h)"

section \<open>Tokenizers\<close>

text \<open>The Go interface \<open>identityTokenizer\<close> is a record of its three methods.\<close>

record identityTokenizer =
  MACToken :: "string \<Rightarrow> string"
  UserToken :: "string \<Rightarrow> string"
  HostToken :: "string \<Rightarrow> string"

definition UpstreamPseudonymTokenizer :: identityTokenizer where
  "UpstreamPseudonymTokenizer =
     \<lparr>MACToken = (\<lambda>mac. mac), UserToken = (\<lambda>user. user), HostToken = (\<lambda>host. host)\<rparr>"

record Tokenizer =
  tok_key :: string

definition hexDigit :: "nat \<Rightarrow> char" where
  "hexDigit n = char_of (if n < 10 then 48 + n else 87 + n)"

text \<open>\<open>hex.EncodeToString\<close>.\<close>

definition hexEncode :: "byte list \<Rightarrow> string" where
  "hexEncode bs = concat (map (\<lambda>b. [hexDigit (unat b div 16), hexDigit (unat b mod 16)]) bs)"

definition token :: "(string \<Rightarrow> string \<Rightarrow> byte list) \<Rightarrow> Tokenizer \<Rightarrow> string \<Rightarrow> string" where
  "token hmac t normalized = take 32 (hexEncode (hmac (tok_key t) normalized))"

definition Tokenizer_MACToken where
  "Tokenizer_MACToken hmac t mac =
     (let n = normalizeMAC mac in if n = '''' then '''' else token hmac t n)"

definition Tokenizer_UserToken where
  "Tokenizer_UserToken hmac t user =
     (let n = normalizeUser user in if n = '''' then '''' else token hmac t n)"

definition Tokenizer_HostToken where
  "Tokenizer_HostToken hmac t host =
     (let n = normalizeHost host in if n = '''' then '''' else token hmac t n)"

definition saltedTokenizer ::
  "(string \<Rightarrow> string \<Rightarrow> byte list) \<Rightarrow> Tokenizer \<Rightarrow> identityTokenizer" where
  "saltedTokenizer hmac t =
     \<lparr>MACToken = Tokenizer_MACToken hmac t, UserToken = Tokenizer_UserToken hmac t,
      HostToken = Tokenizer_HostToken hmac t\<rparr>"

datatype key_error = ReadKeyError | EmptyKeyError

text \<open>\<open>NewTokenizer\<close>, given what \<open>os.ReadFile\<close> returned for the key path.\<close>

definition NewTokenizer :: "string option \<Rightarrow> key_error + Tokenizer" where
  "NewTokenizer file =
     (case file of
        None \<Rightarrow> Inl ReadKeyError
      | Some data \<Rightarrow>
          let key = trimSpace data
          in if length key = 0 then Inl EmptyKeyError else Inr \<lparr>tok_key = key\<rparr>)"

section \<open>Lemmas on the normalisers\<close>

lemma hexOnly_simps [simp]:
  "hexOnly [] = []"
  "hexOnly (c # s) = hexDigitLower c @ hexOnly s"
  "hexOnly (s @ t) = hexOnly s @ hexOnly t"
  by (simp_all add: hexOnly_def)

definition isLowerHex :: "char \<Rightarrow> bool" where
  "isLowerHex c \<longleftrightarrow>
     48 \<le> char_code c \<and> char_code c \<le> 57 \<or> 97 \<le> char_code c \<and> char_code c \<le> 102"

lemma hexDigitLower_hex: "c \<in> set (hexDigitLower r) \<Longrightarrow> isLowerHex c"
  by (auto simp: hexDigitLower_def isLowerHex_def split: if_splits)

lemma hexDigitLower_id: "isLowerHex c \<Longrightarrow> hexDigitLower c = [c]"
  by (auto simp: hexDigitLower_def isLowerHex_def)

lemma hexOnly_hex: "\<forall>c\<in>set (hexOnly s). isLowerHex c"
  by (induction s) (auto dest: hexDigitLower_hex)

lemma hexOnly_id: "\<forall>c\<in>set s. isLowerHex c \<Longrightarrow> hexOnly s = s"
  by (induction s) (auto simp: hexDigitLower_id)

lemma hexOnly_idem [simp]: "hexOnly (hexOnly s) = hexOnly s"
  by (rule hexOnly_id [OF hexOnly_hex])

lemma isLowerHex_not_colon: "isLowerHex c \<Longrightarrow> c \<noteq> CHR '':''"
  by (auto simp: isLowerHex_def)

lemma hexOnly_no_colon: "CHR '':'' \<notin> set (hexOnly s)"
  using hexOnly_hex isLowerHex_not_colon by blast

lemma normalizeMAC_cases: "normalizeMAC s = '''' \<or>
    (length (normalizeMAC s) = 12 \<and> (\<exists>t. normalizeMAC s = hexOnly t))"
  by (auto simp: normalizeMAC_def Let_def split: option.splits)

lemma normalizeMAC_no_colon:
  "CHR '':'' \<notin> set s \<Longrightarrow> normalizeMAC s = (if length (hexOnly s) = 12 then hexOnly s else '''')"
  by (auto simp: normalizeMAC_def Let_def dest: indexByte_None [THEN iffD2])

lemma normalizeMAC_head:
  "CHR '':'' \<notin> set u \<Longrightarrow> length (hexOnly u) = 12 \<Longrightarrow> normalizeMAC (u @ CHR '':'' # v) = hexOnly u"
  by (simp add: normalizeMAC_def indexByte_append)

lemma normalizeMAC_idem_aux: "normalizeMAC (normalizeMAC s) = normalizeMAC s"
  using normalizeMAC_cases [of s]
proof
  assume "normalizeMAC s = ''''"
  then show ?thesis by (simp add: normalizeMAC_def)
next
  assume "length (normalizeMAC s) = 12 \<and> (\<exists>t. normalizeMAC s = hexOnly t)"
  then show ?thesis using hexOnly_no_colon by (auto simp: normalizeMAC_no_colon)
qed

lemma normalizeUser_plain:
  assumes "CHR 0x5C \<notin> set u" "CHR ''@'' \<notin> set u"
  shows "normalizeUser u = toLower (trimSpace u)"
proof -
  have b: "CHR 0x5C \<notin> set (trimSpace u)" "CHR ''@'' \<notin> set (trimSpace u)"
    using assms set_trimIf unfolding trimSpace_def by blast+
  have "index v [CHR 0x5C] = None" if "CHR 0x5C \<notin> set v" for v
    using that by (induction v "[CHR 0x5C]" rule: index.induct) auto
  then have "lastIndex (trimSpace u) [CHR 0x5C] = None" using b by (simp add: lastIndex_def)
  then show ?thesis using b indexByte_None [THEN iffD2, OF b(2)]
    by (simp add: normalizeUser_def)
qed

section \<open>The contract the parsers rely on\<close>

text \<open>
  A tokenizer promises that an absent identifier stays absent: the empty text has the empty
  token, which the stores read as "no identity".
\<close>

locale identity_tokenizer =
  fixes tok :: identityTokenizer
  assumes mac_empty: "MACToken tok '''' = ''''"
    and user_empty: "UserToken tok '''' = ''''"
    and host_empty: "HostToken tok '''' = ''''"

lemma normalize_empty [simp]:
  "normalizeMAC '''' = ''''" "normalizeUser '''' = ''''" "normalizeHost '''' = ''''"
  by (simp_all add: normalizeMAC_def normalizeUser_def normalizeHost_def lastIndex_def
      trimSuffix_def hasSuffix_def)

interpretation upstream: identity_tokenizer UpstreamPseudonymTokenizer
  by unfold_locales (simp_all add: UpstreamPseudonymTokenizer_def)

interpretation salted: identity_tokenizer "saltedTokenizer hmac t" for hmac t
  by unfold_locales
    (simp_all add: saltedTokenizer_def Tokenizer_MACToken_def Tokenizer_UserToken_def
      Tokenizer_HostToken_def)

end
