(* ===== verification/DhcpLog.thy ===== *)
theory DhcpLog
  imports GoTime Pseudonym
begin

text \<open>
  \<open>dhcplog.go\<close>: one row of the Windows DHCP audit log. The lemmas give the three outcomes of
  the parser exactly: which lines are skipped, which are errors and what an event contains.
\<close>

record DhcpEvent =
  dh_EventTime :: time
  dh_EventID :: uint16
  dh_IP :: string
  dh_MACToken :: string
  dh_HostToken :: string

text \<open>\<open>"01/02/06 15:04:05"\<close>.\<close>

definition dhcpTimeLayout :: "chunk list" where
  "dhcpTimeLayout = [Month2, Lit ''/'', Day2, Lit ''/'', Year2, Lit '' '', Hour2, Lit '':'',
     Minute2, Lit '':'', Second2]"

abbreviation (input) dhcpColID :: nat where "dhcpColID \<equiv> 0"
abbreviation (input) dhcpColDate :: nat where "dhcpColDate \<equiv> 1"
abbreviation (input) dhcpColTime :: nat where "dhcpColTime \<equiv> 2"
abbreviation (input) dhcpColIP :: nat where "dhcpColIP \<equiv> 4"
abbreviation (input) dhcpColHost :: nat where "dhcpColHost \<equiv> 5"
abbreviation (input) dhcpColMAC :: nat where "dhcpColMAC \<equiv> 6"
abbreviation (input) dhcpMinCols :: nat where "dhcpMinCols \<equiv> 7"

definition parseDHCPLine :: "string \<Rightarrow> identityTokenizer \<Rightarrow> location \<Rightarrow> DhcpEvent parsed" where
  "parseDHCPLine line0 tok loc =
     (let line = trimSpace line0 in
      if line = '''' then Inr None
      else let cols = split line '','' in
        case atoi (trimSpace (cols ! dhcpColID)) of
          None \<Rightarrow> Inr None
        | Some eid \<Rightarrow>
            if eid \<noteq> 10 \<and> eid \<noteq> 11 \<and> eid \<noteq> 12 then Inr None
            else if length cols < dhcpMinCols then Inl errShortDHCPRow
            else case parseInLocation dhcpTimeLayout
                   (trimSpace (cols ! dhcpColDate) @ '' '' @ trimSpace (cols ! dhcpColTime)) loc of
                None \<Rightarrow> Inl errInvalidTimestamp
              | Some ts \<Rightarrow> Inr (Some
                  \<lparr>dh_EventTime = ts, dh_EventID = word_of_int eid,
                   dh_IP = trimSpace (cols ! dhcpColIP),
                   dh_MACToken = MACToken tok (cols ! dhcpColMAC),
                   dh_HostToken = HostToken tok (cols ! dhcpColHost)\<rparr>))"

text \<open>What the parser reads of a row before it decides.\<close>

definition dhcp_row_id :: "string \<Rightarrow> int option" where
  "dhcp_row_id line =
     (if trimSpace line = '''' then None
      else atoi (trimSpace (split (trimSpace line) '','' ! dhcpColID)))"

definition dhcp_row_time :: "string \<Rightarrow> location \<Rightarrow> time option" where
  "dhcp_row_time line loc =
     parseInLocation dhcpTimeLayout
       (trimSpace (split (trimSpace line) '','' ! dhcpColDate) @ '' ''
        @ trimSpace (split (trimSpace line) '','' ! dhcpColTime)) loc"

lemma parseDHCPLine_skip_iff:
  "parseDHCPLine line tok loc = Inr None \<longleftrightarrow>
     dhcp_row_id line \<noteq> Some 10 \<and> dhcp_row_id line \<noteq> Some 11 \<and> dhcp_row_id line \<noteq> Some 12"
  by (auto simp: parseDHCPLine_def dhcp_row_id_def Let_def split: option.splits)

lemma parseDHCPLine_error_cases:
  assumes "dhcp_row_id line \<in> {Some 10, Some 11, Some 12}"
  shows "parseDHCPLine line tok loc = Inl errShortDHCPRow
           \<longleftrightarrow> length (split (trimSpace line) '','') < dhcpMinCols"
    and "parseDHCPLine line tok loc = Inl errInvalidTimestamp
           \<longleftrightarrow> dhcpMinCols \<le> length (split (trimSpace line) '','') \<and> dhcp_row_time line loc = None"
  using assms
  by (auto simp: parseDHCPLine_def dhcp_row_id_def dhcp_row_time_def Let_def
      split: option.splits if_splits)

lemma parseDHCPLine_event:
  assumes "parseDHCPLine line tok loc = Inr (Some ev)"
  shows "dh_EventID ev \<in> {10, 11, 12}" and "dhcp_row_id line = Some (uint (dh_EventID ev))"
    and "dhcp_row_time line loc = Some (dh_EventTime ev)"
    and "\<exists>mac. dh_MACToken ev = MACToken tok mac" and "\<exists>h. dh_HostToken ev = HostToken tok h"
    and "trimSpace (dh_IP ev) = dh_IP ev"
  using assms
  by (auto simp: parseDHCPLine_def dhcp_row_id_def dhcp_row_time_def Let_def
      split: option.splits if_splits)

text \<open>A printed row reads back: only the cells the code indexes matter.\<close>

lemma parseDHCPLine_row:
  assumes cells: "cells = c0 # d # t # desc # ip # host # mac # rest"
    and sep: "\<forall>x\<in>set cells. CHR '','' \<notin> set x"
    and trim: "trimSpace (joinWith (CHR '','') cells) = joinWith (CHR '','') cells"
    and id: "atoi (trimSpace c0) = Some n" "n \<in> {10, 11, 12}"
    and ts: "parseInLocation dhcpTimeLayout (trimSpace d @ '' '' @ trimSpace t) loc = Some u"
  shows "parseDHCPLine (joinWith (CHR '','') cells) tok loc = Inr (Some
     \<lparr>dh_EventTime = u, dh_EventID = word_of_int n, dh_IP = trimSpace ip,
      dh_MACToken = MACToken tok mac, dh_HostToken = HostToken tok host\<rparr>)"
proof -
  have ne: "joinWith (CHR '','') cells \<noteq> ''''" using cells by auto
  have sp: "split (joinWith (CHR '','') cells) '','' = cells"
    using split_joinWith [OF _ sep] cells by simp
  have n: "\<not> (n \<noteq> 10 \<and> n \<noteq> 11 \<and> n \<noteq> 12)" using id(2) by auto
  show ?thesis
    unfolding parseDHCPLine_def trim Let_def sp
    using ne n id(1) ts cells by simp
qed

end
