(* ===== verification/NpsLog.thy ===== *)
theory NpsLog
  imports GoTime Pseudonym
begin

text \<open>
  \<open>npslog.go\<close>: one DTS-XML accounting record of the Windows NPS log. The decoding of a line
  by \<open>encoding/xml\<close> is a parameter \<open>xmlFields\<close>: it maps a line to an error or to the
  children of the \<open>Event\<close> element, in document order, each as its local name and its
  character data. Everything the code does with them is modelled.
\<close>

record RadiusEvent =
  ra_EventTime :: time
  ra_AcctStatus :: string
  ra_SessionID :: string
  ra_UserToken :: string
  ra_MACToken :: string
  ra_NASIP :: string

type_synonym xml_decoder = "string \<Rightarrow> string + (string \<times> string) list"

text \<open>\<open>"01/02/2006 15:04:05.000"\<close> and \<open>"01/02/2006 15:04:05"\<close>.\<close>

definition dtsTimeLayouts :: "chunk list list" where
  "dtsTimeLayouts =
     [[Month2, Lit ''/'', Day2, Lit ''/'', Year4, Lit '' '', Hour2, Lit '':'', Minute2, Lit '':'',
       Second2, Frac0 3],
      [Month2, Lit ''/'', Day2, Lit ''/'', Year4, Lit '' '', Hour2, Lit '':'', Minute2, Lit '':'',
       Second2]]"

definition acctStatusName :: "string \<Rightarrow> string" where
  "acctStatusName v =
     (let w = trimSpace v in
      if w = ''1'' \<or> w = ''Start'' then ''Start''
      else if w = ''2'' \<or> w = ''Stop'' then ''Stop''
      else if w = ''3'' \<or> w = ''Interim-Update'' \<or> w = ''InterimUpdate'' then ''Interim-Update''
      else '''')"

fun first_layout :: "chunk list list \<Rightarrow> string \<Rightarrow> location \<Rightarrow> time option" where
  "first_layout [] v loc = None"
| "first_layout (l # ls) v loc =
     (case parseInLocation l v loc of
        Some t \<Rightarrow> Some (truncateSecond t)
      | None \<Rightarrow> first_layout ls v loc)"

definition parseDTSTime :: "string \<Rightarrow> location \<Rightarrow> time option" where
  "parseDTSTime v0 loc =
     (let v = trimSpace v0 in if v = '''' then None else first_layout dtsTimeLayouts v loc)"

text \<open>The map the loop over \<open>ev.Fields\<close> builds, read at a name: the last child wins, \<open>""\<close> if none.\<close>

definition dts_field :: "(string \<times> string) list \<Rightarrow> string \<Rightarrow> string" where
  "dts_field fs name =
     (case fold (\<lambda>(n, v) m. m(n \<mapsto> trimSpace v)) fs Map.empty name of None \<Rightarrow> '''' | Some v \<Rightarrow> v)"

definition parseNPSLine ::
  "xml_decoder \<Rightarrow> string \<Rightarrow> identityTokenizer \<Rightarrow> location \<Rightarrow> RadiusEvent parsed" where
  "parseNPSLine xmlFields line0 tok loc =
     (let line = trimSpace line0 in
      if line = '''' then Inr None
      else case xmlFields line of
          Inl e \<Rightarrow> Inl (errXML e)
        | Inr fs \<Rightarrow>
            let status = acctStatusName (dts_field fs ''Acct-Status-Type'') in
            if status = '''' then Inr None
            else let ts = (case parseDTSTime (dts_field fs ''Timestamp'') loc of
                             Some t \<Rightarrow> Some t
                           | None \<Rightarrow> parseDTSTime (dts_field fs ''Event-Timestamp'') loc)
                 in case ts of
                      None \<Rightarrow> Inl errInvalidTimestamp
                    | Some t \<Rightarrow> Inr (Some
                        \<lparr>ra_EventTime = t, ra_AcctStatus = status,
                         ra_SessionID = dts_field fs ''Acct-Session-Id'',
                         ra_UserToken = UserToken tok (dts_field fs ''User-Name''),
                         ra_MACToken = MACToken tok (dts_field fs ''Calling-Station-Id''),
                         ra_NASIP = dts_field fs ''NAS-IP-Address''\<rparr>))"

section \<open>Lemmas\<close>

lemma acctStatusName_range:
  "acctStatusName v \<in> {'''', ''Start'', ''Stop'', ''Interim-Update''}"
  by (simp add: acctStatusName_def Let_def)

lemma first_layout_whole: "first_layout ls v loc = Some t \<Longrightarrow> t mod second = 0"
  by (induction ls) (auto split: option.splits simp: truncateSecond_def mod_diff_left_eq)

lemma parseDTSTime_whole: "parseDTSTime v loc = Some t \<Longrightarrow> t mod second = 0"
  by (auto simp: parseDTSTime_def Let_def split: if_splits dest: first_layout_whole)

lemma acctStatusName_tracked:
  "acctStatusName v \<noteq> '''' \<Longrightarrow> acctStatusName v \<in> {''Start'', ''Stop'', ''Interim-Update''}"
  using acctStatusName_range [of v] by auto

lemma parseNPSLine_event:
  assumes "parseNPSLine xmlFields line tok loc = Inr (Some ev)"
  shows "ra_AcctStatus ev \<in> {''Start'', ''Stop'', ''Interim-Update''}"
    and "ra_EventTime ev mod second = 0"
    and "\<exists>mac. ra_MACToken ev = MACToken tok mac"
    and "\<exists>user. ra_UserToken ev = UserToken tok user"
proof -
  obtain fs t where t: "parseDTSTime (dts_field fs ''Timestamp'') loc = Some t
      \<or> parseDTSTime (dts_field fs ''Event-Timestamp'') loc = Some t"
    and st: "acctStatusName (dts_field fs ''Acct-Status-Type'') \<noteq> ''''"
    and ev: "ev = \<lparr>ra_EventTime = t, ra_AcctStatus = acctStatusName (dts_field fs ''Acct-Status-Type''),
      ra_SessionID = dts_field fs ''Acct-Session-Id'',
      ra_UserToken = UserToken tok (dts_field fs ''User-Name''),
      ra_MACToken = MACToken tok (dts_field fs ''Calling-Station-Id''),
      ra_NASIP = dts_field fs ''NAS-IP-Address''\<rparr>"
    using assms by (auto simp: parseNPSLine_def Let_def split: sum.splits option.splits if_splits)
  show "ra_AcctStatus ev \<in> {''Start'', ''Stop'', ''Interim-Update''}"
    using acctStatusName_tracked [OF st] ev by simp
  show "ra_EventTime ev mod second = 0" using t ev parseDTSTime_whole by auto
  show "\<exists>mac. ra_MACToken ev = MACToken tok mac" "\<exists>user. ra_UserToken ev = UserToken tok user"
    using ev by auto
qed

lemma dts_field_snoc: "dts_field (fs @ [(n, v)]) m = (if n = m then trimSpace v else dts_field fs m)"
  by (simp add: dts_field_def)

end
