(* ===== verification/EventWriter.thy ===== *)
theory EventWriter
  imports ClickHouse DhcpLog NpsLog
begin

text \<open>
  \<open>chEventWriter\<close> of \<open>identity.go\<close>: two independent buffers flushed one after the other, each
  with the shared retry discipline of \<open>ClickHouse\<close>. The send functions are fields in the code
  (so that tests can stub them) and arguments here; the production ones are \<open>sendDHCP\<close> and
  \<open>sendRadius\<close>.
\<close>

record chEventWriter =
  ew_dhcp :: "DhcpEvent list"
  ew_radius :: "RadiusEvent list"
  ew_maxBuffer :: nat

definition addDHCP :: "DhcpEvent \<Rightarrow> chEventWriter \<Rightarrow> chEventWriter" where
  "addDHCP e w = w\<lparr>ew_dhcp := ew_dhcp w @ [e]\<rparr>"

definition addRadius :: "RadiusEvent \<Rightarrow> chEventWriter \<Rightarrow> chEventWriter" where
  "addRadius e w = w\<lparr>ew_radius := ew_radius w @ [e]\<rparr>"

definition ew_flush ::
  "('c, DhcpEvent) sender \<Rightarrow> ('c, RadiusEvent) sender \<Rightarrow> chEventWriter \<Rightarrow> 'c \<Rightarrow> chEventWriter \<times> 'c" where
  "ew_flush sendD sendR w c =
     (let (d, c1) = flush_buffer sendD (ew_maxBuffer w) (ew_dhcp w) c;
          (r, c2) = flush_buffer sendR (ew_maxBuffer w) (ew_radius w) c1
      in (w\<lparr>ew_dhcp := d, ew_radius := r\<rparr>, c2))"

text \<open>The rows handed to the driver, in the column order of the INSERT statements.\<close>

type_synonym dhcp_row = "time \<times> uint16 \<times> string \<times> string \<times> string"
type_synonym radius_row = "time \<times> string \<times> string \<times> string \<times> string \<times> string"

definition dhcp_columns :: "DhcpEvent \<Rightarrow> dhcp_row" where
  "dhcp_columns r = (dh_EventTime r, dh_EventID r, dh_IP r, dh_MACToken r, dh_HostToken r)"

definition radius_columns :: "RadiusEvent \<Rightarrow> radius_row" where
  "radius_columns r =
     (ra_EventTime r, ra_AcctStatus r, ra_SessionID r, ra_UserToken r, ra_MACToken r, ra_NASIP r)"

definition sendDHCP :: "('c, dhcp_row) batch_driver \<Rightarrow> ('c, DhcpEvent) sender" where
  "sendDHCP d rows c = send_batch d (map dhcp_columns rows) c"

definition sendRadius :: "('c, radius_row) batch_driver \<Rightarrow> ('c, RadiusEvent) sender" where
  "sendRadius d rows c = send_batch d (map radius_columns rows) c"

definition ew_remaining :: "chEventWriter \<Rightarrow> nat" where
  "ew_remaining w = length (ew_dhcp w) + length (ew_radius w)"

section \<open>Lemmas\<close>

lemma add_simps [simp]:
  "ew_dhcp (addDHCP e w) = ew_dhcp w @ [e]" "ew_radius (addDHCP e w) = ew_radius w"
  "ew_maxBuffer (addDHCP e w) = ew_maxBuffer w"
  "ew_radius (addRadius f w) = ew_radius w @ [f]" "ew_dhcp (addRadius f w) = ew_dhcp w"
  "ew_maxBuffer (addRadius f w) = ew_maxBuffer w"
  by (simp_all add: addDHCP_def addRadius_def)

lemma ew_flush_dhcp:
  "ew_dhcp (fst (ew_flush sd sr w c)) = fst (flush_buffer sd (ew_maxBuffer w) (ew_dhcp w) c)"
  by (simp add: ew_flush_def split: prod.splits)

lemma ew_flush_radius:
  "ew_radius (fst (ew_flush sd sr w c)) =
     fst (flush_buffer sr (ew_maxBuffer w) (ew_radius w)
            (snd (flush_buffer sd (ew_maxBuffer w) (ew_dhcp w) c)))"
  by (simp add: ew_flush_def split: prod.splits)

lemma ew_flush_max [simp]: "ew_maxBuffer (fst (ew_flush sd sr w c)) = ew_maxBuffer w"
  by (simp add: ew_flush_def split: prod.splits)

lemma ew_flush_state:
  "snd (ew_flush sd sr w c) =
     snd (flush_buffer sr (ew_maxBuffer w) (ew_radius w)
            (snd (flush_buffer sd (ew_maxBuffer w) (ew_dhcp w) c)))"
  by (simp add: ew_flush_def split: prod.splits)

text \<open>A flush leaves at most \<open>maxBuffer\<close> rows in each buffer.\<close>

lemma ew_flush_bounded:
  "length (ew_dhcp (fst (ew_flush sd sr w c))) \<le> ew_maxBuffer w
   \<and> length (ew_radius (fst (ew_flush sd sr w c))) \<le> ew_maxBuffer w"
proof -
  have "length (fst (flush_buffer s n b c')) \<le> n" for s :: "('c, 'r) sender" and n b c'
    using flush_buffer_le [of s n b c'] by (cases "flush_buffer s n b c'") (auto simp: flush_buffer_def)
  then show ?thesis
    by (simp add: ew_flush_dhcp ew_flush_radius flush_buffer_def split: prod.splits)
qed

section \<open>The writer as a machine\<close>

text \<open>
  Whatever the interleaving of the poller's adds and the flushes (the mutex makes each one
  atomic), the writer is a sequence of these steps. The state carries two ghost logs: the rows
  of each kind the server has acknowledged.
\<close>

datatype ew_op = AddDHCP DhcpEvent | AddRadius RadiusEvent | Flush

record 'c ew_state =
  ew_writer :: chEventWriter
  ew_net :: 'c
  ew_ackedD :: "DhcpEvent list"
  ew_ackedR :: "RadiusEvent list"

definition ackD :: "('c, DhcpEvent) sender \<Rightarrow> ('c \<times> DhcpEvent list \<times> RadiusEvent list, DhcpEvent) sender" where
  "ackD send rows s = (case s of (c, ld, lr) \<Rightarrow>
     let (ok, c') = send rows c in (ok, (c', if ok then ld @ rows else ld, lr)))"

definition ackR :: "('c, RadiusEvent) sender \<Rightarrow> ('c \<times> DhcpEvent list \<times> RadiusEvent list, RadiusEvent) sender" where
  "ackR send rows s = (case s of (c, ld, lr) \<Rightarrow>
     let (ok, c') = send rows c in (ok, (c', ld, if ok then lr @ rows else lr)))"

fun ew_step ::
  "('c, DhcpEvent) sender \<Rightarrow> ('c, RadiusEvent) sender \<Rightarrow> ew_op \<Rightarrow> 'c ew_state \<Rightarrow> 'c ew_state" where
  "ew_step sd sr (AddDHCP e) s = s\<lparr>ew_writer := addDHCP e (ew_writer s)\<rparr>"
| "ew_step sd sr (AddRadius e) s = s\<lparr>ew_writer := addRadius e (ew_writer s)\<rparr>"
| "ew_step sd sr Flush s =
     (case ew_flush (ackD sd) (ackR sr) (ew_writer s) (ew_net s, ew_ackedD s, ew_ackedR s) of
        (w, c, ld, lr) \<Rightarrow> \<lparr>ew_writer = w, ew_net = c, ew_ackedD = ld, ew_ackedR = lr\<rparr>)"

primrec rowsD :: "ew_op \<Rightarrow> DhcpEvent list" where
  "rowsD (AddDHCP e) = [e]" | "rowsD (AddRadius e) = []" | "rowsD Flush = []"

primrec rowsR :: "ew_op \<Rightarrow> RadiusEvent list" where
  "rowsR (AddDHCP e) = []" | "rowsR (AddRadius e) = [e]" | "rowsR Flush = []"

lemma ew_step_cases_D:
  fixes s :: "'c ew_state" and sd sr op
  defines "b \<equiv> ew_dhcp (ew_writer s)" and "s' \<equiv> ew_step sd sr op s"
  shows "(ew_dhcp (ew_writer s') = b @ rowsD op \<and> ew_ackedD s' = ew_ackedD s)
    \<or> (rowsD op = [] \<and> ew_dhcp (ew_writer s') = [] \<and> ew_ackedD s' = ew_ackedD s @ b)
    \<or> (rowsD op = [] \<and> ew_dhcp (ew_writer s') = capTail b (ew_maxBuffer (ew_writer s))
         \<and> ew_ackedD s' = ew_ackedD s)"
  unfolding b_def s'_def
  by (cases op) (auto simp: ew_flush_def flush_buffer_def ackD_def ackR_def split: prod.splits if_splits)

lemma ew_step_cases_R:
  fixes s :: "'c ew_state" and sd sr op
  defines "b \<equiv> ew_radius (ew_writer s)" and "s' \<equiv> ew_step sd sr op s"
  shows "(ew_radius (ew_writer s') = b @ rowsR op \<and> ew_ackedR s' = ew_ackedR s)
    \<or> (rowsR op = [] \<and> ew_radius (ew_writer s') = [] \<and> ew_ackedR s' = ew_ackedR s @ b)
    \<or> (rowsR op = [] \<and> ew_radius (ew_writer s') = capTail b (ew_maxBuffer (ew_writer s))
         \<and> ew_ackedR s' = ew_ackedR s)"
  unfolding b_def s'_def
  by (cases op) (auto simp: ew_flush_def flush_buffer_def ackD_def ackR_def split: prod.splits if_splits)

lemma ew_step_max [simp]: "ew_maxBuffer (ew_writer (ew_step sd sr op s)) = ew_maxBuffer (ew_writer s)"
  by (cases op) (auto simp: ew_flush_def split: prod.splits)

interpretation ewD: retry_buffer "ew_step sd sr" "\<lambda>s. ew_dhcp (ew_writer s)" ew_ackedD rowsD
  "\<lambda>s. ew_maxBuffer (ew_writer s)" for sd sr
  by unfold_locales (use ew_step_cases_D in \<open>blast | simp\<close>)+

interpretation ewR: retry_buffer "ew_step sd sr" "\<lambda>s. ew_radius (ew_writer s)" ew_ackedR rowsR
  "\<lambda>s. ew_maxBuffer (ew_writer s)" for sd sr
  by unfold_locales (use ew_step_cases_R in \<open>blast | simp\<close>)+

end
