(* ===== verification/FilePoller.thy ===== *)
theory FilePoller
  imports GoStrings Prelude
begin

text \<open>
  \<open>filepoller.go\<close>: the incremental reader shared by the identity and the DNS pollers. The file
  system is an argument: what \<open>ReadDir\<close> lists, what \<open>Stat\<close> reports of a file's size and what
  the file holds when it is read, which may be later and longer. The handler and the
  truncation callback act on an abstract state \<open>'h\<close>, the caller's.

  The lemmas show that under append-only growth every complete line is handed over exactly
  once and in order, whatever the scan times, and say when a file is read to its end.
\<close>

abbreviation newline :: char where "newline \<equiv> CHR 0x0A"
abbreviation carriage :: char where "carriage \<equiv> CHR 0x0D"

definition maxScanReadBytes :: int where
  "maxScanReadBytes = 8 * 2 ^ 20"

text \<open>\<open>io.LimitReader\<close>: at most \<open>n\<close> bytes.\<close>

fun limitRead :: "int \<Rightarrow> string \<Rightarrow> string" where
  "limitRead n [] = []"
| "limitRead n (c # cs) = (if n \<le> 0 then [] else c # limitRead (n - 1) cs)"

text \<open>
  One directory entry at one scan. \<open>fe_path\<close> is the joined path; \<open>fe_size\<close> is what \<open>Stat\<close>
  gives (\<open>None\<close>: an error), \<open>fe_content\<close> what opening and reading the file gives.
\<close>

record file_entry =
  fe_path :: string
  fe_isDir :: bool
  fe_size :: "nat option"
  fe_content :: "string option"

type_synonym offsets = "string \<rightharpoonup> nat"

definition offset_of :: "offsets \<Rightarrow> string \<Rightarrow> nat" where
  "offset_of offs path = (case offs path of None \<Rightarrow> 0 | Some n \<Rightarrow> n)"

definition poll_line :: "string \<Rightarrow> string" where
  "poll_line raw = trimRightIf (\<lambda>c. c = carriage) raw"

text \<open>The loop over the split data: trim carriage returns, skip empty lines, hand over the rest.\<close>

fun feed_lines :: "(string \<Rightarrow> string \<Rightarrow> 'h \<Rightarrow> 'h) \<Rightarrow> string \<Rightarrow> string list \<Rightarrow> 'h \<Rightarrow> 'h" where
  "feed_lines handle path [] h = h"
| "feed_lines handle path (raw # raws) h =
     (let line = poll_line raw
      in feed_lines handle path raws (if line = '''' then h else handle path line h))"

definition readAppendedFile ::
  "(string \<Rightarrow> string \<Rightarrow> 'h \<Rightarrow> 'h) \<Rightarrow> (string \<Rightarrow> 'h \<Rightarrow> 'h) \<Rightarrow> file_entry \<Rightarrow> offsets \<times> 'h \<Rightarrow> offsets \<times> 'h"
  where
  "readAppendedFile handle onTruncate f s =
     (let (offs, h) = s; path = fe_path f in
      case fe_size f of
        None \<Rightarrow> (offs, h)
      | Some sz \<Rightarrow>
          let stored = offset_of offs path;
              (off, h) = (if sz < stored then (0, onTruncate path h) else (stored, h))
          in if sz = off then (offs, h)
             else case fe_content f of
                 None \<Rightarrow> (offs, h)
               | Some content \<Rightarrow>
                   let data = limitRead maxScanReadBytes (drop off content)
                   in case lastIndexByte data newline of
                        None \<Rightarrow> (offs, h)
                      | Some nl \<Rightarrow>
                          (offs(path \<mapsto> off + (nl + 1)),
                           feed_lines handle path (split (take (nl + 1) data) [newline]) h))"

text \<open>\<open>None\<close> for the listing is the error of \<open>ReadDir\<close>, which is logged and skipped.\<close>

definition scanAppendedDir ::
  "(string \<Rightarrow> string \<Rightarrow> 'h \<Rightarrow> 'h) \<Rightarrow> (string \<Rightarrow> 'h \<Rightarrow> 'h) \<Rightarrow> string \<Rightarrow> file_entry list option
     \<Rightarrow> offsets \<times> 'h \<Rightarrow> offsets \<times> 'h" where
  "scanAppendedDir handle onTruncate dir listing s =
     (if dir = '''' then s
      else case listing of
          None \<Rightarrow> s
        | Some entries \<Rightarrow>
            fold (\<lambda>f s. if fe_isDir f then s else readAppendedFile handle onTruncate f s) entries s)"

section \<open>Lines\<close>

text \<open>The lines the handler sees in a piece of data that ends in a newline (or is empty).\<close>

definition lines_of :: "string \<Rightarrow> string list" where
  "lines_of s = filter (\<lambda>l. l \<noteq> '''') (map poll_line (split s [newline]))"

lemma feed_lines_fold:
  "feed_lines handle path raws h = fold (handle path) (filter (\<lambda>l. l \<noteq> '''') (map poll_line raws)) h"
  by (induction raws arbitrary: h) (simp_all add: Let_def)

lemma feed_lines_of: "feed_lines handle path (split s [newline]) h = fold (handle path) (lines_of s) h"
  by (simp add: feed_lines_fold lines_of_def)

lemma poll_line_Nil [simp]: "poll_line [] = []"
  by (simp add: poll_line_def trimRightIf_def)

lemma lines_of_Nil [simp]: "lines_of [] = []"
  by (simp add: lines_of_def split_no_sep)

lemma lines_of_line: "newline \<notin> set u \<Longrightarrow>
    lines_of (u @ newline # v) = (if poll_line u = '''' then [] else [poll_line u]) @ lines_of v"
  by (simp add: lines_of_def split_append_sep)

definition ends_line :: "string \<Rightarrow> bool" where
  "ends_line s \<longleftrightarrow> s = [] \<or> last s = newline"

lemma lines_of_append: "ends_line u \<Longrightarrow> lines_of (u @ v) = lines_of u @ lines_of v"
proof (induction "length u" arbitrary: u rule: less_induct)
  case less
  show ?case
  proof (cases "u = []")
    case True
    then show ?thesis by simp
  next
    case False
    then have "newline \<in> set u" using less.prems last_in_set by (fastforce simp: ends_line_def)
    then obtain a b where u: "u = a @ newline # b" "newline \<notin> set a"
      by (meson split_list_first)
    have "ends_line b" using less.prems u(1) by (cases "b = []") (auto simp: ends_line_def)
    then have "lines_of (b @ v) = lines_of b @ lines_of v" using less.hyps [of b] u(1) by simp
    then show ?thesis using u by (simp add: lines_of_line)
  qed
qed

lemma ends_line_append: "ends_line u \<Longrightarrow> ends_line v \<Longrightarrow> ends_line (u @ v)"
  by (auto simp: ends_line_def last_append)

lemma limitRead_take: "limitRead n s = take (nat n) s"
  by (induction n s rule: limitRead.induct) (auto simp: take_Cons' nat_diff_distrib)

lemma limitRead_all: "int (length s) \<le> n \<Longrightarrow> limitRead n s = s"
  by (simp add: limitRead_take)

section \<open>What a scan feeds\<close>

text \<open>
  The calls a scan makes, as data: the poller is independent of its handler, so running a
  handler over the recorded calls is running the scan with that handler.
\<close>

datatype feed = FLine string string | FTruncated string

primrec apply_feed :: "(string \<Rightarrow> string \<Rightarrow> 'h \<Rightarrow> 'h) \<Rightarrow> (string \<Rightarrow> 'h \<Rightarrow> 'h) \<Rightarrow> feed \<Rightarrow> 'h \<Rightarrow> 'h" where
  "apply_feed handle onTruncate (FLine path line) h = handle path line h"
| "apply_feed handle onTruncate (FTruncated path) h = onTruncate path h"

primrec feed_path :: "feed \<Rightarrow> string" where
  "feed_path (FLine path line) = path"
| "feed_path (FTruncated path) = path"

abbreviation log_line :: "string \<Rightarrow> string \<Rightarrow> feed list \<Rightarrow> feed list" where
  "log_line path line h \<equiv> h @ [FLine path line]"

abbreviation log_trunc :: "string \<Rightarrow> feed list \<Rightarrow> feed list" where
  "log_trunc path h \<equiv> h @ [FTruncated path]"

definition scan_log :: "string \<Rightarrow> file_entry list option \<Rightarrow> offsets \<Rightarrow> offsets \<times> feed list" where
  "scan_log dir listing offs = scanAppendedDir log_line log_trunc dir listing (offs, [])"

lemma fold_log_line: "fold (log_line path) ls log = log @ map (FLine path) ls"
  by (induction ls arbitrary: log) simp_all

lemma fold_apply_feed_lines: "fold (apply_feed hl tr) (map (FLine path) ls) h = fold (hl path) ls h"
  by (induction ls arbitrary: h) simp_all

lemma readAppendedFile_log:
  "readAppendedFile hl tr f (offs, fold (apply_feed hl tr) log h) =
     (fst (readAppendedFile log_line log_trunc f (offs, log)),
      fold (apply_feed hl tr) (snd (readAppendedFile log_line log_trunc f (offs, log))) h)"
  by (auto simp: readAppendedFile_def Let_def feed_lines_of fold_log_line fold_apply_feed_lines
      split: option.splits)

lemma scan_entries_log:
  "fold (\<lambda>f s. if fe_isDir f then s else readAppendedFile hl tr f s) entries
     (offs, fold (apply_feed hl tr) log h) =
   (let (offs', log') = fold (\<lambda>f s. if fe_isDir f then s else readAppendedFile log_line log_trunc f s)
                          entries (offs, log)
    in (offs', fold (apply_feed hl tr) log' h))"
proof (induction entries arbitrary: offs log)
  case Nil
  show ?case by simp
next
  case (Cons f entries)
  obtain offs1 log1 where "readAppendedFile log_line log_trunc f (offs, log) = (offs1, log1)"
    by fastforce
  then show ?case
    using Cons.IH [of offs log] Cons.IH [of offs1 log1] by (simp add: readAppendedFile_log)
qed

lemma scanAppendedDir_log:
  "scanAppendedDir hl tr dir listing (offs, h) =
     (fst (scan_log dir listing offs), fold (apply_feed hl tr) (snd (scan_log dir listing offs)) h)"
  using scan_entries_log [of hl tr _ offs "[]" h]
  by (auto simp: scan_log_def scanAppendedDir_def split: option.splits prod.splits)

section \<open>One file over several scans\<close>

text \<open>
  \<open>consumed limit off content\<close>: the new offset of one scan of a file that was not truncated,
  as a function of what it holds.
\<close>

definition consumed :: "nat \<Rightarrow> string \<Rightarrow> nat" where
  "consumed off content =
     (case lastIndexByte (limitRead maxScanReadBytes (drop off content)) newline of
        None \<Rightarrow> off | Some nl \<Rightarrow> off + (nl + 1))"

lemma lastIndexByte_last:
  assumes "lastIndexByte s c = Some i"
  shows "i < length s" "s ! i = c" "c \<notin> set (drop (Suc i) s)"
  using lastIndexByte_Some [OF assms] by simp_all

lemma consumed_bounds: "off \<le> length content \<Longrightarrow> off \<le> consumed off content \<and> consumed off content \<le> length content"
  by (auto simp: consumed_def limitRead_take split: option.splits dest!: lastIndexByte_last(1))

lemma take_consumed:
  "take (consumed off content) content =
     take off content @ (case lastIndexByte (limitRead maxScanReadBytes (drop off content)) newline of
        None \<Rightarrow> [] | Some nl \<Rightarrow> take (nl + 1) (limitRead maxScanReadBytes (drop off content)))"
proof (cases "lastIndexByte (limitRead maxScanReadBytes (drop off content)) newline")
  case None
  then show ?thesis by (simp add: consumed_def)
next
  case (Some nl)
  then have "nl + 1 \<le> nat maxScanReadBytes"
    by (auto simp: limitRead_take dest!: lastIndexByte_last(1))
  then have "take (nl + 1) (limitRead maxScanReadBytes (drop off content)) = take (nl + 1) (drop off content)"
    by (simp add: limitRead_take min_def)
  moreover have "take (consumed off content) content = take off content @ take (nl + 1) (drop off content)"
    using Some by (simp only: consumed_def option.case take_add)
  ultimately show ?thesis using Some by simp
qed

lemma take_nl_ends: "lastIndexByte s newline = Some nl \<Longrightarrow> ends_line (take (nl + 1) s)"
  using lastIndexByte_last [of s newline nl] by (simp add: ends_line_def take_Suc_conv_app_nth)

lemma ends_line_consumed:
  "ends_line (take off content) \<Longrightarrow> ends_line (take (consumed off content) content)"
  unfolding take_consumed
  by (cases "lastIndexByte (limitRead maxScanReadBytes (drop off content)) newline")
    (simp_all add: ends_line_append take_nl_ends del: add_Suc_right One_nat_def)

text \<open>A scan of a file that grew: the handler sees exactly the lines between the two offsets.\<close>

lemma readAppendedFile_grow:
  assumes size: "fe_size f = Some n" and content: "fe_content f = Some s"
    and off: "off = offset_of offs (fe_path f)" "off \<le> n" "n \<le> length s"
    and e: "ends_line (take off s)"
  shows "\<exists>offs' more. readAppendedFile handle onTruncate f (offs, h)
        = (offs', fold (handle (fe_path f)) more h)
     \<and> lines_of (take (offset_of offs' (fe_path f)) s) = lines_of (take off s) @ more
     \<and> offset_of offs' (fe_path f) = (if n = off then off else consumed off s)
     \<and> (\<forall>q. q \<noteq> fe_path f \<longrightarrow> offs' q = offs q)"
proof (cases "n = off")
  case True
  then show ?thesis using size off
    by (intro exI [of _ offs] exI [of _ "[]"]) (simp add: readAppendedFile_def Let_def)
next
  case False
  let ?data = "limitRead maxScanReadBytes (drop off s)"
  show ?thesis
  proof (cases "lastIndexByte ?data newline")
    case None
    then show ?thesis using size content off False
      by (intro exI [of _ offs] exI [of _ "[]"]) (simp add: readAppendedFile_def consumed_def Let_def)
  next
    case (Some nl)
    let ?offs = "offs(fe_path f \<mapsto> off + (nl + 1))"
    have c: "consumed off s = off + (nl + 1)" using Some by (simp add: consumed_def)
    have "readAppendedFile handle onTruncate f (offs, h)
        = (?offs, fold (handle (fe_path f)) (lines_of (take (nl + 1) ?data)) h)"
      using size content off False Some
      by (simp add: readAppendedFile_def Let_def feed_lines_of)
    moreover have "lines_of (take (consumed off s) s)
        = lines_of (take off s) @ lines_of (take (nl + 1) ?data)"
      unfolding take_consumed using Some by (simp add: lines_of_append [OF e])
    ultimately show ?thesis using c False
      by (intro exI [of _ ?offs] exI [of _ "lines_of (take (nl + 1) ?data)"]) (simp add: offset_of_def)
  qed
qed

section \<open>Append-only growth\<close>

text \<open>
  A log file as the poller meets it: at each scan the size \<open>Stat\<close> reported and the content at
  the moment of the read. The file only grows, and nothing is written before it is seen.
\<close>

type_synonym snapshot = "nat \<times> string"

definition snap_entry :: "string \<Rightarrow> snapshot \<Rightarrow> file_entry" where
  "snap_entry path sn =
     \<lparr>fe_path = path, fe_isDir = False, fe_size = Some (fst sn), fe_content = Some (snd sn)\<rparr>"

fun grows :: "string \<Rightarrow> snapshot list \<Rightarrow> bool" where
  "grows prev [] = True"
| "grows prev ((n, c) # sns) =
     (hasPrefix c prev \<and> length prev \<le> n \<and> n \<le> length c \<and> grows c sns)"

definition last_content :: "snapshot list \<Rightarrow> string" where
  "last_content sns = (if sns = [] then '''' else snd (last sns))"

definition poll_run where
  "poll_run handle onTruncate path sns s =
     fold (\<lambda>sn. readAppendedFile handle onTruncate (snap_entry path sn)) sns s"

lemma poll_run_invariant:
  assumes "grows prev sns" and "offset_of offs path \<le> length prev"
    and "ends_line (take (offset_of offs path) prev)"
    and "h = fold (handle path) (lines_of (take (offset_of offs path) prev)) h0"
    and "c = (if sns = [] then prev else last_content sns)"
    and "poll_run handle onTruncate path sns (offs, h) = (offs', h')"
  shows "offset_of offs' path \<le> length c \<and> ends_line (take (offset_of offs' path) c)
    \<and> h' = fold (handle path) (lines_of (take (offset_of offs' path) c)) h0"
  using assms
proof (induction sns arbitrary: prev offs h)
  case Nil
  then show ?case by (auto simp: poll_run_def)
next
  case (Cons sn sns)
  obtain n d where sn: "sn = (n, d)" by (cases sn)
  let ?off = "offset_of offs path" and ?f = "snap_entry path sn"
  have pd: "prefix prev d" and nd: "length prev \<le> n" "n \<le> length d" and g: "grows d sns"
    using Cons.prems(1) sn by (simp_all add: hasPrefix_iff)
  have td: "take ?off d = take ?off prev" using pd Cons.prems(2) by (auto simp: prefix_def)
  have e: "ends_line (take ?off d)" and on: "?off \<le> n" "?off \<le> length d"
    using Cons.prems(2,3) td nd by simp_all
  obtain offs1 more where r: "readAppendedFile handle onTruncate ?f (offs, h)
        = (offs1, fold (handle path) more h)"
    and l: "lines_of (take (offset_of offs1 path) d) = lines_of (take ?off d) @ more"
    and o: "offset_of offs1 path = (if n = ?off then ?off else consumed ?off d)"
    using readAppendedFile_grow [of ?f n d ?off offs handle onTruncate h] e on(1) nd(2) sn
    by (auto simp: snap_entry_def)
  have "offset_of offs1 path \<le> length d" "ends_line (take (offset_of offs1 path) d)"
    using o consumed_bounds [OF on(2)] on(2) e ends_line_consumed [OF e] by auto
  moreover have "fold (handle path) more h
      = fold (handle path) (lines_of (take (offset_of offs1 path) d)) h0"
    using Cons.prems(4) l td by simp
  moreover have "c = (if sns = [] then d else last_content sns)"
    using Cons.prems(5) sn by (simp add: last_content_def)
  moreover have "poll_run handle onTruncate path sns (offs1, fold (handle path) more h) = (offs', h')"
    using Cons.prems(6) r by (simp add: poll_run_def)
  ultimately show ?case by (intro Cons.IH [OF g])
qed

text \<open>Where the last complete line ends.\<close>

definition complete_upto :: "string \<Rightarrow> nat" where
  "complete_upto s = (case lastIndexByte s newline of None \<Rightarrow> 0 | Some i \<Rightarrow> i + 1)"

lemma complete_upto_unique:
  assumes "k \<le> length s" "ends_line (take k s)" "newline \<notin> set (drop k s)"
  shows "complete_upto s = k"
proof (cases "k = 0")
  case True
  then show ?thesis using assms(3) indexByte_None [of "rev s" newline]
    by (simp add: complete_upto_def lastIndexByte_def)
next
  case False
  then obtain a where "take k s = a @ [newline]"
    using assms(1,2) by (cases "take k s" rule: rev_cases) (auto simp: ends_line_def)
  then have "s = a @ newline # drop k s" "length a + 1 = k"
    using append_take_drop_id [of k s] assms(1) False
    by (simp, metis length_append_singleton length_take min.absorb2 Suc_eq_plus1)
  then show ?thesis using lastIndexByte_append [OF assms(3), of a]
    by (metis (no_types, lifting) complete_upto_def option.simps(5))
qed

lemma consumed_complete:
  assumes "off \<le> length s" "ends_line (take off s)"
    and "int (length s) - int off \<le> maxScanReadBytes"
  shows "consumed off s = complete_upto s"
proof -
  have all: "limitRead maxScanReadBytes (drop off s) = drop off s"
    using assms(1,3) by (intro limitRead_all) simp
  have b: "consumed off s \<le> length s" using consumed_bounds [OF assms(1)] by simp
  have "newline \<notin> set (drop (consumed off s) s)"
  proof (cases "lastIndexByte (drop off s) newline")
    case None
    then show ?thesis using indexByte_None [of "rev (drop off s)" newline]
      by (simp add: consumed_def all lastIndexByte_def)
  next
    case (Some i)
    then show ?thesis using lastIndexByte_last(3) [OF Some]
      by (simp add: consumed_def all add.commute)
  qed
  with b show ?thesis using ends_line_consumed [OF assms(2)] complete_upto_unique by metis
qed

section \<open>Properties\<close>

text \<open>C11. A log file that only grows is tailed without loss, duplication or reordering: after
  any number of scans from a fresh start the handler has been given exactly the complete lines
  of the consumed prefix of the file, in order, each once; a partial last line is held back.\<close>

theorem poller_exactly_once:
  assumes "grows '''' sns"
    and "poll_run handle onTruncate path sns (Map.empty, h) = (offs, h')"
  shows "h' = fold (handle path) (lines_of (take (offset_of offs path) (last_content sns))) h
    \<and> ends_line (take (offset_of offs path) (last_content sns))
    \<and> offset_of offs path \<le> length (last_content sns)"
proof -
  have "last_content sns = (if sns = [] then '''' else last_content sns)"
    by (simp add: last_content_def)
  then show ?thesis
    using poll_run_invariant [OF assms(1) _ _ _ _ assms(2), of h "last_content sns"]
    by (simp add: offset_of_def [of Map.empty] ends_line_def [of "[]"])
qed

theorem poller_exactly_once_witness:
  "let c = [CHR ''a'', newline, CHR ''b'', CHR ''b'', newline, CHR ''c''];
       r = poll_run (\<lambda>_ l h. h @ [l]) (\<lambda>_ h. h) ''f'' [(1, ''a''), (4, c)] (Map.empty, [])
   in snd r = fold (\<lambda>l h. h @ [l]) (lines_of (take (offset_of (fst r) ''f'') c)) []
      \<and> snd r = [''a'', ''bb'']"
proof -
  let ?c = "[CHR ''a'', newline, CHR ''b'', CHR ''b'', newline, CHR ''c'']"
  let ?r = "poll_run (\<lambda>_ l h. h @ [l]) (\<lambda>_ h. h) ''f'' [(1, ''a''), (4, ?c)] (Map.empty, [])"
  have "grows '''' [(1, ''a''), (4, ?c)]" by simp
  moreover have "snd ?r = [''a'', ''bb'']" by code_simp
  ultimately show ?thesis
    using poller_exactly_once [OF _ prod.collapse [symmetric],
        of "[(1, ''a''), (4, ?c)]" "\<lambda>_ l h. h @ [l]" "\<lambda>_ h. h" "''f''" "[]"]
    by (simp add: last_content_def Let_def)
qed

text \<open>C23. The tailer catches up: when the unread part of a file fits in one bounded read, one
  scan hands over everything up to the last newline of the file.\<close>

theorem poller_catches_up:
  assumes "off = offset_of offs path" "off \<le> length s" "ends_line (take off s)"
    and "int (length s) - int off \<le> maxScanReadBytes"
    and "readAppendedFile handle onTruncate (snap_entry path (length s, s)) (offs, h) = (offs', h')"
  shows "offset_of offs' path = complete_upto s
    \<and> h' = fold (handle path) (drop (length (lines_of (take off s))) (lines_of (take (complete_upto s) s))) h"
proof -
  obtain offs1 more where
    r: "readAppendedFile handle onTruncate (snap_entry path (length s, s)) (offs, h)
        = (offs1, fold (handle path) more h)"
    and l: "lines_of (take (offset_of offs1 path) s) = lines_of (take off s) @ more"
    and o: "offset_of offs1 path = (if length s = off then off else consumed off s)"
    using readAppendedFile_grow [of "snap_entry path (length s, s)" "length s" s off offs handle onTruncate h]
      assms(1,2,3) by (auto simp: snap_entry_def)
  have "length s = off \<Longrightarrow> complete_upto s = off"
    using assms(2,3) by (intro complete_upto_unique) simp_all
  then have "offset_of offs1 path = complete_upto s"
    using o consumed_complete [OF assms(2,3,4)] by simp
  then show ?thesis using r l assms(5) by simp
qed

theorem poller_catches_up_witness:
  "let s = [CHR ''a'', newline, CHR ''b''];
       r = readAppendedFile (\<lambda>_ l h. h @ [l]) (\<lambda>_ h. h) (snap_entry ''f'' (length s, s)) (Map.empty, [])
   in offset_of (fst r) ''f'' = complete_upto s \<and> snd r = [''a'']"
proof -
  let ?s = "[CHR ''a'', newline, CHR ''b'']"
  let ?r = "readAppendedFile (\<lambda>_ l h. h @ [l]) (\<lambda>_ h. h) (snap_entry ''f'' (length ?s, ?s)) (Map.empty, [])"
  have "int (length ?s) - int 0 \<le> maxScanReadBytes" by (simp add: maxScanReadBytes_def)
  moreover have "0 = offset_of Map.empty ''f''" by (simp add: offset_of_def)
  ultimately have "offset_of (fst ?r) ''f'' = complete_upto ?s"
    using poller_catches_up [OF _ _ _ _ prod.collapse [symmetric], of 0 Map.empty "''f''" ?s
        "\<lambda>_ l h. h @ [l]" "\<lambda>_ h. h" "[]"]
    by (simp add: ends_line_def del: list.size)
  moreover have "snd ?r = [''a'']" by code_simp
  ultimately show ?thesis unfolding Let_def by (rule conjI)
qed

text \<open>A line longer than the read bound stalls its file: with no newline in the first
  \<open>maxScanReadBytes\<close> unread bytes a scan changes nothing, so neither does any later one.\<close>

theorem poller_stalls_on_long_line:
  assumes "newline \<notin> set (take (nat maxScanReadBytes) (drop (offset_of offs path) c))"
    and "offset_of offs path \<le> n"
  shows "readAppendedFile handle onTruncate (snap_entry path (n, c)) (offs, h) = (offs, h)"
proof -
  have "lastIndexByte (limitRead maxScanReadBytes (drop (offset_of offs path) c)) newline = None"
    using assms(1) indexByte_None [of "rev (take (nat maxScanReadBytes) (drop (offset_of offs path) c))" newline]
    by (simp add: limitRead_take lastIndexByte_def)
  then show ?thesis using assms(2)
    by (simp add: readAppendedFile_def snap_entry_def Let_def)
qed

theorem poller_stalls_on_long_line_witness:
  "readAppendedFile (\<lambda>_ l h. h @ [l]) (\<lambda>_ h. h)
     (snap_entry ''f'' (10 ^ 7, replicate (10 ^ 7) (CHR ''x'') @ [newline])) (Map.empty, [])
   = (Map.empty, [])"
  by (rule poller_stalls_on_long_line)
    (auto simp: offset_of_def maxScanReadBytes_def dest: in_set_takeD)

text \<open>A truncation seen while the file is empty is forgotten: the stored offset survives,
  so once the new content has grown past it the lines before it are never handed over.\<close>

theorem poller_truncation_forgotten:
  "let r = poll_run (\<lambda>_ l h. h @ [l]) (\<lambda>_ h. h) ''f''
     [(4, [CHR ''a'', newline, CHR ''b'', newline]), (0, ''''),
      (6, [CHR ''c'', newline, CHR ''d'', newline, CHR ''e'', newline])] (Map.empty, [])
   in offset_of (fst r) ''f'' = 6 \<and> snd r = [''a'', ''b'', ''e'']"
  by code_simp

end
