(* ===== verification/Identity.thy ===== *)
theory Identity
  imports SlotMachine EventWriter FilePoller
begin

text \<open>
  \<open>identity.go\<close>: the store that says who is behind an address. Two maps (\<open>ip \<rightarrow> device\<close> from
  the DHCP log, \<open>device \<rightarrow> session\<close> from the RADIUS log), the handler of each event stream, the
  two-hop \<open>Lookup\<close>, the sweep, and the poller's scan. Both maps are shown to run the slot
  machine of \<open>SlotMachine\<close>; the properties are read off its interface.

  The mutex makes each operation atomic; the clock \<open>s.now()\<close> is an argument of the operations
  that read it. Prometheus counters are kept where they tell two branches apart.
\<close>

section \<open>State\<close>

record ipBinding =
  ib_macToken :: string
  ib_eventTime :: time
  ib_deadline :: time
  ib_closed :: bool

record macBinding =
  mb_userToken :: string
  mb_sessionID :: string
  mb_eventTime :: time
  mb_deadline :: time
  mb_closed :: bool

record IdentityStore =
  ipState :: "string \<rightharpoonup> ipBinding"
  macState :: "string \<rightharpoonup> macBinding"
  maxLease :: duration
  maxSession :: duration
  is_tok :: identityTokenizer
  npsDir :: string
  dhcpDir :: string
  npsLoc :: location
  dhcpLoc :: location
  is_offsets :: offsets
  is_ch :: "chEventWriter option"
  identityParseErrors :: "string \<Rightarrow> nat"
  identityEventsParsed :: "string \<Rightarrow> nat"

text \<open>\<open>conn\<close> says whether a ClickHouse connection was passed; \<open>None\<close> for a location is \<open>nil\<close>.\<close>

definition NewIdentityStore ::
  "identityTokenizer \<Rightarrow> string \<Rightarrow> string \<Rightarrow> location option \<Rightarrow> location option \<Rightarrow> duration \<Rightarrow> duration
     \<Rightarrow> bool \<Rightarrow> IdentityStore" where
  "NewIdentityStore tok npsD dhcpD npsL dhcpL lease session conn =
     \<lparr>ipState = Map.empty, macState = Map.empty, maxLease = lease, maxSession = session,
      is_tok = tok, npsDir = npsD, dhcpDir = dhcpD,
      npsLoc = (case npsL of None \<Rightarrow> UTC | Some l \<Rightarrow> l),
      dhcpLoc = (case dhcpL of None \<Rightarrow> UTC | Some l \<Rightarrow> l),
      is_offsets = Map.empty,
      is_ch = (if conn then Some \<lparr>ew_dhcp = [], ew_radius = [], ew_maxBuffer = 100000\<rparr> else None),
      identityParseErrors = (\<lambda>_. 0), identityEventsParsed = (\<lambda>_. 0)\<rparr>"

section \<open>Operations\<close>

definition Lookup :: "time \<Rightarrow> IdentityStore \<Rightarrow> string \<Rightarrow> string \<times> string" where
  "Lookup now s ip =
     (case ipState s ip of
        None \<Rightarrow> ('''', '''')
      | Some ib \<Rightarrow>
          if ib_closed ib \<or> ib_deadline ib < now then ('''', '''')
          else case macState s (ib_macToken ib) of
              None \<Rightarrow> (ib_macToken ib, '''')
            | Some mb \<Rightarrow>
                if mb_closed mb \<or> mb_deadline mb < now then (ib_macToken ib, '''')
                else (ib_macToken ib, mb_userToken mb))"

definition applyDHCP :: "DhcpEvent \<Rightarrow> IdentityStore \<Rightarrow> IdentityStore" where
  "applyDHCP e s =
     (if dh_MACToken e = '''' then s
      else
        let bind = (\<lambda>c. \<lparr>ib_macToken = dh_MACToken e, ib_eventTime = dh_EventTime e,
                         ib_deadline = dh_EventTime e + maxLease s, ib_closed = c\<rparr>);
            put = (\<lambda>c. s\<lparr>ipState := (ipState s)(dh_IP e \<mapsto> bind c)\<rparr>)
        in if dh_EventID e = 10 \<or> dh_EventID e = 11 then
             (case ipState s (dh_IP e) of
                None \<Rightarrow> put False
              | Some b \<Rightarrow>
                  if ib_closed b \<and> ib_macToken b = dh_MACToken e
                    then if \<not> ib_eventTime b < dh_EventTime e then s else put False
                  else if dh_EventTime e < ib_eventTime b then s else put False)
           else if dh_EventID e = 12 then
             (case ipState s (dh_IP e) of
                None \<Rightarrow> s
              | Some b \<Rightarrow>
                  if ib_macToken b = dh_MACToken e \<and> \<not> dh_EventTime e < ib_eventTime b
                    then put True else s)
           else s)"

definition applyRADIUS :: "RadiusEvent \<Rightarrow> IdentityStore \<Rightarrow> IdentityStore" where
  "applyRADIUS e s =
     (if ra_MACToken e = '''' then s
      else
        let bind = (\<lambda>c. \<lparr>mb_userToken = ra_UserToken e, mb_sessionID = ra_SessionID e,
                         mb_eventTime = ra_EventTime e,
                         mb_deadline = ra_EventTime e + maxSession s, mb_closed = c\<rparr>);
            put = (\<lambda>c. s\<lparr>macState := (macState s)(ra_MACToken e \<mapsto> bind c)\<rparr>)
        in if ra_AcctStatus e = ''Start'' \<or> ra_AcctStatus e = ''Interim-Update'' then
             (case macState s (ra_MACToken e) of
                None \<Rightarrow> put False
              | Some b \<Rightarrow>
                  if mb_closed b \<and> mb_sessionID b = ra_SessionID e
                    then if \<not> mb_eventTime b < ra_EventTime e then s else put False
                  else if mb_sessionID b = ra_SessionID e
                    then if ra_EventTime e < mb_eventTime b then s else put False
                  else if ra_EventTime e < mb_eventTime b then s else put False)
           else if ra_AcctStatus e = ''Stop'' then
             (case macState s (ra_MACToken e) of
                None \<Rightarrow> s
              | Some b \<Rightarrow>
                  if mb_sessionID b = ra_SessionID e \<and> \<not> ra_EventTime e < mb_eventTime b
                    then put True else s)
           else s)"

definition evictExpired :: "time \<Rightarrow> IdentityStore \<Rightarrow> IdentityStore" where
  "evictExpired now s =
     s\<lparr>ipState := evict_map ib_deadline now (ipState s),
       macState := evict_map mb_deadline now (macState s)\<rparr>"

abbreviation sourceNPS :: string where "sourceNPS \<equiv> ''nps''"
abbreviation sourceDHCP :: string where "sourceDHCP \<equiv> ''dhcp''"

definition bump :: "string \<Rightarrow> (string \<Rightarrow> nat) \<Rightarrow> (string \<Rightarrow> nat)" where
  "bump l c = c(l := c l + 1)"

definition ingestNPS :: "xml_decoder \<Rightarrow> string \<Rightarrow> IdentityStore \<Rightarrow> IdentityStore" where
  "ingestNPS xmlFields line s =
     (case parseNPSLine xmlFields line (is_tok s) (npsLoc s) of
        Inl err \<Rightarrow> s\<lparr>identityParseErrors := bump sourceNPS (identityParseErrors s)\<rparr>
      | Inr None \<Rightarrow> s
      | Inr (Some ev) \<Rightarrow>
          let s1 = applyRADIUS ev (s\<lparr>identityEventsParsed := bump sourceNPS (identityEventsParsed s)\<rparr>)
          in (case is_ch s1 of None \<Rightarrow> s1 | Some w \<Rightarrow> s1\<lparr>is_ch := Some (addRadius ev w)\<rparr>))"

definition ingestDHCP :: "string \<Rightarrow> IdentityStore \<Rightarrow> IdentityStore" where
  "ingestDHCP line s =
     (case parseDHCPLine line (is_tok s) (dhcpLoc s) of
        Inl err \<Rightarrow> s\<lparr>identityParseErrors := bump sourceDHCP (identityParseErrors s)\<rparr>
      | Inr None \<Rightarrow> s
      | Inr (Some ev) \<Rightarrow>
          let s1 = applyDHCP ev (s\<lparr>identityEventsParsed := bump sourceDHCP (identityEventsParsed s)\<rparr>)
          in (case is_ch s1 of None \<Rightarrow> s1 | Some w \<Rightarrow> s1\<lparr>is_ch := Some (addDHCP ev w)\<rparr>))"

definition scanDir ::
  "xml_decoder \<Rightarrow> string \<Rightarrow> string \<Rightarrow> file_entry list option \<Rightarrow> IdentityStore \<Rightarrow> IdentityStore" where
  "scanDir xmlFields dir source listing s =
     (let (offs, s') = scanAppendedDir
            (\<lambda>_ line s. if source = sourceNPS then ingestNPS xmlFields line s else ingestDHCP line s)
            (\<lambda>_ s. s) dir listing (is_offsets s, s)
      in s'\<lparr>is_offsets := offs\<rparr>)"

definition id_flush where
  "id_flush sendD sendR sn =
     (case is_ch (fst sn) of
        None \<Rightarrow> sn
      | Some w \<Rightarrow> let (w', c) = ew_flush sendD sendR w (snd sn) in ((fst sn)\<lparr>is_ch := Some w'\<rparr>, c))"

text \<open>
  One scan: the listings are what the two directories hold, \<open>now\<close> what the clock says when the
  sweep starts. The parsers and handlers do not panic, so the recover branch is not reached.
\<close>

definition scan where
  "scan xmlFields sendD sendR listNPS listDHCP now sn =
     (let s1 = scanDir xmlFields (npsDir (fst sn)) sourceNPS listNPS (fst sn);
          s2 = scanDir xmlFields (dhcpDir s1) sourceDHCP listDHCP s1;
          (s3, c) = id_flush sendD sendR (s2, snd sn)
      in (evictExpired now s3, c))"

definition id_remaining :: "IdentityStore \<times> 'c \<Rightarrow> nat" where
  "id_remaining sn = (case is_ch (fst sn) of None \<Rightarrow> 0 | Some w \<Rightarrow> ew_remaining w)"

definition FinalFlush where
  "FinalFlush sendD sendR pause attempts sn =
     (case is_ch (fst sn) of
        None \<Rightarrow> (0, sn)
      | Some w \<Rightarrow> final_loop (id_flush sendD sendR) id_remaining pause attempts 0 sn)"

section \<open>The maps as slot machines\<close>

definition ip_slot :: "ipBinding \<Rightarrow> (string, unit) slot" where
  "ip_slot b = mk_slot (ib_macToken b) () (ib_eventTime b) (ib_closed b)"

definition mac_slot :: "macBinding \<Rightarrow> (string, string) slot" where
  "mac_slot b = mk_slot (mb_sessionID b) (mb_userToken b) (mb_eventTime b) (mb_closed b)"

definition ip_view :: "IdentityStore \<Rightarrow> string \<Rightarrow> (string, unit) slot option" where
  "ip_view s ip = map_option ip_slot (ipState s ip)"

definition mac_view :: "IdentityStore \<Rightarrow> string \<Rightarrow> (string, string) slot option" where
  "mac_view s mac = map_option mac_slot (macState s mac)"

text \<open>The events of both streams, and the action each is on its slot.\<close>

datatype identity_event = Dhcp DhcpEvent | Radius RadiusEvent

primrec apply_event :: "identity_event \<Rightarrow> IdentityStore \<Rightarrow> IdentityStore" where
  "apply_event (Dhcp e) s = applyDHCP e s"
| "apply_event (Radius e) s = applyRADIUS e s"

definition dhcp_act :: "DhcpEvent \<Rightarrow> (string, unit) act option" where
  "dhcp_act e =
     (if dh_MACToken e = '''' then None
      else if dh_EventID e = 10 \<or> dh_EventID e = 11 then Some (Open (dh_MACToken e) () (dh_EventTime e))
      else if dh_EventID e = 12 then Some (Close (dh_MACToken e) () (dh_EventTime e))
      else None)"

definition radius_act :: "RadiusEvent \<Rightarrow> (string, string) act option" where
  "radius_act e =
     (if ra_MACToken e = '''' then None
      else if ra_AcctStatus e = ''Start'' \<or> ra_AcctStatus e = ''Interim-Update''
        then Some (Open (ra_SessionID e) (ra_UserToken e) (ra_EventTime e))
      else if ra_AcctStatus e = ''Stop''
        then Some (Close (ra_SessionID e) (ra_UserToken e) (ra_EventTime e))
      else None)"

primrec ip_key :: "identity_event \<Rightarrow> string" where
  "ip_key (Dhcp e) = dh_IP e" | "ip_key (Radius e) = ''''"
primrec ip_act :: "identity_event \<Rightarrow> (string, unit) act option" where
  "ip_act (Dhcp e) = dhcp_act e" | "ip_act (Radius e) = None"
primrec mac_key :: "identity_event \<Rightarrow> string" where
  "mac_key (Dhcp e) = ''''" | "mac_key (Radius e) = ra_MACToken e"
primrec mac_act :: "identity_event \<Rightarrow> (string, string) act option" where
  "mac_act (Dhcp e) = None" | "mac_act (Radius e) = radius_act e"

text \<open>The events that concern one address and one device.\<close>

abbreviation ip_acts :: "string \<Rightarrow> identity_event list \<Rightarrow> (string, unit) act list" where
  "ip_acts ip es \<equiv> acts_for ip_key ip_act ip es"

abbreviation mac_acts :: "string \<Rightarrow> identity_event list \<Rightarrow> (string, string) act list" where
  "mac_acts mac es \<equiv> acts_for mac_key mac_act mac es"

lemma apply_frame [simp, frame_simps]:
  "maxLease (applyDHCP e s) = maxLease s" "maxSession (applyDHCP e s) = maxSession s"
  "macState (applyDHCP e s) = macState s" "is_ch (applyDHCP e s) = is_ch s"
  "maxLease (applyRADIUS f s) = maxLease s" "maxSession (applyRADIUS f s) = maxSession s"
  "ipState (applyRADIUS f s) = ipState s" "is_ch (applyRADIUS f s) = is_ch s"
  by (auto simp: applyDHCP_def applyRADIUS_def Let_def split: option.splits)

lemma ip_view_applyDHCP [store_simps]:
  "ip_view (applyDHCP e s) k =
     (if dh_IP e = k then case dhcp_act e of None \<Rightarrow> ip_view s k | Some a \<Rightarrow> slot_step a (ip_view s k)
      else ip_view s k)"
  by (cases "ipState s (dh_IP e)")
    (auto simp: applyDHCP_def ip_view_def ip_slot_def dhcp_act_def Let_def)

lemma mac_view_applyRADIUS [store_simps]:
  "mac_view (applyRADIUS e s) k =
     (if ra_MACToken e = k then case radius_act e of None \<Rightarrow> mac_view s k | Some a \<Rightarrow> slot_step a (mac_view s k)
      else mac_view s k)"
  by (cases "macState s (ra_MACToken e)")
    (auto simp: applyRADIUS_def mac_view_def mac_slot_def radius_act_def Let_def)

lemma other_view [simp, frame_simps]:
  "mac_view (applyDHCP e s) = mac_view s" "ip_view (applyRADIUS f s) = ip_view s"
  by (simp_all add: mac_view_def ip_view_def fun_eq_iff)

section \<open>The invariant\<close>

text \<open>
  Every binding carries a non-empty device and the deadline of its event: the store cannot
  trust a lease or a session longer than its horizon.
\<close>

definition identity_wf :: "duration \<Rightarrow> duration \<Rightarrow> IdentityStore \<Rightarrow> bool" where
  "identity_wf L S s \<longleftrightarrow> maxLease s = L \<and> maxSession s = S
     \<and> (\<forall>ip b. ipState s ip = Some b \<longrightarrow> ib_deadline b = ib_eventTime b + L \<and> ib_macToken b \<noteq> '''')
     \<and> (\<forall>mac b. macState s mac = Some b \<longrightarrow> mb_deadline b = mb_eventTime b + S \<and> mac \<noteq> '''')"

lemma identity_wf_ip: "identity_wf L S s \<Longrightarrow> ipState s ip = Some b \<Longrightarrow>
    ib_deadline b = ib_eventTime b + L \<and> ib_macToken b \<noteq> ''''"
  by (auto simp: identity_wf_def)

lemma identity_wf_mac: "identity_wf L S s \<Longrightarrow> macState s mac = Some b \<Longrightarrow>
    mb_deadline b = mb_eventTime b + S \<and> mac \<noteq> ''''"
  by (auto simp: identity_wf_def)

lemma identity_wf_new: "identity_wf L S (NewIdentityStore tok n d nl dl L S conn)"
  by (simp add: identity_wf_def NewIdentityStore_def)

lemma identity_wf_dhcp: "identity_wf L S s \<Longrightarrow> identity_wf L S (applyDHCP e s)"
  by (auto simp: identity_wf_def applyDHCP_def Let_def split: option.splits)

lemma identity_wf_radius: "identity_wf L S s \<Longrightarrow> identity_wf L S (applyRADIUS e s)"
  by (auto simp: identity_wf_def applyRADIUS_def Let_def split: option.splits)

lemma identity_wf_event: "identity_wf L S s \<Longrightarrow> identity_wf L S (apply_event e s)"
  by (cases e) (simp_all add: identity_wf_dhcp identity_wf_radius)

lemma identity_wf_evict: "identity_wf L S s \<Longrightarrow> identity_wf L S (evictExpired now s)"
  by (auto simp: identity_wf_def evictExpired_def evict_map_Some)

lemma ip_view_evict:
  "identity_wf L S s \<Longrightarrow> ip_view (evictExpired now s) k = slot_sweep L now (ip_view s k)"
  by (cases "ipState s k")
    (auto simp: ip_view_def evictExpired_def evict_map_apply slot_sweep_def ip_slot_def dest: identity_wf_ip)

lemma mac_view_evict:
  "identity_wf L S s \<Longrightarrow> mac_view (evictExpired now s) k = slot_sweep S now (mac_view s k)"
  by (cases "macState s k")
    (auto simp: mac_view_def evictExpired_def evict_map_apply slot_sweep_def mac_slot_def dest: identity_wf_mac)

section \<open>The interfaces discharged\<close>

lemma ip_view_apply_event:
  "ip_view (apply_event e s) k =
     (if ip_key e = k then case ip_act e of None \<Rightarrow> ip_view s k | Some a \<Rightarrow> slot_step a (ip_view s k)
      else ip_view s k)"
  by (cases e) (simp_all add: store_simps)

lemma mac_view_apply_event:
  "mac_view (apply_event e s) k =
     (if mac_key e = k then case mac_act e of None \<Rightarrow> mac_view s k | Some a \<Rightarrow> slot_step a (mac_view s k)
      else mac_view s k)"
  by (cases e) (simp_all add: store_simps)

interpretation ips: swept_store apply_event ip_view ip_key ip_act evictExpired "identity_wf L S" L for L S
  by unfold_locales
    (rule ip_view_apply_event identity_wf_event identity_wf_evict ip_view_evict; assumption)+

interpretation macs: swept_store apply_event mac_view mac_key mac_act evictExpired "identity_wf L S" S for L S
  by unfold_locales
    (rule mac_view_apply_event identity_wf_event identity_wf_evict mac_view_evict; assumption)+

interpretation ipx: expiring_store ipState ib_deadline ib_closed evictExpired
  by unfold_locales (simp add: evictExpired_def evict_map_apply)

interpretation macx: expiring_store macState mb_deadline mb_closed evictExpired
  by unfold_locales (simp add: evictExpired_def evict_map_apply)

section \<open>Runs of the store\<close>

text \<open>
  The store's life: events of either stream and sweeps, in the order the mutex let them in.
\<close>

primrec identity_step :: "identity_event store_op \<Rightarrow> IdentityStore \<Rightarrow> IdentityStore" where
  "identity_step (Ev e) s = apply_event e s"
| "identity_step (Sweep now) s = evictExpired now s"

definition identity_run :: "identity_event store_op list \<Rightarrow> IdentityStore \<Rightarrow> IdentityStore" where
  "identity_run ops s = fold identity_step ops s"

lemma ips_run: "fold ips.store_step ops s = identity_run ops s"
proof -
  have "ips.store_step op s = identity_step op s" for op s by (cases op) simp_all
  then have "ips.store_step = identity_step" by (intro ext) simp
  then show ?thesis by (simp add: identity_run_def)
qed

lemma macs_run: "fold macs.store_step ops s = identity_run ops s"
proof -
  have "macs.store_step op s = identity_step op s" for op s by (cases op) simp_all
  then have "macs.store_step = identity_step" by (intro ext) simp
  then show ?thesis by (simp add: identity_run_def)
qed

lemma identity_wf_run: "identity_wf L S s \<Longrightarrow> identity_wf L S (identity_run ops s)"
  using ips.inv_run unfolding ips_run .

text \<open>\<open>Lookup\<close> through the slots: the two-hop join.\<close>

lemma Lookup_slots:
  assumes "identity_wf L S s"
  shows "Lookup T s ip =
    (case slot_holder L T (ip_view s ip) of None \<Rightarrow> ('''', '''')
     | Some (m, _) \<Rightarrow> (case slot_holder S T (mac_view s m) of None \<Rightarrow> (m, '''') | Some (_, u) \<Rightarrow> (m, u)))"
  using identity_wf_ip [OF assms] identity_wf_mac [OF assms]
  by (auto simp: Lookup_def ip_view_def mac_view_def slot_holder_def ip_slot_def mac_slot_def
      split: option.splits)

lemma ip_holder_nonempty:
  "identity_wf L S s \<Longrightarrow> slot_holder L T (ip_view s ip) = Some (m, p) \<Longrightarrow> m \<noteq> ''''"
  by (auto simp: slot_holder_def ip_view_def ip_slot_def split: option.splits if_splits
      dest: identity_wf_ip)

section \<open>The declarative answer\<close>

text \<open>
  What a log says of an address at an instant: the device is the one whose lease was opened
  last, within the horizon and not released since; the user is that of the session opened last
  for the device, within its horizon and not stopped since, or \<open>""\<close> when there is none.
\<close>

definition resolves where
  "resolves L S T es ip m u \<longleftrightarrow>
     holds_at L T (set (ip_acts ip es)) m ()
     \<and> ((\<exists>sid. holds_at S T (set (mac_acts m es)) sid u)
        \<or> (u = '''' \<and> (\<forall>sid u'. \<not> holds_at S T (set (mac_acts m es)) sid u')))"

definition time_ordered :: "identity_event list \<Rightarrow> bool" where
  "time_ordered es \<longleftrightarrow> (\<forall>ip. sorted_wrt (<) (map act_time (ip_acts ip es)))
     \<and> (\<forall>mac. sorted_wrt (<) (map act_time (mac_acts mac es)))"

primrec event_time :: "identity_event \<Rightarrow> time" where
  "event_time (Dhcp e) = dh_EventTime e" | "event_time (Radius e) = ra_EventTime e"

lemma act_time_event:
  "ip_act e = Some a \<Longrightarrow> act_time a = event_time e" "mac_act e = Some b \<Longrightarrow> act_time b = event_time e"
  by (cases e; auto simp: dhcp_act_def radius_act_def split: if_splits)+

lemma acts_for_sorted:
  assumes "sorted_wrt (<) (map f es)" and "\<And>e a. act e = Some a \<Longrightarrow> act_time a = f e"
  shows "sorted_wrt (<) (map act_time (acts_for key act k es))"
  using assms(1)
proof (induction es)
  case Nil
  show ?case by simp
next
  case (Cons e es)
  have "act_time a < act_time b" if "act e = Some a" "b \<in> set (acts_for key act k es)" for a b
    using that Cons.prems assms(2) by (auto simp: acts_for_mem)
  then show ?case using Cons by (auto split: option.splits)
qed

lemma time_ordered_sorted: "sorted_wrt (<) (map event_time es) \<Longrightarrow> time_ordered es"
  unfolding time_ordered_def by (intro conjI allI acts_for_sorted) (auto simp: act_time_event)

lemma new_views [simp]:
  "ip_view (NewIdentityStore tok n d nl dl L S conn) ip = None"
  "mac_view (NewIdentityStore tok n d nl dl L S conn) mac = None"
  by (simp_all add: ip_view_def mac_view_def NewIdentityStore_def)

lemma acts_before:
  assumes "\<forall>e\<in>set es. event_time e \<le> T"
  shows "\<forall>a\<in>set (ip_acts ip es). act_time a \<le> T" "\<forall>a\<in>set (mac_acts mac es). act_time a \<le> T"
  using assms by (auto simp: acts_for_mem act_time_event)

text \<open>Both maps after a run, in terms of the log.\<close>

lemma identity_holders:
  assumes "s = identity_run ops (NewIdentityStore tok n d nl dl L S conn)"
    and "sweeps_before T ops" "time_ordered (events_of ops)" "\<forall>e\<in>set (events_of ops). event_time e \<le> T"
  shows "slot_holder L T (ip_view s ip) = Some (m, p)
      \<longleftrightarrow> holds_at L T (set (ip_acts ip (events_of ops))) m p"
    and "slot_holder S T (mac_view s mac) = Some (sid, u)
      \<longleftrightarrow> holds_at S T (set (mac_acts mac (events_of ops))) sid u"
proof -
  define s0 where "s0 = NewIdentityStore tok n d nl dl L S conn"
  have wf: "identity_wf L S s0" and none: "ip_view s0 ip = None" "mac_view s0 mac = None"
    by (simp_all add: s0_def identity_wf_new)
  have s: "s = identity_run ops s0" using assms(1) s0_def by simp
  show "slot_holder L T (ip_view s ip) = Some (m, p)
      \<longleftrightarrow> holds_at L T (set (ip_acts ip (events_of ops))) m p"
    unfolding s ips_run [symmetric]
    using assms(3) by (intro ips.swept_meaning [OF wf none(1) assms(2) _ acts_before(1) [OF assms(4)]])
      (simp add: time_ordered_def)
  show "slot_holder S T (mac_view s mac) = Some (sid, u)
      \<longleftrightarrow> holds_at S T (set (mac_acts mac (events_of ops))) sid u"
    unfolding s macs_run [symmetric]
    using assms(3) by (intro macs.swept_meaning [OF wf none(2) assms(2) _ acts_before(2) [OF assms(4)]])
      (simp add: time_ordered_def)
qed

lemma identity_lookup_resolves:
  assumes "s = identity_run ops (NewIdentityStore tok n d nl dl L S conn)"
    and "sweeps_before T ops" "time_ordered (events_of ops)" "\<forall>e\<in>set (events_of ops). event_time e \<le> T"
  shows "(m \<noteq> '''' \<and> Lookup T s ip = (m, u) \<longleftrightarrow> resolves L S T (events_of ops) ip m u)
    \<and> (fst (Lookup T s ip) = '''' \<longleftrightarrow> Lookup T s ip = ('''', ''''))"
proof -
  have wf: "identity_wf L S s" unfolding assms(1) by (intro identity_wf_run identity_wf_new)
  note ip = identity_holders(1) [OF assms] and mac = identity_holders(2) [OF assms]
  have "m \<noteq> '''' \<and> Lookup T s ip = (m, u) \<longleftrightarrow>
      slot_holder L T (ip_view s ip) = Some (m, ())
      \<and> ((\<exists>sid. slot_holder S T (mac_view s m) = Some (sid, u))
         \<or> (u = '''' \<and> slot_holder S T (mac_view s m) = None))"
    using ip_holder_nonempty [OF wf] unfolding Lookup_slots [OF wf]
    by (auto split: option.splits prod.splits)
  moreover have "slot_holder S T (mac_view s m) = None
      \<longleftrightarrow> (\<forall>sid u'. \<not> holds_at S T (set (mac_acts m (events_of ops))) sid u')"
    unfolding mac [symmetric] by (cases "slot_holder S T (mac_view s m)") auto
  ultimately have "m \<noteq> '''' \<and> Lookup T s ip = (m, u) \<longleftrightarrow> resolves L S T (events_of ops) ip m u"
    unfolding resolves_def by (simp add: ip mac)
  moreover have "fst (Lookup T s ip) = '''' \<longleftrightarrow> Lookup T s ip = ('''', '''')"
    using ip_holder_nonempty [OF wf] unfolding Lookup_slots [OF wf]
    by (auto split: option.splits prod.splits)
  ultimately show ?thesis by blast
qed

section \<open>Properties\<close>

text \<open>C1. The live store computes the declarative answer: after any interleaving of DHCP and
  RADIUS events with sweeps at earlier clock readings, when the events of each address and of
  each device came in time order, \<open>Lookup\<close> names exactly the device and the user the log says
  are behind the address, and nobody when the log names nobody.\<close>

theorem identity_lookup_meaning:
  assumes "s = identity_run ops (NewIdentityStore tok n d nl dl L S conn)"
    and "sweeps_before T ops" "time_ordered (events_of ops)" "\<forall>e\<in>set (events_of ops). event_time e \<le> T"
  shows "(m \<noteq> '''' \<and> Lookup T s ip = (m, u) \<longleftrightarrow> resolves L S T (events_of ops) ip m u)
    \<and> (fst (Lookup T s ip) = '''' \<longleftrightarrow> Lookup T s ip = ('''', ''''))"
  by (rule identity_lookup_resolves [OF assms])

end
