(* ===== verification/IdentityProps.thy ===== *)
theory IdentityProps
  imports Identity
begin

text \<open>
  The properties of the identity store: where an answer comes from, what sweeps, replays and
  ties do to it, how a scan composes poller, parsers, store and writer, and what the shutdown
  flush leaves. The examples share the small store and events defined first.
\<close>

lemma ip_act_open:
  "ip_act e = Some (Open m p t) \<Longrightarrow>
     \<exists>x. e = Dhcp x \<and> dh_MACToken x = m \<and> dh_EventID x \<in> {10, 11} \<and> dh_EventTime x = t"
  by (cases e) (auto simp: dhcp_act_def split: if_splits)

lemma mac_act_open:
  "mac_act e = Some (Open sid u t) \<Longrightarrow>
     \<exists>x. e = Radius x \<and> ra_SessionID x = sid \<and> ra_UserToken x = u
       \<and> ra_AcctStatus x \<in> {''Start'', ''Interim-Update''} \<and> ra_EventTime x = t"
  by (cases e) (auto simp: radius_act_def split: if_splits)

section \<open>A small store for the examples\<close>

definition ex_store :: IdentityStore where
  "ex_store = NewIdentityStore UpstreamPseudonymTokenizer ''nps'' ''dhcp'' None None 100 100 False"

definition dhcp_ev :: "uint16 \<Rightarrow> string \<Rightarrow> string \<Rightarrow> time \<Rightarrow> DhcpEvent" where
  "dhcp_ev i ip mac t = \<lparr>dh_EventTime = t, dh_EventID = i, dh_IP = ip, dh_MACToken = mac, dh_HostToken = ''''\<rparr>"

definition radius_ev :: "string \<Rightarrow> string \<Rightarrow> string \<Rightarrow> string \<Rightarrow> time \<Rightarrow> RadiusEvent" where
  "radius_ev st sid user mac t = \<lparr>ra_EventTime = t, ra_AcctStatus = st, ra_SessionID = sid,
     ra_UserToken = user, ra_MACToken = mac, ra_NASIP = ''''\<rparr>"

definition ex_ops :: "identity_event store_op list" where
  "ex_ops = [Ev (Dhcp (dhcp_ev 10 ''ip'' ''m1'' 1)), Ev (Radius (radius_ev ''Start'' ''s'' ''u'' ''m1'' 2)),
     Sweep 20, Ev (Dhcp (dhcp_ev 12 ''ip'' ''m1'' 3)), Ev (Dhcp (dhcp_ev 11 ''ip2'' ''m1'' 4)), Sweep 25]"

lemma ex_store_wf: "identity_wf 100 100 ex_store"
  by (simp add: ex_store_def identity_wf_new)

text \<open>The instance of the meaning theorem: the lease moved to \<open>ip2\<close> and the session followed.\<close>

theorem identity_lookup_meaning_witness:
  "Lookup 50 (identity_run ex_ops ex_store) ''ip2'' = (''m1'', ''u'')
   \<and> resolves 100 100 50 (events_of ex_ops) ''ip2'' ''m1'' ''u''"
proof -
  have l: "Lookup 50 (identity_run ex_ops ex_store) ''ip2'' = (''m1'', ''u'')" by code_simp
  have "time_ordered (events_of ex_ops)"
    by (rule time_ordered_sorted) (simp add: ex_ops_def dhcp_ev_def radius_ev_def)
  moreover have "sweeps_before 50 ex_ops" by (simp add: ex_ops_def)
  moreover have "\<forall>e\<in>set (events_of ex_ops). event_time e \<le> 50"
    by (simp add: ex_ops_def dhcp_ev_def radius_ev_def)
  ultimately show ?thesis
    using identity_lookup_meaning [of "identity_run ex_ops ex_store" ex_ops, OF _ _ _ _, unfolded ex_store_def]
      l unfolding ex_store_def by blast
qed

text \<open>An answer is never invented: whatever the order of the log and whenever sweeps ran, a
  device \<open>Lookup\<close> names was assigned or renewed on that address by an event within the lease
  horizon, and a user it names was reported by a Start or Interim-Update of that device within
  the session horizon.\<close>

theorem identity_lookup_provenance:
  assumes "s = identity_run ops (NewIdentityStore tok n d nl dl L S conn)"
    and "Lookup T s ip = (m, u)" "m \<noteq> ''''"
  shows "(\<exists>e. Dhcp e \<in> set (events_of ops) \<and> dh_IP e = ip \<and> dh_MACToken e = m
        \<and> dh_EventID e \<in> {10, 11} \<and> T \<le> dh_EventTime e + L)
    \<and> (u \<noteq> '''' \<longrightarrow> (\<exists>e. Radius e \<in> set (events_of ops) \<and> ra_MACToken e = m \<and> ra_UserToken e = u
        \<and> ra_AcctStatus e \<in> {''Start'', ''Interim-Update''} \<and> T \<le> ra_EventTime e + S))"
proof -
  define s0 where "s0 = NewIdentityStore tok n d nl dl L S conn"
  have wf0: "identity_wf L S s0" and n0: "ip_view s0 k = None" "mac_view s0 k = None" for k
    by (simp_all add: s0_def identity_wf_new)
  have s: "s = identity_run ops s0" using assms(1) s0_def by simp
  have wf: "identity_wf L S s" unfolding s by (rule identity_wf_run [OF wf0])
  from assms(2,3) obtain b where b: "ip_view s ip = Some b" "\<not> slot_closed b" "slot_ent b = m"
      "T \<le> slot_time b + L"
    unfolding Lookup_slots [OF wf] by (auto simp: slot_holder_def split: option.splits if_splits)
  obtain e where e: "e \<in> set (events_of ops)" "ip_key e = ip"
      "ip_act e = Some (Open m (slot_pl b) (slot_time b))"
    using ips.swept_provenance [OF wf0 n0(1), of ops ip b] b s unfolding ips_run by auto
  have 1: "\<exists>e. Dhcp e \<in> set (events_of ops) \<and> dh_IP e = ip \<and> dh_MACToken e = m
        \<and> dh_EventID e \<in> {10, 11} \<and> T \<le> dh_EventTime e + L"
    using e(1,2) b(4) ip_act_open [OF e(3)] by fastforce
  have 2: "\<exists>e. Radius e \<in> set (events_of ops) \<and> ra_MACToken e = m \<and> ra_UserToken e = u
        \<and> ra_AcctStatus e \<in> {''Start'', ''Interim-Update''} \<and> T \<le> ra_EventTime e + S" if "u \<noteq> ''''"
  proof -
    from assms(2) that obtain c where c: "mac_view s m = Some c" "\<not> slot_closed c" "slot_pl c = u"
        "T \<le> slot_time c + S"
      unfolding Lookup_slots [OF wf] by (auto simp: slot_holder_def split: option.splits if_splits prod.splits)
    obtain e where e: "e \<in> set (events_of ops)" "mac_key e = m"
        "mac_act e = Some (Open (slot_ent c) u (slot_time c))"
      using macs.swept_provenance [OF wf0 n0(2), of ops m c] c s unfolding macs_run by auto
    show ?thesis using e(1,2) c(4) mac_act_open [OF e(3)] by fastforce
  qed
  from 1 2 show ?thesis by blast
qed

theorem identity_lookup_provenance_witness:
  "Lookup 50 (identity_run ex_ops ex_store) ''ip2'' = (''m1'', ''u'')
   \<and> (\<exists>e. Dhcp e \<in> set (events_of ex_ops) \<and> dh_MACToken e = ''m1'' \<and> 50 \<le> dh_EventTime e + 100)"
proof -
  have "Lookup 50 (identity_run ex_ops ex_store) ''ip2'' = (''m1'', ''u'')" by code_simp
  then show ?thesis
    using identity_lookup_provenance [of "identity_run ex_ops ex_store" ex_ops, unfolded ex_store_def]
    unfolding ex_store_def by blast
qed

text \<open>C21. A sweep is invisible to every later reader: expiry is decided by the deadline check of
  \<open>Lookup\<close>, the sweep only bounds memory.\<close>

theorem identity_sweep_invisible:
  assumes "now \<le> T"
  shows "Lookup T (evictExpired now s) ip = Lookup T s ip"
proof -
  have "Lookup T s' ip = (case ipx.live T s' ip of None \<Rightarrow> ('''', '''')
      | Some ib \<Rightarrow> (case macx.live T s' (ib_macToken ib) of
          None \<Rightarrow> (ib_macToken ib, '''') | Some mb \<Rightarrow> (ib_macToken ib, mb_userToken mb)))" for s'
    by (auto simp: Lookup_def ipx.live_def macx.live_def split: option.splits)
  then show ?thesis by (simp add: ipx.live_evict [OF assms] macx.live_evict [OF assms] cong: option.case_cong)
qed

theorem identity_sweep_invisible_witness:
  "Lookup 60 (evictExpired 55 (identity_run ex_ops ex_store)) ''ip2'' = (''m1'', ''u'')"
proof -
  have "Lookup 60 (identity_run ex_ops ex_store) ''ip2'' = (''m1'', ''u'')" by code_simp
  then show ?thesis using identity_sweep_invisible [of 55 60] by simp
qed

text \<open>C20. A restart replay is harmless: reading a time-ordered log a second time, as a poller
  whose offsets are gone does, leaves every answer as it was.\<close>

theorem identity_replay_idempotent:
  assumes "time_ordered es" "s = fold apply_event es (NewIdentityStore tok n d nl dl L S conn)"
  shows "Lookup T (fold apply_event es s) ip = Lookup T s ip"
proof -
  define s0 where "s0 = NewIdentityStore tok n d nl dl L S conn"
  have wf0: "identity_wf L S s0" and n0: "ip_view s0 k = None" "mac_view s0 k = None" for k
    by (simp_all add: s0_def identity_wf_new)
  have wf: "identity_wf L S (fold apply_event es' s')" if "identity_wf L S s'" for es' s'
    using that by (induction es' arbitrary: s') (simp_all add: identity_wf_event)
  have s: "s = fold apply_event es s0" using assms(2) s0_def by simp
  have "ip_view (fold apply_event es s) k = ip_view s k"
    "mac_view (fold apply_event es s) k = mac_view s k" for k
    using assms(1) n0 unfolding s time_ordered_def
    by (auto intro: ips.replay_view macs.replay_view)
  then show ?thesis
    unfolding Lookup_slots [OF wf [OF wf [OF wf0], of es es, folded s]]
      Lookup_slots [OF wf [OF wf0, of es, folded s]] by (simp cong: option.case_cong)
qed

theorem identity_replay_idempotent_witness:
  "let s = fold apply_event (events_of ex_ops) ex_store
   in Lookup 50 (fold apply_event (events_of ex_ops) s) ''ip2'' = Lookup 50 s ''ip2''
      \<and> Lookup 50 s ''ip2'' = (''m1'', ''u'')"
proof -
  have "time_ordered (events_of ex_ops)"
    by (rule time_ordered_sorted) (simp add: ex_ops_def dhcp_ev_def radius_ev_def)
  moreover have "Lookup 50 (fold apply_event (events_of ex_ops) ex_store) ''ip2'' = (''m1'', ''u'')"
    by code_simp
  ultimately show ?thesis
    using identity_replay_idempotent [OF _ refl, of "events_of ex_ops"]
    unfolding Let_def ex_store_def by simp
qed

section \<open>Ties and late events\<close>

text \<open>Same-second ties on a lease converge in either arrival order: a handover from one
  device to another leaves the new device leased, a release and an assignment of one device
  leave the lease closed.\<close>

theorem dhcp_tie_converges:
  assumes "ipState s ip = Some b" "ib_macToken b = m" "ib_eventTime b \<le> t" "m \<noteq> ''''"
    and "m' \<noteq> ''''" "i \<in> {10, 11}"
    and "rel = \<lparr>dh_EventTime = t, dh_EventID = 12, dh_IP = ip, dh_MACToken = m, dh_HostToken = h\<rparr>"
    and "asg = \<lparr>dh_EventTime = t, dh_EventID = i, dh_IP = ip, dh_MACToken = m', dh_HostToken = h'\<rparr>"
  shows "ipState (applyDHCP asg (applyDHCP rel s)) ip = ipState (applyDHCP rel (applyDHCP asg s)) ip
    \<and> ipState (applyDHCP asg (applyDHCP rel s)) ip =
        Some \<lparr>ib_macToken = m', ib_eventTime = t, ib_deadline = t + maxLease s, ib_closed = (m' = m)\<rparr>"
  using assms by (auto simp: applyDHCP_def Let_def)

theorem dhcp_tie_converges_witness:
  "let s = applyDHCP (dhcp_ev 10 ''ip'' ''m1'' 5) ex_store;
       rel = dhcp_ev 12 ''ip'' ''m1'' 9; asg = dhcp_ev 10 ''ip'' ''m2'' 9
   in ipState (applyDHCP asg (applyDHCP rel s)) ''ip'' = ipState (applyDHCP rel (applyDHCP asg s)) ''ip''
      \<and> Lookup 10 (applyDHCP rel (applyDHCP asg s)) ''ip'' = (''m2'', '''')"
proof -
  let ?s = "applyDHCP (dhcp_ev 10 ''ip'' ''m1'' 5) ex_store"
  let ?b = "\<lparr>ib_macToken = ''m1'', ib_eventTime = 5, ib_deadline = 105, ib_closed = False\<rparr>"
  have "ipState ?s ''ip'' = Some ?b" by code_simp
  from dhcp_tie_converges [OF this, of "''m1''" 9 "''m2''" 10 _ "''''" _ "''''"]
  have "ipState (applyDHCP (dhcp_ev 10 ''ip'' ''m2'' 9) (applyDHCP (dhcp_ev 12 ''ip'' ''m1'' 9) ?s)) ''ip''
      = ipState (applyDHCP (dhcp_ev 12 ''ip'' ''m1'' 9) (applyDHCP (dhcp_ev 10 ''ip'' ''m2'' 9) ?s)) ''ip''"
    by (simp add: dhcp_ev_def)
  moreover have "Lookup 10 (applyDHCP (dhcp_ev 12 ''ip'' ''m1'' 9) (applyDHCP (dhcp_ev 10 ''ip'' ''m2'' 9) ?s)) ''ip''
      = (''m2'', '''')" by code_simp
  ultimately show ?thesis unfolding Let_def by blast
qed

text \<open>Same-second ties on a session converge in either arrival order too: the Stop of one
  session and the Start of another leave the new session open, Start and Stop of one session
  leave it closed.\<close>

theorem radius_tie_converges:
  assumes "macState s mac = Some b" "mb_sessionID b = sid" "mb_eventTime b \<le> t" "mac \<noteq> ''''"
    and "st \<in> {''Start'', ''Interim-Update''}"
    and "stop = \<lparr>ra_EventTime = t, ra_AcctStatus = ''Stop'', ra_SessionID = sid, ra_UserToken = u,
                 ra_MACToken = mac, ra_NASIP = nas\<rparr>"
    and "start = \<lparr>ra_EventTime = t, ra_AcctStatus = st, ra_SessionID = sid', ra_UserToken = u',
                  ra_MACToken = mac, ra_NASIP = nas'\<rparr>"
  shows "if sid' = sid
     then map_option mb_closed (macState (applyRADIUS start (applyRADIUS stop s)) mac) = Some True
        \<and> map_option mb_closed (macState (applyRADIUS stop (applyRADIUS start s)) mac) = Some True
     else macState (applyRADIUS start (applyRADIUS stop s)) mac
          = macState (applyRADIUS stop (applyRADIUS start s)) mac
        \<and> macState (applyRADIUS start (applyRADIUS stop s)) mac =
            Some \<lparr>mb_userToken = u', mb_sessionID = sid', mb_eventTime = t,
                  mb_deadline = t + maxSession s, mb_closed = False\<rparr>"
  using assms by (auto simp: applyRADIUS_def Let_def)

theorem radius_tie_converges_witness:
  "let s = applyRADIUS (radius_ev ''Start'' ''s1'' ''u1'' ''m'' 5) ex_store;
       stop = radius_ev ''Stop'' ''s1'' ''u1'' ''m'' 9; start = radius_ev ''Start'' ''s2'' ''u2'' ''m'' 9
   in macState (applyRADIUS start (applyRADIUS stop s)) ''m'' = macState (applyRADIUS stop (applyRADIUS start s)) ''m''
      \<and> map_option mb_userToken (macState (applyRADIUS stop (applyRADIUS start s)) ''m'') = Some ''u2''"
proof -
  let ?s = "applyRADIUS (radius_ev ''Start'' ''s1'' ''u1'' ''m'' 5) ex_store"
  let ?b = "\<lparr>mb_userToken = ''u1'', mb_sessionID = ''s1'', mb_eventTime = 5, mb_deadline = 105, mb_closed = False\<rparr>"
  have "macState ?s ''m'' = Some ?b" by code_simp
  from radius_tie_converges [OF this _ _ _ _ refl refl,
      where sid = "''s1''" and t = 9 and st = "''Start''" and u = "''u1''" and nas = "''''"
        and sid' = "''s2''" and u' = "''u2''" and nas' = "''''"]
  have "macState (applyRADIUS (radius_ev ''Start'' ''s2'' ''u2'' ''m'' 9)
          (applyRADIUS (radius_ev ''Stop'' ''s1'' ''u1'' ''m'' 9) ?s)) ''m''
      = macState (applyRADIUS (radius_ev ''Stop'' ''s1'' ''u1'' ''m'' 9)
          (applyRADIUS (radius_ev ''Start'' ''s2'' ''u2'' ''m'' 9) ?s)) ''m''"
    by (auto simp: radius_ev_def)
  moreover have "map_option mb_userToken (macState (applyRADIUS (radius_ev ''Stop'' ''s1'' ''u1'' ''m'' 9)
          (applyRADIUS (radius_ev ''Start'' ''s2'' ''u2'' ''m'' 9) ?s)) ''m'') = Some ''u2''"
    by code_simp
  ultimately show ?thesis unfolding Let_def by blast
qed



text \<open>Forgetting a tombstone is safe against late opens: once a released lease has been swept,
  an assignment older than the release (or tied with it) is stored again but is already past
  its own deadline, so the address still reads as absent.\<close>

theorem late_open_after_tombstone:
  assumes "identity_wf L S s" "ipState s ip = Some b" "ib_closed b" "ib_deadline b < now" "now \<le> T"
    and "dh_IP e = ip" "dh_EventTime e \<le> ib_eventTime b"
  shows "Lookup T (applyDHCP e (evictExpired now s)) ip = ('''', '''')"
proof -
  have d: "ib_eventTime b + L < now" "maxLease s = L"
    using assms(1,2,4) by (auto simp: identity_wf_def)
  have gone: "ipState (evictExpired now s) ip = None"
    using assms(2,4) by (simp add: evictExpired_def evict_map_apply)
  have "maxLease (evictExpired now s) = L" using d(2) by (simp add: evictExpired_def)
  then have "ipState (applyDHCP e (evictExpired now s)) ip = Some c \<Longrightarrow> ib_deadline c < T" for c
    using gone assms(5,6,7) d(1) by (auto simp: applyDHCP_def Let_def split: if_splits)
  then show ?thesis
    by (cases "ipState (applyDHCP e (evictExpired now s)) ip") (auto simp: Lookup_def)
qed

theorem late_open_after_tombstone_witness:
  "let s = identity_run [Ev (Dhcp (dhcp_ev 10 ''ip'' ''m'' 1)), Ev (Dhcp (dhcp_ev 12 ''ip'' ''m'' 9))] ex_store
   in Lookup 200 (applyDHCP (dhcp_ev 10 ''ip'' ''m'' 8) (evictExpired 120 s)) ''ip'' = ('''', '''')
      \<and> ipState (applyDHCP (dhcp_ev 10 ''ip'' ''m'' 8) (evictExpired 120 s)) ''ip'' \<noteq> None"
proof -
  let ?s = "identity_run [Ev (Dhcp (dhcp_ev 10 ''ip'' ''m'' 1)), Ev (Dhcp (dhcp_ev 12 ''ip'' ''m'' 9))] ex_store"
  let ?b = "\<lparr>ib_macToken = ''m'', ib_eventTime = 9, ib_deadline = 109, ib_closed = True\<rparr>"
  have b: "ipState ?s ''ip'' = Some ?b" by code_simp
  have "Lookup 200 (applyDHCP (dhcp_ev 10 ''ip'' ''m'' 8) (evictExpired 120 ?s)) ''ip'' = ('''', '''')"
    by (rule late_open_after_tombstone [OF identity_wf_run [OF ex_store_wf] b])
      (simp_all add: dhcp_ev_def)
  moreover have "ipState (applyDHCP (dhcp_ev 10 ''ip'' ''m'' 8) (evictExpired 120 ?s)) ''ip'' \<noteq> None"
    by code_simp
  ultimately show ?thesis unfolding Let_def by blast
qed

text \<open>A release read before the assignment it closes is lost: with no binding to close it
  leaves no tombstone, so the older assignment read afterwards opens the lease, although in
  time order the lease was closed.\<close>

theorem release_before_assign_lost:
  assumes "ipState s ip = None" "m \<noteq> ''''" "t \<le> u" "T \<le> t + maxLease s"
    and "rel = dhcp_ev 12 ip m u" "asg = dhcp_ev 10 ip m t"
  shows "fst (Lookup T (applyDHCP asg (applyDHCP rel s)) ip) = m
    \<and> Lookup T (applyDHCP rel (applyDHCP asg s)) ip = ('''', '''')"
  using assms by (auto simp: applyDHCP_def dhcp_ev_def Let_def Lookup_def split: option.splits)

theorem release_before_assign_lost_witness:
  "let rel = dhcp_ev 12 ''ip'' ''m'' 9; asg = dhcp_ev 10 ''ip'' ''m'' 5
   in fst (Lookup 10 (applyDHCP asg (applyDHCP rel ex_store)) ''ip'') = ''m''
      \<and> Lookup 10 (applyDHCP rel (applyDHCP asg ex_store)) ''ip'' = ('''', '''')"
  using release_before_assign_lost [of ex_store "''ip''" "''m''" 5 9 10]
  by (simp add: ex_store_def NewIdentityStore_def Let_def)

text \<open>A session survives roaming: when a device with a live session takes a lease on a new
  address, the user is at once resolvable there, with no new authentication.\<close>

theorem session_survives_roaming:
  assumes "macState s m = Some mb" "\<not> mb_closed mb" "T \<le> mb_deadline mb" "m \<noteq> ''''"
    and "dh_IP e = ip" "dh_MACToken e = m" "dh_EventID e \<in> {10, 11}" "T \<le> dh_EventTime e + maxLease s"
    and "\<And>b. ipState s ip = Some b \<Longrightarrow> ib_eventTime b < dh_EventTime e"
  shows "Lookup T (applyDHCP e s) ip = (m, mb_userToken mb)"
proof -
  have "ipState (applyDHCP e s) ip = Some \<lparr>ib_macToken = m, ib_eventTime = dh_EventTime e,
      ib_deadline = dh_EventTime e + maxLease s, ib_closed = False\<rparr>"
    using assms(4-9) by (cases "ipState s ip") (fastforce simp: applyDHCP_def Let_def)+
  then show ?thesis using assms(1,2,3,8) by (simp add: Lookup_def)
qed

theorem session_survives_roaming_witness:
  "Lookup 50 (applyDHCP (dhcp_ev 10 ''ip3'' ''m1'' 40) (identity_run ex_ops ex_store)) ''ip3'' = (''m1'', ''u'')"
proof -
  let ?s = "identity_run ex_ops ex_store"
  let ?b = "\<lparr>mb_userToken = ''u'', mb_sessionID = ''s'', mb_eventTime = 2, mb_deadline = 102, mb_closed = False\<rparr>"
  have "macState ?s ''m1'' = Some ?b" "ipState ?s ''ip3'' = None" "maxLease ?s = 100" by code_simp+
  then have "Lookup 50 (applyDHCP (dhcp_ev 10 ''ip3'' ''m1'' 40) ?s) ''ip3'' = (''m1'', mb_userToken ?b)"
    by (intro session_survives_roaming) (simp_all add: dhcp_ev_def)
  then show ?thesis by simp
qed

end
