(* ===== verification/IdentityScan.thy ===== *)
theory IdentityScan
  imports IdentityProps
begin

text \<open>
  One scan of the identity poller as a whole: what the file poller feeds, what the parsers make
  of it, what the store and the writer do with it. Then the writer's guarantees and the
  shutdown flush.
\<close>

section \<open>The events of a feed\<close>

definition nps_event :: "xml_decoder \<Rightarrow> identityTokenizer \<Rightarrow> location \<Rightarrow> feed \<Rightarrow> RadiusEvent option" where
  "nps_event xmlFields tok loc f =
     (case f of FTruncated p \<Rightarrow> None
      | FLine p line \<Rightarrow> (case parseNPSLine xmlFields line tok loc of Inr (Some ev) \<Rightarrow> Some ev | _ \<Rightarrow> None))"

definition dhcp_event :: "identityTokenizer \<Rightarrow> location \<Rightarrow> feed \<Rightarrow> DhcpEvent option" where
  "dhcp_event tok loc f =
     (case f of FTruncated p \<Rightarrow> None
      | FLine p line \<Rightarrow> (case parseDHCPLine line tok loc of Inr (Some ev) \<Rightarrow> Some ev | _ \<Rightarrow> None))"

abbreviation ingest_nps_feed where
  "ingest_nps_feed xmlFields \<equiv> apply_feed (\<lambda>_ line s. ingestNPS xmlFields line s) (\<lambda>_ s. s)"

abbreviation ingest_dhcp_feed where
  "ingest_dhcp_feed \<equiv> apply_feed (\<lambda>_ line s. ingestDHCP line s) (\<lambda>_ s. s)"

text \<open>What the two stores of a scan share: everything but counters.\<close>

definition same_state :: "IdentityStore \<Rightarrow> IdentityStore \<Rightarrow> bool" where
  "same_state s t \<longleftrightarrow> ipState s = ipState t \<and> macState s = macState t
     \<and> maxLease s = maxLease t \<and> maxSession s = maxSession t"

lemma same_state_refl [simp]: "same_state s s"
  by (simp add: same_state_def)

lemma same_state_trans: "same_state s t \<Longrightarrow> same_state t u \<Longrightarrow> same_state s u"
  by (simp add: same_state_def)

lemma same_state_dhcp: "same_state s t \<Longrightarrow> same_state (applyDHCP e s) (applyDHCP e t)"
  by (auto simp: same_state_def applyDHCP_def Let_def split: option.splits)

lemma same_state_radius: "same_state s t \<Longrightarrow> same_state (applyRADIUS e s) (applyRADIUS e t)"
  by (auto simp: same_state_def applyRADIUS_def Let_def split: option.splits)

lemma same_state_evict: "same_state s t \<Longrightarrow> same_state (evictExpired now s) (evictExpired now t)"
  by (simp add: same_state_def evictExpired_def)

lemma same_state_fold_radius: "same_state s t \<Longrightarrow> same_state (fold applyRADIUS es s) (fold applyRADIUS es t)"
  by (induction es arbitrary: s t) (simp_all add: same_state_radius)

lemma same_state_fold_dhcp: "same_state s t \<Longrightarrow> same_state (fold applyDHCP es s) (fold applyDHCP es t)"
  by (induction es arbitrary: s t) (simp_all add: same_state_dhcp)

lemma same_state_Lookup: "same_state s t \<Longrightarrow> Lookup T s ip = Lookup T t ip"
  by (simp add: same_state_def Lookup_def cong: option.case_cong if_cong)

text \<open>The configuration a scan never writes.\<close>

definition same_config :: "IdentityStore \<Rightarrow> IdentityStore \<Rightarrow> bool" where
  "same_config s t \<longleftrightarrow> is_tok s = is_tok t \<and> npsLoc s = npsLoc t \<and> dhcpLoc s = dhcpLoc t
     \<and> npsDir s = npsDir t \<and> dhcpDir s = dhcpDir t \<and> is_offsets s = is_offsets t"

lemma same_config_refl [simp]: "same_config s s"
  by (simp add: same_config_def)

lemma apply_config [simp]:
  "same_config (applyDHCP e s) t = same_config s t" "same_config (applyRADIUS f s) t = same_config s t"
  by (auto simp: same_config_def applyDHCP_def applyRADIUS_def Let_def split: option.splits)

lemma ingestNPS_effect:
  assumes "nps_event xmlFields (is_tok s) (npsLoc s) (FLine p line) = ev"
  defines "t \<equiv> ingestNPS xmlFields line s"
  shows "same_state t (case ev of None \<Rightarrow> s | Some e \<Rightarrow> applyRADIUS e s)"
    and "is_ch t = map_option (case ev of None \<Rightarrow> (\<lambda>w. w) | Some e \<Rightarrow> addRadius e) (is_ch s)"
    and "same_config t s"
proof -
  have u: "is_ch (applyRADIUS e (s\<lparr>identityEventsParsed := c\<rparr>)) = is_ch s"
    "same_state (applyRADIUS e (s\<lparr>identityEventsParsed := c\<rparr>)) (applyRADIUS e s)"
    "same_config (applyRADIUS e (s\<lparr>identityEventsParsed := c\<rparr>)) s" for e c
    by (simp_all, rule same_state_radius, simp add: same_state_def) (simp add: same_config_def)
  show "same_state t (case ev of None \<Rightarrow> s | Some e \<Rightarrow> applyRADIUS e s)"
    "is_ch t = map_option (case ev of None \<Rightarrow> (\<lambda>w. w) | Some e \<Rightarrow> addRadius e) (is_ch s)"
    "same_config t s"
    using u assms(1)
    by (auto simp: t_def ingestNPS_def nps_event_def same_state_def same_config_def Let_def option.map_ident
        split: sum.splits option.splits)
qed

lemma ingestDHCP_effect:
  assumes "dhcp_event (is_tok s) (dhcpLoc s) (FLine p line) = ev"
  defines "t \<equiv> ingestDHCP line s"
  shows "same_state t (case ev of None \<Rightarrow> s | Some e \<Rightarrow> applyDHCP e s)"
    and "is_ch t = map_option (case ev of None \<Rightarrow> (\<lambda>w. w) | Some e \<Rightarrow> addDHCP e) (is_ch s)"
    and "same_config t s"
proof -
  have u: "is_ch (applyDHCP e (s\<lparr>identityEventsParsed := c\<rparr>)) = is_ch s"
    "same_state (applyDHCP e (s\<lparr>identityEventsParsed := c\<rparr>)) (applyDHCP e s)"
    "same_config (applyDHCP e (s\<lparr>identityEventsParsed := c\<rparr>)) s" for e c
    by (simp_all, rule same_state_dhcp, simp add: same_state_def) (simp add: same_config_def)
  show "same_state t (case ev of None \<Rightarrow> s | Some e \<Rightarrow> applyDHCP e s)"
    "is_ch t = map_option (case ev of None \<Rightarrow> (\<lambda>w. w) | Some e \<Rightarrow> addDHCP e) (is_ch s)"
    "same_config t s"
    using u assms(1)
    by (auto simp: t_def ingestDHCP_def dhcp_event_def same_state_def same_config_def Let_def option.map_ident
        split: sum.splits option.splits)
qed

section \<open>A whole feed\<close>

definition add_all :: "DhcpEvent list \<Rightarrow> RadiusEvent list \<Rightarrow> chEventWriter \<Rightarrow> chEventWriter" where
  "add_all ds rs w = w\<lparr>ew_dhcp := ew_dhcp w @ ds, ew_radius := ew_radius w @ rs\<rparr>"

lemma add_all_simps [simp]:
  "add_all [] [] w = w"
  "add_all ds rs (addDHCP e w) = add_all (e # ds) rs w"
  "add_all ds rs (addRadius f w) = add_all ds (f # rs) w"
  "add_all ds rs (add_all ds' rs' w) = add_all (ds' @ ds) (rs' @ rs) w"
  by (simp_all add: add_all_def addDHCP_def addRadius_def)

lemma nps_feed_effect:
  fixes feeds s xmlFields
  defines "evs \<equiv> List.map_filter (nps_event xmlFields (is_tok s) (npsLoc s)) feeds"
    and "t \<equiv> fold (ingest_nps_feed xmlFields) feeds s"
  shows "same_state t (fold applyRADIUS evs s) \<and> is_ch t = map_option (add_all [] evs) (is_ch s)
    \<and> same_config t s"
  unfolding evs_def t_def
proof (induction feeds arbitrary: s)
  case Nil
  show ?case by (simp add: map_filter_simps option.map_id [unfolded id_def])
next
  case (Cons f feeds)
  show ?case
  proof (cases f)
    case (FTruncated p)
    then show ?thesis using Cons by (simp add: map_filter_simps nps_event_def)
  next
    case (FLine p line)
    define u where "u = ingestNPS xmlFields line s"
    note eff = ingestNPS_effect [of xmlFields s p line _, OF refl, folded u_def]
    have conf: "is_tok u = is_tok s" "npsLoc u = npsLoc s" using eff(3) by (simp_all add: same_config_def)
    note IH = Cons.IH [of u, unfolded conf]
    have "same_state (fold applyRADIUS xs u)
        (fold applyRADIUS xs (case nps_event xmlFields (is_tok s) (npsLoc s) f of None \<Rightarrow> s | Some e \<Rightarrow> applyRADIUS e s))" for xs
      using eff(1) FLine by (intro same_state_fold_radius) simp
    moreover have "same_config (fold (ingest_nps_feed xmlFields) feeds u) s"
      using IH eff(3) by (simp add: same_config_def)
    ultimately show ?thesis
      using IH eff(2) FLine
      by (auto simp: map_filter_simps u_def [symmetric] option.map_comp comp_def
          split: option.splits intro: same_state_trans)
  qed
qed

lemma dhcp_feed_effect:
  fixes feeds s
  defines "evs \<equiv> List.map_filter (dhcp_event (is_tok s) (dhcpLoc s)) feeds"
    and "t \<equiv> fold ingest_dhcp_feed feeds s"
  shows "same_state t (fold applyDHCP evs s) \<and> is_ch t = map_option (add_all evs []) (is_ch s)
    \<and> same_config t s"
  unfolding evs_def t_def
proof (induction feeds arbitrary: s)
  case Nil
  show ?case by (simp add: map_filter_simps option.map_id [unfolded id_def])
next
  case (Cons f feeds)
  show ?case
  proof (cases f)
    case (FTruncated p)
    then show ?thesis using Cons by (simp add: map_filter_simps dhcp_event_def)
  next
    case (FLine p line)
    define u where "u = ingestDHCP line s"
    note eff = ingestDHCP_effect [of s p line _, OF refl, folded u_def]
    have conf: "is_tok u = is_tok s" "dhcpLoc u = dhcpLoc s" using eff(3) by (simp_all add: same_config_def)
    note IH = Cons.IH [of u, unfolded conf]
    have "same_state (fold applyDHCP xs u)
        (fold applyDHCP xs (case dhcp_event (is_tok s) (dhcpLoc s) f of None \<Rightarrow> s | Some e \<Rightarrow> applyDHCP e s))" for xs
      using eff(1) FLine by (intro same_state_fold_dhcp) simp
    moreover have "same_config (fold ingest_dhcp_feed feeds u) s"
      using IH eff(3) by (simp add: same_config_def)
    ultimately show ?thesis
      using IH eff(2) FLine
      by (auto simp: map_filter_simps u_def [symmetric] option.map_comp comp_def
          split: option.splits intro: same_state_trans)
  qed
qed

section \<open>One scan\<close>

text \<open>The events a scan of a directory delivers, given the offsets it starts from.\<close>

definition dir_feed :: "string \<Rightarrow> file_entry list option \<Rightarrow> offsets \<Rightarrow> feed list" where
  "dir_feed dir listing offs = snd (scan_log dir listing offs)"

definition scan_radius_events where
  "scan_radius_events xmlFields listNPS s =
     List.map_filter (nps_event xmlFields (is_tok s) (npsLoc s))
       (dir_feed (npsDir s) listNPS (is_offsets s))"

definition scan_dhcp_events where
  "scan_dhcp_events listNPS listDHCP s =
     List.map_filter (dhcp_event (is_tok s) (dhcpLoc s))
       (dir_feed (dhcpDir s) listDHCP (fst (scan_log (npsDir s) listNPS (is_offsets s))))"

lemma same_state_offsets [simp]:
  "same_state (s\<lparr>is_offsets := offs\<rparr>) t = same_state s t"
  "same_state t (s\<lparr>is_offsets := offs\<rparr>) = same_state t s"
  by (simp_all add: same_state_def)

lemma scanDir_nps:
  fixes s xmlFields listing
  defines "t \<equiv> scanDir xmlFields (npsDir s) sourceNPS listing s"
  shows "same_state t (fold applyRADIUS (scan_radius_events xmlFields listing s) s)"
    and "is_ch t = map_option (add_all [] (scan_radius_events xmlFields listing s)) (is_ch s)"
    and "is_offsets t = fst (scan_log (npsDir s) listing (is_offsets s))"
    and "same_config (t\<lparr>is_offsets := offs\<rparr>) (s\<lparr>is_offsets := offs\<rparr>)"
    and "is_tok t = is_tok s" "dhcpLoc t = dhcpLoc s" "dhcpDir t = dhcpDir s"
  using nps_feed_effect [where xmlFields = xmlFields and s = s and feeds = "snd (scan_log (npsDir s) listing (is_offsets s))"]
  by (simp_all add: t_def scanDir_def scanAppendedDir_log scan_radius_events_def dir_feed_def
      same_config_def)

lemma scanDir_dhcp:
  fixes s xmlFields listing
  defines "t \<equiv> scanDir xmlFields (dhcpDir s) sourceDHCP listing s"
    and "evs \<equiv> List.map_filter (dhcp_event (is_tok s) (dhcpLoc s))
                 (dir_feed (dhcpDir s) listing (is_offsets s))"
  shows "same_state t (fold applyDHCP evs s)" and "is_ch t = map_option (add_all evs []) (is_ch s)"
    and "is_offsets t = fst (scan_log (dhcpDir s) listing (is_offsets s))"
    and "same_config (t\<lparr>is_offsets := offs\<rparr>) (s\<lparr>is_offsets := offs\<rparr>)"
  using dhcp_feed_effect [where s = s and feeds = "snd (scan_log (dhcpDir s) listing (is_offsets s))"]
  by (simp_all add: t_def evs_def scanDir_def scanAppendedDir_log dir_feed_def same_config_def)

lemma fold_apply_events:
  "fold apply_event (map Dhcp ds) s = fold applyDHCP ds s"
  "fold apply_event (map Radius rs) s = fold applyRADIUS rs s"
proof -
  show "fold apply_event (map Dhcp ds) s = fold applyDHCP ds s"
    by (induction ds arbitrary: s) simp_all
  show "fold apply_event (map Radius rs) s = fold applyRADIUS rs s"
    by (induction rs arbitrary: s) simp_all
qed

text \<open>Where a scan leaves the offsets: the session directory is read first, then the lease one.\<close>

definition scan_offsets where
  "scan_offsets listNPS listDHCP s =
     fst (scan_log (dhcpDir s) listDHCP (fst (scan_log (npsDir s) listNPS (is_offsets s))))"

lemma scan_effect:
  fixes s xmlFields listNPS listDHCP sendD sendR now c
  defines "rs \<equiv> scan_radius_events xmlFields listNPS s"
    and "ds \<equiv> scan_dhcp_events listNPS listDHCP s"
    and "t \<equiv> fst (scan xmlFields sendD sendR listNPS listDHCP now (s, c))"
  shows "same_state t (evictExpired now (fold apply_event (map Radius rs @ map Dhcp ds) s))"
    and "is_ch t = map_option (\<lambda>w. fst (ew_flush sendD sendR (add_all ds rs w) c)) (is_ch s)"
    and "same_config t (s\<lparr>is_offsets := scan_offsets listNPS listDHCP s\<rparr>)"
proof -
  define s1 where "s1 = scanDir xmlFields (npsDir s) sourceNPS listNPS s"
  define s2 where "s2 = scanDir xmlFields (dhcpDir s1) sourceDHCP listDHCP s1"
  define s3 where "s3 = fst (id_flush sendD sendR (s2, c))"
  note n = scanDir_nps [where xmlFields = xmlFields and s = s and listing = listNPS, folded s1_def rs_def]
  have ds: "ds = List.map_filter (dhcp_event (is_tok s1) (dhcpLoc s1))
      (dir_feed (dhcpDir s1) listDHCP (is_offsets s1))"
    using n by (simp add: ds_def scan_dhcp_events_def)
  note d = scanDir_dhcp [where xmlFields = xmlFields and s = s1 and listing = listDHCP, folded s2_def ds]
  have t: "t = evictExpired now s3"
    by (simp add: t_def scan_def s3_def s2_def s1_def Let_def split_beta)
  have s3: "same_state s3 s2" "same_config s3 s2"
    "is_ch s3 = map_option (\<lambda>w. fst (ew_flush sendD sendR w c)) (is_ch s2)"
    by (auto simp: s3_def id_flush_def same_state_def same_config_def split: option.splits prod.splits)
  have "same_state s2 (fold applyDHCP ds (fold applyRADIUS rs s))"
    using d(1) n(1) by (rule same_state_trans [OF _ same_state_fold_dhcp])
  then show "same_state t (evictExpired now (fold apply_event (map Radius rs @ map Dhcp ds) s))"
    unfolding t by (simp add: fold_apply_events same_state_evict same_state_trans [OF s3(1)])
  show "is_ch t = map_option (\<lambda>w. fst (ew_flush sendD sendR (add_all ds rs w) c)) (is_ch s)"
    using s3(3) d(2) n(2) by (simp add: t evictExpired_def option.map_comp comp_def)
  show "same_config t (s\<lparr>is_offsets := scan_offsets listNPS listDHCP s\<rparr>)"
    using s3(2) d(3) d(4) [where offs = Map.empty] n(3) n(4) [where offs = Map.empty]
    by (simp add: t evictExpired_def same_config_def scan_offsets_def)
qed

text \<open>A scan is the events of the newly completed lines, and nothing else: it folds the parsed
  RADIUS events and then the parsed DHCP events into the store, sweeps at its clock reading,
  appends the same events to the writer's buffers and flushes them once. Lines that are skipped
  or malformed have no effect on any answer.\<close>

theorem identity_scan_refines:
  fixes s xmlFields listNPS listDHCP sendD sendR now c
  defines "rs \<equiv> scan_radius_events xmlFields listNPS s"
    and "ds \<equiv> scan_dhcp_events listNPS listDHCP s"
    and "t \<equiv> fst (scan xmlFields sendD sendR listNPS listDHCP now (s, c))"
  shows "Lookup T t ip = Lookup T (evictExpired now (fold apply_event (map Radius rs @ map Dhcp ds) s)) ip
    \<and> is_ch t = map_option (\<lambda>w. fst (ew_flush sendD sendR (add_all ds rs w) c)) (is_ch s)"
  unfolding rs_def ds_def t_def by (intro conjI same_state_Lookup scan_effect(1,2))

section \<open>Delivery to ClickHouse\<close>

definition ew_new :: "nat \<Rightarrow> 'c \<Rightarrow> 'c ew_state" where
  "ew_new cap c = \<lparr>ew_writer = \<lparr>ew_dhcp = [], ew_radius = [], ew_maxBuffer = cap\<rparr>,
     ew_net = c, ew_ackedD = [], ew_ackedR = []\<rparr>"

lemma ew_new_simps [simp]:
  "ew_dhcp (ew_writer (ew_new cap c)) = []" "ew_radius (ew_writer (ew_new cap c)) = []"
  "ew_maxBuffer (ew_writer (ew_new cap c)) = cap"
  "ew_ackedD (ew_new cap c) = []" "ew_ackedR (ew_new cap c) = []"
  by (simp_all add: ew_new_def)


definition ex_sender :: "'row list \<Rightarrow> bool list \<Rightarrow> bool \<times> bool list" where
  "ex_sender rows c = (case c of [] \<Rightarrow> (True, []) | ok # r \<Rightarrow> (ok, r))"

definition ex_ew_ops :: "ew_op list" where
  "ex_ew_ops = [AddDHCP (dhcp_ev 10 ''a'' ''m'' 1), Flush, AddDHCP (dhcp_ev 12 ''a'' ''m'' 2), Flush]"


text \<open>The shutdown flush stops and reports truthfully: it flushes at least once and at most
  \<open>attempts\<close> times, stops at the first flush that leaves nothing, and returns exactly the
  number of events still buffered; without a ClickHouse writer it returns 0 at once.\<close>

theorem identity_final_flush:
  shows "\<exists>k. k \<le> nat (attempts - 1)
    \<and> (is_ch (fst sn) \<noteq> None \<longrightarrow> snd (FinalFlush sendD sendR pause attempts sn)
          = after_flush (id_flush sendD sendR) pause k sn
        \<and> (\<forall>j<k. id_remaining (after_flush (id_flush sendD sendR) pause j sn) \<noteq> 0)
        \<and> (fst (FinalFlush sendD sendR pause attempts sn) = 0 \<or> k = nat (attempts - 1)))
    \<and> fst (FinalFlush sendD sendR pause attempts sn)
        = id_remaining (snd (FinalFlush sendD sendR pause attempts sn))
    \<and> (is_ch (fst sn) = None \<longrightarrow> FinalFlush sendD sendR pause attempts sn = (0, sn))"
proof (cases "is_ch (fst sn)")
  case None
  then show ?thesis by (intro exI [of _ 0]) (simp add: FinalFlush_def id_remaining_def)
next
  case (Some w)
  obtain k where k: "final_loop (id_flush sendD sendR) id_remaining pause attempts 0 sn
      = (id_remaining (after_flush (id_flush sendD sendR) pause k sn), after_flush (id_flush sendD sendR) pause k sn)"
    "k \<le> nat (attempts - 1 - 0)"
    "\<forall>j<k. id_remaining (after_flush (id_flush sendD sendR) pause j sn) \<noteq> 0"
    "id_remaining (after_flush (id_flush sendD sendR) pause k sn) = 0 \<or> k = nat (attempts - 1 - 0)"
    using final_loop_stops [of "id_flush sendD sendR" id_remaining pause attempts 0 sn] by blast
  then show ?thesis using Some by (intro exI [of _ k]) (simp add: FinalFlush_def)
qed

theorem identity_final_flush_witness:
  "let w = \<lparr>ew_dhcp = [dhcp_ev 10 ''a'' ''m'' 1], ew_radius = [], ew_maxBuffer = 5\<rparr>;
       r = FinalFlush ex_sender ex_sender (\<lambda>x. x) 3 (ex_store\<lparr>is_ch := Some w\<rparr>, [False])
   in fst r = id_remaining (snd r)"
  unfolding Let_def using identity_final_flush by blast

text \<open>One row the driver rejects holds the whole buffer back: while it is buffered and the
  buffer is within its bound, no flush empties the buffer and none of its events is sent.\<close>

theorem identity_poison_row:
  assumes "r \<in> set (ew_dhcp w)" "\<not> Append drv (dhcp_columns r)" "length (ew_dhcp w) \<le> ew_maxBuffer w"
  shows "ew_dhcp (fst (ew_flush (sendDHCP drv) sendR w c)) = ew_dhcp w"
proof -
  have "\<not> fst (sendDHCP drv (ew_dhcp w) c)"
    unfolding sendDHCP_def using assms(1,2) by (intro send_batch_poison) auto
  then show ?thesis using assms(1,3)
    by (auto simp: ew_flush_dhcp flush_buffer_def split: prod.splits)
qed

theorem identity_poison_row_witness:
  "let w = \<lparr>ew_dhcp = [dhcp_ev 10 ''a'' ''m'' 1, dhcp_ev 10 ''bad'' ''m'' 2], ew_radius = [], ew_maxBuffer = 5\<rparr>;
       drv = \<lparr>PrepareBatch = (\<lambda>c. (True, c)), Append = (\<lambda>(t, i, ip, m, h). ip \<noteq> ''bad''),
              Send = (\<lambda>rows c. (True, c))\<rparr>
   in ew_dhcp (fst (ew_flush (sendDHCP drv) (\<lambda>_ c. (True, c)) w ())) = ew_dhcp w"
  unfolding Let_def
  by (rule identity_poison_row [of "dhcp_ev 10 ''bad'' ''m'' 2"]) (simp_all add: dhcp_columns_def dhcp_ev_def)

end
