(* ===== verification/IdentityJoin.thy ===== *)
theory IdentityJoin
  imports IdentityScan
begin

text \<open>
  \<open>cmd/trace/identity_join.go\<close>: the forensic join. The events of one key up to an instant are
  grouped into batches of equal time, each applied as a set; what survives are the candidates,
  and more than one distinct answer is reported as ambiguous. The lemmas show, for both joins,
  that the fold computes the set of holders of the declarative meaning of a log, with no
  assumption on the order or the distinctness of the events.
\<close>

section \<open>Batches\<close>

record dhcpEvent =
  de_Time :: time
  de_EventID :: uint16
  de_IP :: string
  de_MACToken :: string

record radiusEvent =
  re_Time :: time
  re_AcctStatus :: string
  re_SessionID :: string
  re_UserToken :: string
  re_MACToken :: string

record radiusCand =
  rc_sessionID :: string
  rc_userToken :: string

text \<open>The inner loop: the longest run of events with the time of the first.\<close>

function batches :: "('e \<Rightarrow> time) \<Rightarrow> 'e list \<Rightarrow> 'e list list" where
  "batches tm [] = []"
| "batches tm (x # xs) =
     (x # takeWhile (\<lambda>y. tm y = tm x) xs) # batches tm (dropWhile (\<lambda>y. tm y = tm x) xs)"
  by pat_completeness auto
termination
  by (relation "measure (length \<circ> snd)") (auto intro: le_imp_less_Suc length_dropWhile_le)

definition dhcp_batch :: "duration \<Rightarrow> dhcpEvent list \<Rightarrow> string set \<times> time \<Rightarrow> string set \<times> time" where
  "dhcp_batch lease batch st =
     (let (cands, deadline) = st;
          opn = set (map de_MACToken (filter (\<lambda>e. de_EventID e = 10 \<or> de_EventID e = 11) batch));
          closes = set (map de_MACToken (filter (\<lambda>e. de_EventID e = 12) batch));
          (cands, deadline) = (if opn \<noteq> {} then (opn, de_Time (hd batch) + lease) else (cands, deadline))
      in ({c \<in> cands. c \<notin> closes}, deadline))"

definition dhcpBindingAt :: "dhcpEvent list \<Rightarrow> string \<Rightarrow> time \<Rightarrow> duration \<Rightarrow> string \<times> bool" where
  "dhcpBindingAt events ip t lease =
     (let f = sort_key de_Time (filter (\<lambda>e. de_IP e = ip \<and> de_MACToken e \<noteq> '''' \<and> \<not> t < de_Time e) events);
          (cands, deadline) = fold (dhcp_batch lease) (batches de_Time f) ({}, zeroTime)
      in if card cands = 0 then ('''', False)
         else if deadline < t then ('''', False)
         else if 1 < card cands then ('''', True)
         else (the_elem cands, False))"

definition radius_batch ::
  "duration \<Rightarrow> radiusEvent list \<Rightarrow> radiusCand set \<times> time \<Rightarrow> radiusCand set \<times> time" where
  "radius_batch sess batch st =
     (let (cands, deadline) = st;
          opn = set (map (\<lambda>e. \<lparr>rc_sessionID = re_SessionID e, rc_userToken = re_UserToken e\<rparr>)
                  (filter (\<lambda>e. re_AcctStatus e = ''Start'' \<or> re_AcctStatus e = ''Interim-Update'') batch));
          closes = set (map re_SessionID (filter (\<lambda>e. re_AcctStatus e = ''Stop'') batch));
          (cands, deadline) = (if opn \<noteq> {} then (opn, re_Time (hd batch) + sess) else (cands, deadline))
      in ({c \<in> cands. rc_sessionID c \<notin> closes}, deadline))"

text \<open>
  The last loop leaves \<open>user\<close> at the token of some candidate; it is returned only when there is
  one session and one user, so all candidates agree.
\<close>

definition radiusBindingAt :: "radiusEvent list \<Rightarrow> string \<Rightarrow> time \<Rightarrow> duration \<Rightarrow> string \<times> bool" where
  "radiusBindingAt events mac t sess =
     (let f = sort_key re_Time (filter (\<lambda>e. re_MACToken e = mac \<and> re_MACToken e \<noteq> '''' \<and> \<not> t < re_Time e) events);
          (cands, deadline) = fold (radius_batch sess) (batches re_Time f) ({}, zeroTime)
      in if card cands = 0 \<or> deadline < t then ('''', False)
         else let sessions = rc_sessionID ` cands; users = rc_userToken ` cands
              in if 1 < card sessions \<or> 1 < card users then ('''', True)
                 else (the_elem users, False))"

section \<open>Lemmas on batches\<close>

definition uniform :: "('e \<Rightarrow> time) \<Rightarrow> 'e list \<Rightarrow> bool" where
  "uniform tm b \<longleftrightarrow> b \<noteq> [] \<and> (\<forall>x\<in>set b. tm x = tm (hd b))"

lemma uniformD: "uniform tm b \<Longrightarrow> x \<in> set b \<Longrightarrow> tm x = tm (hd b)"
  unfolding uniform_def by blast

definition good_batches :: "('e \<Rightarrow> time) \<Rightarrow> 'e list list \<Rightarrow> bool" where
  "good_batches tm bs \<longleftrightarrow> (\<forall>b\<in>set bs. uniform tm b)
     \<and> sorted_wrt (<) (map (tm \<circ> hd) bs)"

lemma good_batches_Cons:
  "good_batches tm (b # bs) \<longleftrightarrow> uniform tm b
     \<and> (\<forall>b'\<in>set bs. tm (hd b) < tm (hd b')) \<and> good_batches tm bs"
  by (auto simp: good_batches_def)

lemma good_batches_snoc:
  "good_batches tm (bs @ [b]) \<Longrightarrow> good_batches tm bs \<and> uniform tm b
     \<and> (\<forall>b'\<in>set bs. \<forall>x\<in>set b'. tm x < tm (hd b))"
  by (auto simp: good_batches_def sorted_wrt_append uniformD)

lemma concat_batches: "concat (batches tm xs) = xs"
  by (induction tm xs rule: batches.induct) simp_all

lemma batches_good: "sorted (map tm xs) \<Longrightarrow> good_batches tm (batches tm xs)"
proof (induction tm xs rule: batches.induct)
  case (1 tm)
  show ?case by (simp add: good_batches_def)
next
  case (2 tm x xs)
  let ?r = "dropWhile (\<lambda>y. tm y = tm x) xs"
  have srt: "sorted (map tm ?r)" using 2(2) by (simp add: sorted_dropWhile dropWhile_map [symmetric] comp_def)
      (metis (mono_tags, lifting) sorted_wrt_append map_append takeWhile_dropWhile_id)
  have gt: "\<forall>y\<in>set ?r. tm x < tm y"
  proof
    fix y assume y: "y \<in> set ?r"
    then have ne: "?r \<noteq> []" by (metis empty_iff list.set(1))
    then have "tm (hd ?r) \<noteq> tm x" using hd_dropWhile [of "\<lambda>y. tm y = tm x" xs] by simp
    moreover have "hd ?r \<in> set xs" using set_dropWhileD [OF hd_in_set [OF ne]] .
    then have "tm x \<le> tm (hd ?r)" using 2(2) by simp
    moreover have "tm (hd zs) \<le> tm y" if "sorted (map tm zs)" "y \<in> set zs" for zs
      using that by (cases zs) auto
    then have "tm (hd ?r) \<le> tm y" using srt y by blast
    ultimately show "tm x < tm y" by simp
  qed
  have "tm x < tm (hd b)" if b: "b \<in> set (batches tm ?r)" for b
  proof -
    have "b \<noteq> []" using 2(1) [OF srt] b unfolding good_batches_def uniform_def by blast
    then have "hd b \<in> set (concat (batches tm ?r))" unfolding set_concat using b hd_in_set [of b] by blast
    then show ?thesis using gt by (simp add: concat_batches)
  qed
  moreover have "\<forall>y\<in>set (takeWhile (\<lambda>y. tm y = tm x) xs). tm y = tm x"
    by (auto dest: set_takeWhileD)
  then have "uniform tm (x # takeWhile (\<lambda>y. tm y = tm x) xs)"
    unfolding uniform_def list.sel set_simps by blast
  ultimately show ?case
    unfolding batches.simps good_batches_Cons list.sel using 2(1) [OF srt] by blast
qed

section \<open>The meaning of a batch fold\<close>

text \<open>Who is still open after a set of events, forgetting the horizon.\<close>

definition survivors :: "('ent, 'pl) act set \<Rightarrow> ('ent \<times> 'pl) set" where
  "survivors A = {(e, p). \<exists>t. Open e p t \<in> A \<and> (\<forall>e' p' t'. Open e' p' t' \<in> A \<longrightarrow> t' \<le> t)
     \<and> (\<forall>q u. Close e q u \<in> A \<longrightarrow> u < t)}"

definition opens_in :: "('ent, 'pl) act set \<Rightarrow> ('ent \<times> 'pl) set" where
  "opens_in A = {(e, p). \<exists>t. Open e p t \<in> A}"

definition closes_in :: "('ent, 'pl) act set \<Rightarrow> 'ent set" where
  "closes_in A = {e. \<exists>q u. Close e q u \<in> A}"

lemma survivors_batch:
  assumes A: "\<forall>a\<in>A. act_time a < t" and B: "\<forall>b\<in>B. act_time b = t"
  shows "survivors (A \<union> B) =
    {c \<in> (if opens_in B = {} then survivors A else opens_in B). fst c \<notin> closes_in B}"
proof (cases "opens_in B = {}")
  case True
  have no: "Open e p u \<notin> B" for e p u using True by (auto simp: opens_in_def)
  have "(e, p) \<in> survivors (A \<union> B) \<longleftrightarrow> (e, p) \<in> survivors A \<and> e \<notin> closes_in B" for e p
  proof
    assume "(e, p) \<in> survivors (A \<union> B)"
    then obtain u where u: "Open e p u \<in> A" "\<forall>e' p' t'. Open e' p' t' \<in> A \<longrightarrow> t' \<le> u"
      "\<forall>q v. Close e q v \<in> A \<union> B \<longrightarrow> v < u" using no by (auto simp: survivors_def)
    have "u < t" using A u(1) by fastforce
    then have "e \<notin> closes_in B" using u(3) B by (fastforce simp: closes_in_def)
    then show "(e, p) \<in> survivors A \<and> e \<notin> closes_in B" using u by (auto simp: survivors_def)
  next
    assume "(e, p) \<in> survivors A \<and> e \<notin> closes_in B"
    then show "(e, p) \<in> survivors (A \<union> B)" using no by (fastforce simp: survivors_def closes_in_def)
  qed
  then show ?thesis using True by auto
next
  case False
  then obtain e0 p0 where e0: "Open e0 p0 t \<in> B" using B by (fastforce simp: opens_in_def)
  have "(e, p) \<in> survivors (A \<union> B) \<longleftrightarrow> (e, p) \<in> opens_in B \<and> e \<notin> closes_in B" for e p
  proof
    assume "(e, p) \<in> survivors (A \<union> B)"
    then obtain u where u: "Open e p u \<in> A \<union> B" "t \<le> u" "\<forall>q v. Close e q v \<in> A \<union> B \<longrightarrow> v < u"
      using e0 by (auto simp: survivors_def)
    have "Open e p u \<in> B" using u(1,2) A by fastforce
    moreover have "u = t" using calculation B by fastforce
    ultimately show "(e, p) \<in> opens_in B \<and> e \<notin> closes_in B"
      using u(3) B by (fastforce simp: opens_in_def closes_in_def)
  next
    assume h: "(e, p) \<in> opens_in B \<and> e \<notin> closes_in B"
    then have "Open e p t \<in> B" using B by (fastforce simp: opens_in_def)
    moreover have "t' \<le> t" if "Open e' p' t' \<in> A \<union> B" for e' p' t' using that A B by fastforce
    moreover have "v < t" if "Close e q v \<in> A \<union> B" for q v
      using that h A by (fastforce simp: closes_in_def)
    ultimately show "(e, p) \<in> survivors (A \<union> B)" unfolding survivors_def by blast
  qed
  then show ?thesis using False by auto
qed

text \<open>With a horizon: the survivors, while the deadline of the latest opening has not passed.\<close>

lemma holds_at_survivors:
  assumes "\<forall>a\<in>A. act_time a \<le> T"
    and "\<And>e p t. Open e p t \<in> A \<Longrightarrow> (\<forall>e' p' t'. Open e' p' t' \<in> A \<longrightarrow> t' \<le> t) \<Longrightarrow> d = t + L"
  shows "holds_at L T A e p \<longleftrightarrow> (e, p) \<in> survivors A \<and> T \<le> d"
proof -
  have le: "Open e' p' t' \<in> A \<Longrightarrow> t' \<le> T" "Close e' p' t' \<in> A \<Longrightarrow> t' \<le> T" for e' p' t'
    using assms(1) by fastforce+
  show ?thesis
  proof
    assume "holds_at L T A e p"
    then obtain t where t: "Open e p t \<in> A" "T \<le> t + L"
      "\<forall>e' p' t'. Open e' p' t' \<in> A \<longrightarrow> t' \<le> t" "\<forall>q u. Close e q u \<in> A \<longrightarrow> \<not> t \<le> u"
      unfolding holds_at_def using le by blast
    then show "(e, p) \<in> survivors A \<and> T \<le> d"
      using assms(2) [OF t(1,3)] by (auto simp: survivors_def not_le)
  next
    assume h: "(e, p) \<in> survivors A \<and> T \<le> d"
    then obtain t where t: "Open e p t \<in> A" "\<forall>e' p' t'. Open e' p' t' \<in> A \<longrightarrow> t' \<le> t"
      "\<forall>q u. Close e q u \<in> A \<longrightarrow> u < t" by (auto simp: survivors_def)
    then show "holds_at L T A e p"
      using assms(2) [OF t(1,2)] le h unfolding holds_at_def by (metis leD)
  qed
qed

lemma holds_at_upto: "holds_at L T {a \<in> A. act_time a \<le> T} e p = holds_at L T A e p"
  unfolding holds_at_def mem_Collect_eq act.sel by blast

text \<open>The actions a list of events stands for.\<close>

definition acts_of :: "('e \<Rightarrow> ('ent, 'pl) act option) \<Rightarrow> 'e set \<Rightarrow> ('ent, 'pl) act set" where
  "acts_of act E = {a. \<exists>x\<in>E. act x = Some a}"

lemma acts_of_Un: "acts_of act (E \<union> F) = acts_of act E \<union> acts_of act F"
  by (auto simp: acts_of_def)

text \<open>
  The interface: a step over the batches whose candidates (read as pairs) are replaced by the
  openings of a batch, when there are any, and lose what the batch closes.
\<close>

locale batch_fold =
  fixes tm :: "'e \<Rightarrow> time"
    and act :: "'e \<Rightarrow> ('ent, 'pl) act option"
    and step :: "duration \<Rightarrow> 'e list \<Rightarrow> 's \<Rightarrow> 's"
    and cs :: "'s \<Rightarrow> ('ent \<times> 'pl) set"
    and dl :: "'s \<Rightarrow> time"
  assumes act_tm: "act x = Some a \<Longrightarrow> act_time a = tm x"
    and cs_step: "cs (step L b s) =
      {c \<in> (if opens_in (acts_of act (set b)) = {} then cs s else opens_in (acts_of act (set b))).
         fst c \<notin> closes_in (acts_of act (set b))}"
    and dl_step: "dl (step L b s) =
      (if opens_in (acts_of act (set b)) = {} then dl s else tm (hd b) + L)"
begin

abbreviation acts :: "'e list \<Rightarrow> ('ent, 'pl) act set" where
  "acts xs \<equiv> acts_of act (set xs)"

lemma fold_batches:
  assumes "good_batches tm bs" "cs s0 = {}"
  shows "cs (fold (step L) bs s0) = survivors (acts (concat bs))
    \<and> (\<forall>e p t. Open e p t \<in> acts (concat bs) \<longrightarrow> (\<forall>e' p' t'. Open e' p' t' \<in> acts (concat bs) \<longrightarrow> t' \<le> t)
         \<longrightarrow> dl (fold (step L) bs s0) = t + L)"
  using assms(1)
proof (induction bs rule: rev_induct)
  case Nil
  show ?case using assms(2) by (simp add: survivors_def acts_of_def)
next
  case (snoc b bs)
  let ?A = "acts (concat bs)" and ?B = "acts b" and ?t = "tm (hd b)"
  have good: "good_batches tm bs" and b: "uniform tm b"
    and lt: "\<forall>b'\<in>set bs. \<forall>x\<in>set b'. tm x < ?t"
    using good_batches_snoc [OF snoc.prems] by simp_all
  have A: "\<forall>a\<in>?A. act_time a < ?t" using lt by (auto simp: acts_of_def act_tm)
  have B: "\<forall>a\<in>?B. act_time a = ?t" using uniformD [OF b] by (auto simp: acts_of_def act_tm)
  have AB: "acts (concat (bs @ [b])) = ?A \<union> ?B" by (simp add: acts_of_Un)
  note IH = snoc.IH [OF good]
  have cs: "cs (fold (step L) (bs @ [b]) s0) = survivors (?A \<union> ?B)"
    unfolding survivors_batch [OF A B] using IH by (simp add: cs_step)
  have dl: "dl (fold (step L) (bs @ [b]) s0) = t + L"
    if o: "Open e p t \<in> ?A \<union> ?B" and max: "\<forall>e' p' t'. Open e' p' t' \<in> ?A \<union> ?B \<longrightarrow> t' \<le> t" for e p t
  proof (cases "opens_in ?B = {}")
    case True
    then have "Open e p t \<in> ?A" using o by (auto simp: opens_in_def)
    then show ?thesis using True IH max by (auto simp: dl_step)
  next
    case False
    then obtain e' p' where "Open e' p' ?t \<in> ?B" using B by (fastforce simp: opens_in_def)
    then have "?t \<le> t" using max by blast
    moreover have "t \<le> ?t" using o A B by fastforce
    ultimately show ?thesis using False by (simp add: dl_step)
  qed
  show ?case unfolding AB using cs dl by blast
qed

lemma fold_holders:
  assumes "cs s0 = {}" "\<forall>x\<in>set xs. tm x \<le> T"
  shows "holds_at L T (acts xs) e p \<longleftrightarrow>
    (e, p) \<in> cs (fold (step L) (batches tm (sort_key tm xs)) s0)
    \<and> T \<le> dl (fold (step L) (batches tm (sort_key tm xs)) s0)"
proof -
  have g: "good_batches tm (batches tm (sort_key tm xs))" by (rule batches_good) simp
  have c: "acts (concat (batches tm (sort_key tm xs))) = acts xs" by (simp add: concat_batches)
  have "\<forall>a\<in>acts xs. act_time a \<le> T" using assms(2) by (auto simp: acts_of_def act_tm)
  then show ?thesis
    using fold_batches [OF g assms(1), of L] unfolding c
    by (subst holds_at_survivors [where d = "dl (fold (step L) (batches tm (sort_key tm xs)) s0)"]) auto
qed

end

section \<open>The two joins as batch folds\<close>

definition tr_dhcp_act :: "dhcpEvent \<Rightarrow> (string, unit) act option" where
  "tr_dhcp_act e =
     (if de_EventID e = 10 \<or> de_EventID e = 11 then Some (Open (de_MACToken e) () (de_Time e))
      else if de_EventID e = 12 then Some (Close (de_MACToken e) () (de_Time e)) else None)"

definition tr_radius_act :: "radiusEvent \<Rightarrow> (string, string) act option" where
  "tr_radius_act e =
     (if re_AcctStatus e = ''Start'' \<or> re_AcctStatus e = ''Interim-Update''
        then Some (Open (re_SessionID e) (re_UserToken e) (re_Time e))
      else if re_AcctStatus e = ''Stop''
        then Some (Close (re_SessionID e) (re_UserToken e) (re_Time e)) else None)"

definition dhcp_cs :: "string set \<times> time \<Rightarrow> (string \<times> unit) set" where
  "dhcp_cs s = (\<lambda>m. (m, ())) ` fst s"

definition radius_cs :: "radiusCand set \<times> time \<Rightarrow> (string \<times> string) set" where
  "radius_cs s = (\<lambda>c. (rc_sessionID c, rc_userToken c)) ` fst s"

lemma dhcp_batch_sets:
  "opens_in (acts_of tr_dhcp_act (set b)) =
     (\<lambda>m. (m, ())) ` set (map de_MACToken (filter (\<lambda>e. de_EventID e = 10 \<or> de_EventID e = 11) b))"
  "closes_in (acts_of tr_dhcp_act (set b)) = set (map de_MACToken (filter (\<lambda>e. de_EventID e = 12) b))"
  by (auto simp: opens_in_def closes_in_def acts_of_def tr_dhcp_act_def image_iff split: if_splits) force+

lemma radius_batch_sets:
  "opens_in (acts_of tr_radius_act (set b)) =
     (\<lambda>c. (rc_sessionID c, rc_userToken c)) `
       set (map (\<lambda>e. \<lparr>rc_sessionID = re_SessionID e, rc_userToken = re_UserToken e\<rparr>)
         (filter (\<lambda>e. re_AcctStatus e = ''Start'' \<or> re_AcctStatus e = ''Interim-Update'') b))"
  "closes_in (acts_of tr_radius_act (set b)) =
     set (map re_SessionID (filter (\<lambda>e. re_AcctStatus e = ''Stop'') b))"
  by (auto simp: opens_in_def closes_in_def acts_of_def tr_radius_act_def image_iff split: if_splits) force+

interpretation dj: batch_fold de_Time tr_dhcp_act dhcp_batch dhcp_cs snd
proof
  show "tr_dhcp_act x = Some a \<Longrightarrow> act_time a = de_Time x" for x a
    by (auto simp: tr_dhcp_act_def split: if_splits)
  show "dhcp_cs (dhcp_batch L b s) =
      {c \<in> (if opens_in (acts_of tr_dhcp_act (set b)) = {} then dhcp_cs s else opens_in (acts_of tr_dhcp_act (set b))).
         fst c \<notin> closes_in (acts_of tr_dhcp_act (set b))}" for L b s
    unfolding dhcp_batch_sets by (auto simp: dhcp_batch_def dhcp_cs_def Let_def split: prod.splits)
  show "snd (dhcp_batch L b s) =
      (if opens_in (acts_of tr_dhcp_act (set b)) = {} then snd s else de_Time (hd b) + L)" for L b s
    unfolding dhcp_batch_sets by (auto simp: dhcp_batch_def Let_def split: prod.splits)
qed

interpretation rj: batch_fold re_Time tr_radius_act radius_batch radius_cs snd
proof
  show "tr_radius_act x = Some a \<Longrightarrow> act_time a = re_Time x" for x a
    by (auto simp: tr_radius_act_def split: if_splits)
  show "radius_cs (radius_batch L b s) =
      {c \<in> (if opens_in (acts_of tr_radius_act (set b)) = {} then radius_cs s else opens_in (acts_of tr_radius_act (set b))).
         fst c \<notin> closes_in (acts_of tr_radius_act (set b))}" for L b s
    unfolding radius_batch_sets by (auto simp: radius_batch_def radius_cs_def Let_def split: prod.splits)
  show "snd (radius_batch L b s) =
      (if opens_in (acts_of tr_radius_act (set b)) = {} then snd s else re_Time (hd b) + L)" for L b s
    unfolding radius_batch_sets by (auto simp: radius_batch_def Let_def split: prod.splits)
qed

section \<open>Who the evidence names\<close>

definition trace_lessees :: "duration \<Rightarrow> time \<Rightarrow> dhcpEvent list \<Rightarrow> string \<Rightarrow> string set" where
  "trace_lessees L T events ip =
     {m. holds_at L T (acts_of tr_dhcp_act {e \<in> set events. de_IP e = ip \<and> de_MACToken e \<noteq> ''''}) m ()}"

definition trace_sessions :: "duration \<Rightarrow> time \<Rightarrow> radiusEvent list \<Rightarrow> string \<Rightarrow> (string \<times> string) set" where
  "trace_sessions S T events mac =
     {(sid, u). holds_at S T (acts_of tr_radius_act {e \<in> set events. re_MACToken e = mac \<and> re_MACToken e \<noteq> ''''}) sid u}"

lemma acts_of_upto:
  assumes "\<And>x a. act x = Some a \<Longrightarrow> act_time a = tm x"
  shows "acts_of act {x \<in> E. P x \<and> \<not> T < tm x} = {a \<in> acts_of act {x \<in> E. P x}. act_time a \<le> T}"
  using assms by (auto simp: acts_of_def not_less)

lemma holds_at_acts_upto:
  assumes "\<And>x a. act x = Some a \<Longrightarrow> act_time a = tm x"
  shows "holds_at L T (acts_of act {x \<in> E. P x \<and> \<not> T < tm x}) e p
    = holds_at L T (acts_of act {x \<in> E. P x}) e p"
proof -
  have "acts_of act {x \<in> E. P x \<and> \<not> T < tm x} = {a \<in> acts_of act {x \<in> E. P x}. act_time a \<le> T}"
    by (rule acts_of_upto) (rule assms)
  then show ?thesis by (simp only: holds_at_upto)
qed

definition dhcp_cands where
  "dhcp_cands events ip T L = fold (dhcp_batch L)
     (batches de_Time (sort_key de_Time
        (filter (\<lambda>e. de_IP e = ip \<and> de_MACToken e \<noteq> '''' \<and> \<not> T < de_Time e) events))) ({}, zeroTime)"

definition radius_cands where
  "radius_cands events mac T S = fold (radius_batch S)
     (batches re_Time (sort_key re_Time
        (filter (\<lambda>e. re_MACToken e = mac \<and> re_MACToken e \<noteq> '''' \<and> \<not> T < re_Time e) events))) ({}, zeroTime)"

lemma finite_dhcp_cands: "finite (fst (dhcp_cands events ip T L))"
proof -
  have "finite (fst st) \<Longrightarrow> finite (fst (fold (dhcp_batch L) bs st))" for bs st
    by (induction bs arbitrary: st) (auto simp: dhcp_batch_def Let_def split: prod.splits)
  then show ?thesis by (simp add: dhcp_cands_def)
qed

lemma finite_radius_cands: "finite (fst (radius_cands events mac T S))"
proof -
  have "finite (fst st) \<Longrightarrow> finite (fst (fold (radius_batch S) bs st))" for bs st
    by (induction bs arbitrary: st) (auto simp: radius_batch_def Let_def split: prod.splits)
  then show ?thesis by (simp add: radius_cands_def)
qed

lemma trace_lessees_cands:
  "trace_lessees L T events ip =
     (if T \<le> snd (dhcp_cands events ip T L) then fst (dhcp_cands events ip T L) else {})"
proof -
  let ?f = "filter (\<lambda>e. de_IP e = ip \<and> de_MACToken e \<noteq> '''' \<and> \<not> T < de_Time e) events"
  have "holds_at L T (acts_of tr_dhcp_act {e \<in> set events. de_IP e = ip \<and> de_MACToken e \<noteq> ''''}) m ()
      \<longleftrightarrow> holds_at L T (acts_of tr_dhcp_act (set ?f)) m ()" for m
    using holds_at_acts_upto [of tr_dhcp_act de_Time L T "set events"
        "\<lambda>e. de_IP e = ip \<and> de_MACToken e \<noteq> ''''", OF dj.act_tm] by (simp add: conj_assoc)
  moreover have "holds_at L T (acts_of tr_dhcp_act (set ?f)) m ()
      \<longleftrightarrow> m \<in> fst (dhcp_cands events ip T L) \<and> T \<le> snd (dhcp_cands events ip T L)" for m
    using dj.fold_holders [of "({}, zeroTime)" ?f T L m "()"]
    by (auto simp: dhcp_cands_def dhcp_cs_def)
  ultimately show ?thesis by (auto simp: trace_lessees_def)
qed

lemma trace_sessions_cands:
  "trace_sessions S T events mac =
     (if T \<le> snd (radius_cands events mac T S)
      then (\<lambda>c. (rc_sessionID c, rc_userToken c)) ` fst (radius_cands events mac T S) else {})"
proof -
  let ?f = "filter (\<lambda>e. re_MACToken e = mac \<and> re_MACToken e \<noteq> '''' \<and> \<not> T < re_Time e) events"
  have "holds_at S T (acts_of tr_radius_act {e \<in> set events. re_MACToken e = mac \<and> re_MACToken e \<noteq> ''''}) sid u
      \<longleftrightarrow> holds_at S T (acts_of tr_radius_act (set ?f)) sid u" for sid u
    using holds_at_acts_upto [of tr_radius_act re_Time S T "set events"
        "\<lambda>e. re_MACToken e = mac \<and> re_MACToken e \<noteq> ''''", OF rj.act_tm] by (simp add: conj_assoc)
  moreover have "holds_at S T (acts_of tr_radius_act (set ?f)) sid u
      \<longleftrightarrow> (sid, u) \<in> radius_cs (radius_cands events mac T S) \<and> T \<le> snd (radius_cands events mac T S)" for sid u
    using rj.fold_holders [of "({}, zeroTime)" ?f T S sid u]
    by (simp add: radius_cands_def) (auto simp: radius_cs_def)
  ultimately show ?thesis by (auto simp: trace_sessions_def radius_cs_def)
qed

lemma card_gt_1_iff: "finite A \<Longrightarrow> 1 < card A \<longleftrightarrow> (\<exists>x\<in>A. \<exists>y\<in>A. x \<noteq> y)"
  using card_le_Suc0_iff_eq [of A] by (auto simp: not_less [symmetric])

lemma one_elem: "finite A \<Longrightarrow> card A \<noteq> 0 \<Longrightarrow> \<not> 1 < card A \<Longrightarrow> \<exists>x. A = {x}"
  by (metis One_nat_def card_1_singletonE less_one linorder_neqE_nat)

text \<open>The lease join: one holder, several, or none.\<close>

lemma dhcp_join:
  "dhcpBindingAt events ip T L =
     (if trace_lessees L T events ip = {} then ('''', False)
      else if \<exists>m\<in>trace_lessees L T events ip. \<exists>m'\<in>trace_lessees L T events ip. m \<noteq> m' then ('''', True)
      else (the_elem (trace_lessees L T events ip), False))"
proof -
  obtain C d where C: "dhcp_cands events ip T L = (C, d)" by fastforce
  have fin: "finite C" using finite_dhcp_cands [of events ip T L] C by simp
  show ?thesis
    unfolding dhcpBindingAt_def Let_def dhcp_cands_def [symmetric] trace_lessees_cands C split fst_conv snd_conv
      card_gt_1_iff [OF fin] card_0_eq [OF fin]
    by simp
qed

text \<open>The session join, where the candidate is a session with its user.\<close>

lemma radius_join:
  "radiusBindingAt events mac T S =
     (if trace_sessions S T events mac = {} then ('''', False)
      else if \<exists>c\<in>trace_sessions S T events mac. \<exists>c'\<in>trace_sessions S T events mac. c \<noteq> c' then ('''', True)
      else (snd (the_elem (trace_sessions S T events mac)), False))"
proof -
  obtain C d where C: "radius_cands events mac T S = (C, d)" by fastforce
  have fin: "finite C" using finite_radius_cands [of events mac T S] C by simp
  let ?g = "\<lambda>c. (rc_sessionID c, rc_userToken c)"
  have inj: "inj_on ?g C" by (auto intro!: inj_onI)
  have amb: "1 < card (rc_sessionID ` C) \<or> 1 < card (rc_userToken ` C)
      \<longleftrightarrow> (\<exists>x\<in>?g ` C. \<exists>y\<in>?g ` C. x \<noteq> y)"
    unfolding card_gt_1_iff [OF finite_imageI [OF fin]] by auto
  have el: "the_elem (rc_userToken ` C) = snd (the_elem (?g ` C))"
    if ne: "C \<noteq> {}" and na: "\<not> (\<exists>x\<in>?g ` C. \<exists>y\<in>?g ` C. x \<noteq> y)"
  proof -
    obtain c where c: "c \<in> C" using ne by blast
    then have "C = {c}" using na by (auto intro: inj_onD [OF inj])
    then show ?thesis by simp
  qed
  note unf = radiusBindingAt_def Let_def radius_cands_def [symmetric] trace_sessions_cands C split
    fst_conv snd_conv amb card_0_eq [OF fin]
  show ?thesis
  proof (cases "C = {} \<or> d < T")
    case True
    then have e: "(if T \<le> d then ?g ` C else {}) = {}" by auto
    show ?thesis unfolding unf if_P [OF True] e by simp
  next
    case False
    then have F: "C \<noteq> {}" "T \<le> d" "\<not> d < T" "?g ` C \<noteq> {}" by auto
    show ?thesis
    proof (cases "\<exists>x\<in>?g ` C. \<exists>y\<in>?g ` C. x \<noteq> y")
      case True
      show ?thesis unfolding unf if_P [OF True] if_P [OF F(2)] by (simp only: F simp_thms if_True if_False)
    next
      case na: False
      show ?thesis unfolding unf if_not_P [OF na] if_P [OF F(2)] el [OF F(1) na] by (simp only: F simp_thms if_True if_False)
    qed
  qed
qed

text \<open>C13. The forensic joins answer from the evidence alone. The lease join names a device when it is the
  only one the events say holds the address, says "ambiguous" when the events name two or more and
  "unknown" when they name none; the session join names a user when exactly one session with one user
  token holds the device, says "ambiguous" when two sessions do or one session is reported with two
  users, and "unknown" when none does. No assumption on the order of the events is made.\<close>

theorem trace_joins_meaning:
  "dhcpBindingAt events ip T L =
     (if trace_lessees L T events ip = {} then ('''', False)
      else if \<exists>m\<in>trace_lessees L T events ip. \<exists>m'\<in>trace_lessees L T events ip. m \<noteq> m' then ('''', True)
      else (the_elem (trace_lessees L T events ip), False))
   \<and> radiusBindingAt sessions mac T' S =
     (if trace_sessions S T' sessions mac = {} then ('''', False)
      else if \<exists>c\<in>trace_sessions S T' sessions mac. \<exists>c'\<in>trace_sessions S T' sessions mac. c \<noteq> c' then ('''', True)
      else (snd (the_elem (trace_sessions S T' sessions mac)), False))"
  by (rule conjI [OF dhcp_join radius_join])

text \<open>The forensic answer does not depend on the order the rows came in: two logs with the
  same rows, in any order, give the same device, the same user and the same ambiguity.\<close>

theorem trace_order_irrelevant:
  assumes "mset ds = mset ds'" "mset rs = mset rs'"
  shows "dhcpBindingAt ds ip T L = dhcpBindingAt ds' ip T L
    \<and> radiusBindingAt rs mac T S = radiusBindingAt rs' mac T S"
proof -
  have "trace_lessees L T ds ip = trace_lessees L T ds' ip"
    unfolding trace_lessees_def mset_eq_setD [OF assms(1)] ..
  moreover have "trace_sessions S T rs mac = trace_sessions S T rs' mac"
    unfolding trace_sessions_def mset_eq_setD [OF assms(2)] ..
  ultimately show ?thesis by (simp only: dhcp_join radius_join simp_thms)
qed

definition tr_dhcp :: "uint16 \<Rightarrow> string \<Rightarrow> string \<Rightarrow> time \<Rightarrow> dhcpEvent" where
  "tr_dhcp i ip mac t = \<lparr>de_Time = t, de_EventID = i, de_IP = ip, de_MACToken = mac\<rparr>"

definition tr_radius :: "string \<Rightarrow> string \<Rightarrow> string \<Rightarrow> string \<Rightarrow> time \<Rightarrow> radiusEvent" where
  "tr_radius st sid user mac t =
     \<lparr>re_Time = t, re_AcctStatus = st, re_SessionID = sid, re_UserToken = user, re_MACToken = mac\<rparr>"

theorem trace_order_irrelevant_witness:
  "let a = tr_dhcp 10 ''ip'' ''m1'' 5; b = tr_dhcp 10 ''ip'' ''m2'' 5
   in dhcpBindingAt [a, b] ''ip'' 9 100 = dhcpBindingAt [b, a] ''ip'' 9 100
      \<and> dhcpBindingAt [b, a] ''ip'' 9 100 = ('''', True)"
proof -
  let ?a = "tr_dhcp 10 ''ip'' ''m1'' 5" and ?b = "tr_dhcp 10 ''ip'' ''m2'' 5"
  have "mset [?a, ?b] = mset [?b, ?a]" by simp
  from trace_order_irrelevant [OF this refl] have
    "dhcpBindingAt [?a, ?b] ''ip'' 9 100 = dhcpBindingAt [?b, ?a] ''ip'' 9 100" by blast
  moreover have "dhcpBindingAt [?b, ?a] ''ip'' 9 100 = ('''', True)" by code_simp
  ultimately show ?thesis unfolding Let_def by blast
qed

section \<open>The forensic and the live answer\<close>

text \<open>The rows of the two event tables that the identity events of a log become.\<close>

definition to_dhcp_row :: "DhcpEvent \<Rightarrow> dhcpEvent" where
  "to_dhcp_row e = \<lparr>de_Time = dh_EventTime e, de_EventID = dh_EventID e, de_IP = dh_IP e, de_MACToken = dh_MACToken e\<rparr>"

definition to_radius_row :: "RadiusEvent \<Rightarrow> radiusEvent" where
  "to_radius_row e = \<lparr>re_Time = ra_EventTime e, re_AcctStatus = ra_AcctStatus e,
     re_SessionID = ra_SessionID e, re_UserToken = ra_UserToken e, re_MACToken = ra_MACToken e\<rparr>"

primrec dhcp_rows :: "identity_event list \<Rightarrow> dhcpEvent list" where
  "dhcp_rows [] = []"
| "dhcp_rows (x # xs) = (case x of Dhcp e \<Rightarrow> to_dhcp_row e # dhcp_rows xs | Radius e \<Rightarrow> dhcp_rows xs)"

primrec radius_rows :: "identity_event list \<Rightarrow> radiusEvent list" where
  "radius_rows [] = []"
| "radius_rows (x # xs) = (case x of Dhcp e \<Rightarrow> radius_rows xs | Radius e \<Rightarrow> to_radius_row e # radius_rows xs)"

lemma acts_of_single [simp]: "acts_of act {x} = set_option (act x)" "acts_of act {} = {}"
  by (auto simp: acts_of_def)

lemma row_act:
  "dh_MACToken e \<noteq> '''' \<Longrightarrow> tr_dhcp_act (to_dhcp_row e) = dhcp_act e"
  "ra_MACToken f \<noteq> '''' \<Longrightarrow> tr_radius_act (to_radius_row f) = radius_act f"
  "dh_MACToken e = '''' \<Longrightarrow> dhcp_act e = None" "ra_MACToken f = '''' \<Longrightarrow> radius_act f = None"
  by (simp_all add: tr_dhcp_act_def to_dhcp_row_def dhcp_act_def tr_radius_act_def to_radius_row_def radius_act_def)

lemma dhcp_rows_acts:
  "acts_of tr_dhcp_act {e \<in> set (dhcp_rows es). de_IP e = ip \<and> de_MACToken e \<noteq> ''''} = set (ip_acts ip es)"
proof (induction es)
  case Nil
  show ?case by (simp add: acts_of_def)
next
  case (Cons x es)
  show ?case
  proof (cases x)
    case (Dhcp e)
    have "{r \<in> set (dhcp_rows (x # es)). de_IP r = ip \<and> de_MACToken r \<noteq> ''''} =
        (if dh_IP e = ip \<and> dh_MACToken e \<noteq> '''' then {to_dhcp_row e} else {})
        \<union> {r \<in> set (dhcp_rows es). de_IP r = ip \<and> de_MACToken r \<noteq> ''''}"
      using Dhcp by (auto simp: to_dhcp_row_def)
    then have "acts_of tr_dhcp_act {r \<in> set (dhcp_rows (x # es)). de_IP r = ip \<and> de_MACToken r \<noteq> ''''} =
        (if dh_IP e = ip then set_option (dhcp_act e) else {}) \<union> set (ip_acts ip es)"
      using Cons by (simp add: acts_of_Un row_act)
    also have "\<dots> = set (ip_acts ip (x # es))" using Dhcp by (auto split: option.splits)
    finally show ?thesis .
  next
    case (Radius e)
    then show ?thesis using Cons by simp
  qed
qed

lemma radius_rows_acts:
  "acts_of tr_radius_act {e \<in> set (radius_rows es). re_MACToken e = mac \<and> re_MACToken e \<noteq> ''''} = set (mac_acts mac es)"
proof (induction es)
  case Nil
  show ?case by (simp add: acts_of_def)
next
  case (Cons x es)
  show ?case
  proof (cases x)
    case (Radius e)
    have "{r \<in> set (radius_rows (x # es)). re_MACToken r = mac \<and> re_MACToken r \<noteq> ''''} =
        (if ra_MACToken e = mac \<and> ra_MACToken e \<noteq> '''' then {to_radius_row e} else {})
        \<union> {r \<in> set (radius_rows es). re_MACToken r = mac \<and> re_MACToken r \<noteq> ''''}"
      using Radius by (auto simp: to_radius_row_def)
    then have "acts_of tr_radius_act {r \<in> set (radius_rows (x # es)). re_MACToken r = mac \<and> re_MACToken r \<noteq> ''''} =
        (if ra_MACToken e = mac then set_option (radius_act e) else {}) \<union> set (mac_acts mac es)"
      using Cons by (simp add: acts_of_Un row_act)
    also have "\<dots> = set (mac_acts mac (x # es))" using Radius by (auto split: option.splits)
    finally show ?thesis .
  next
    case (Dhcp e)
    then show ?thesis using Cons by simp
  qed
qed

lemma at_most_one:
  assumes "\<And>c. c \<in> A \<longleftrightarrow> v = Some c"
  shows "A = (case v of None \<Rightarrow> {} | Some c \<Rightarrow> {c})"
  using assms by (auto split: option.splits)

text \<open>C12. Live tagging and forensics agree where the evidence is unambiguous: on a log whose events
  come in time order per key, the forensic joins over the stored rows give exactly the device
  and the user the live store answered, and never report ambiguity.\<close>

theorem trace_agrees_with_live:
  assumes "s = identity_run ops (NewIdentityStore tok n d nl dl L S conn)"
    and "sweeps_before T ops" "time_ordered (events_of ops)" "\<forall>e\<in>set (events_of ops). event_time e \<le> T"
    and "Lookup T s ip = (m, u)"
  shows "dhcpBindingAt (dhcp_rows (events_of ops)) ip T L = (m, False)
    \<and> (m \<noteq> '''' \<longrightarrow> radiusBindingAt (radius_rows (events_of ops)) m T S = (u, False))"
proof -
  have wf: "identity_wf L S s" unfolding assms(1) by (intro identity_wf_run identity_wf_new)
  note hold = identity_holders [OF assms(1-4)]
  let ?ip = "slot_holder L T (ip_view s ip)" and ?mac = "\<lambda>m. slot_holder S T (mac_view s m)"
  have l: "trace_lessees L T (dhcp_rows (events_of ops)) ip = (case map_option fst ?ip of None \<Rightarrow> {} | Some c \<Rightarrow> {c})"
    unfolding trace_lessees_def dhcp_rows_acts using hold(1) [symmetric] by (intro at_most_one) auto
  have r: "trace_sessions S T (radius_rows (events_of ops)) m = (case ?mac m of None \<Rightarrow> {} | Some c \<Rightarrow> {c})" for m
    unfolding trace_sessions_def radius_rows_acts using hold(2) [symmetric] by (intro at_most_one) auto
  have "m = '''' \<and> ?ip = None \<or> ?ip = Some (m, ()) \<and>
      u = (case ?mac m of None \<Rightarrow> '''' | Some c \<Rightarrow> snd c)"
    using assms(5) unfolding Lookup_slots [OF wf] by (auto split: option.splits prod.splits)
  then show ?thesis
    unfolding dhcp_join radius_join l r by (auto split: option.splits)
qed

theorem trace_agrees_with_live_witness:
  "Lookup 50 (identity_run ex_ops ex_store) ''ip2'' = (''m1'', ''u'')
   \<and> dhcpBindingAt (dhcp_rows (events_of ex_ops)) ''ip2'' 50 100 = (''m1'', False)
   \<and> radiusBindingAt (radius_rows (events_of ex_ops)) ''m1'' 50 100 = (''u'', False)"
proof -
  have l: "Lookup 50 (identity_run ex_ops ex_store) ''ip2'' = (''m1'', ''u'')" by code_simp
  have "time_ordered (events_of ex_ops)"
    by (rule time_ordered_sorted) (simp add: ex_ops_def dhcp_ev_def radius_ev_def)
  moreover have "sweeps_before 50 ex_ops" by (simp add: ex_ops_def)
  moreover have "\<forall>e\<in>set (events_of ex_ops). event_time e \<le> 50"
    by (simp add: ex_ops_def dhcp_ev_def radius_ev_def)
  ultimately show ?thesis
    using trace_agrees_with_live [of "identity_run ex_ops ex_store" ex_ops, OF _ _ _ _ _, unfolded ex_store_def]
      l unfolding ex_store_def by blast
qed

end
