(* ===== verification/GoRegexp.thy ===== *)
theory GoRegexp
  imports GoStrings
begin

text \<open>
  The fragment of Go's \<open>regexp\<close> the BIND parser uses: sequences of literals, character classes
  with greedy or lazy repetition, optional groups, an alternation of literals and captures.
  Matching is leftmost-first, the order in which a backtracking matcher tries alternatives,
  which is what \<open>regexp\<close> documents for \<open>MustCompile\<close>.
\<close>

datatype rx =
    Cls "char \<Rightarrow> bool"
  | Rep "char \<Rightarrow> bool" nat bool
  | Opt "rx list"
  | Alt "string list"
  | Begin
  | End

text \<open>Class \<open>\s\<close> of the package: tab, newline, form feed, carriage return, space.\<close>

definition reSpace :: "char \<Rightarrow> bool" where
  "reSpace c \<longleftrightarrow> c = CHR '' '' \<or> c = CHR 0x09 \<or> c = CHR 0x0A \<or> c = CHR 0x0C \<or> c = CHR 0x0D"

abbreviation lit :: "string \<Rightarrow> rx list" where "lit s \<equiv> map (\<lambda>c. Cls (\<lambda>d. d = c)) s"
abbreviation spaces1 :: rx where "spaces1 \<equiv> Rep reSpace 1 True"
abbreviation spaces0 :: rx where "spaces0 \<equiv> Rep reSpace 0 True"
abbreviation nonspaces1 :: rx where "nonspaces1 \<equiv> Rep (\<lambda>c. \<not> reSpace c) 1 True"

text \<open>How many characters a repetition may take, in the order they are tried.\<close>

definition rep_counts :: "(char \<Rightarrow> bool) \<Rightarrow> nat \<Rightarrow> bool \<Rightarrow> string \<Rightarrow> nat list" where
  "rep_counts P lo greedy s =
     (let ns = [lo ..< Suc (length (takeWhile P s))] in if greedy then rev ns else ns)"

fun first_some :: "('a \<Rightarrow> 'b option) \<Rightarrow> 'a list \<Rightarrow> 'b option" where
  "first_some f [] = None"
| "first_some f (x # xs) = (case f x of Some y \<Rightarrow> Some y | None \<Rightarrow> first_some f xs)"

lemma first_some_cong [fundef_cong]:
  "xs = ys \<Longrightarrow> (\<And>x. x \<in> set ys \<Longrightarrow> f x = g x) \<Longrightarrow> first_some f xs = first_some g ys"
  by (induction xs arbitrary: ys) (auto split: option.splits)

lemma first_some_Some: "first_some f xs = Some y \<Longrightarrow> \<exists>x\<in>set xs. f x = Some y"
  by (induction xs) (auto split: option.splits)

fun rx_weight :: "rx \<Rightarrow> nat" and rxs_weight :: "rx list \<Rightarrow> nat" where
  "rx_weight (Opt xs) = Suc (rxs_weight xs)"
| "rx_weight _ = 1"
| "rxs_weight [] = 0"
| "rxs_weight (x # xs) = rx_weight x + rxs_weight xs"

lemma rxs_weight_append [simp]: "rxs_weight (xs @ ys) = rxs_weight xs + rxs_weight ys"
  by (induction xs) simp_all

lemma rx_weight_pos [simp]: "0 < rx_weight x"
  by (cases x) simp_all

text \<open>
  \<open>rmatch items s start caps\<close>: match the items at the front of \<open>s\<close>. \<open>start\<close> is the text at the
  last \<open>Begin\<close>; the result is the captures, in order, and what is left.
\<close>

function rmatch :: "rx list \<Rightarrow> string \<Rightarrow> string \<Rightarrow> string list \<Rightarrow> (string list \<times> string) option" where
  "rmatch [] s start caps = Some (caps, s)"
| "rmatch (Cls P # r) s start caps =
     (case s of [] \<Rightarrow> None | c # cs \<Rightarrow> if P c then rmatch r cs start caps else None)"
| "rmatch (Rep P lo greedy # r) s start caps =
     first_some (\<lambda>n. rmatch r (drop n s) start caps) (rep_counts P lo greedy s)"
| "rmatch (Opt xs # r) s start caps =
     (case rmatch (xs @ r) s start caps of Some m \<Rightarrow> Some m | None \<Rightarrow> rmatch r s start caps)"
| "rmatch (Alt ws # r) s start caps =
     first_some (\<lambda>w. if hasPrefix s w then rmatch r (drop (length w) s) start caps else None) ws"
| "rmatch (Begin # r) s start caps = rmatch r s s caps"
| "rmatch (End # r) s start caps = rmatch r s start (caps @ [take (length start - length s) start])"
  by pat_completeness auto
termination
  by (relation "measure (\<lambda>(items, s, start, caps). rxs_weight items)") auto

text \<open>\<open>FindStringSubmatch\<close>: the leftmost position with a match; captures and the rest.\<close>

fun find_match :: "rx list \<Rightarrow> string \<Rightarrow> (string list \<times> string) option" where
  "find_match re [] = rmatch re [] [] []"
| "find_match re (c # cs) =
     (case rmatch re (c # cs) (c # cs) [] of Some m \<Rightarrow> Some m | None \<Rightarrow> find_match re cs)"

text \<open>
  \<open>FindAllStringSubmatch\<close> for expressions that only match non-empty text; a match that leaves
  nothing shorter ends the search.
\<close>

function find_all :: "rx list \<Rightarrow> string \<Rightarrow> string list list" where
  "find_all re s =
     (case find_match re s of
        None \<Rightarrow> []
      | Some (caps, r) \<Rightarrow> caps # (if length r < length s then find_all re r else []))"
  by pat_completeness auto
termination
  by (relation "measure (\<lambda>(re, s). length s)") auto

declare find_all.simps [simp del]

lemma rmatch_suffix: "rmatch re s start caps = Some (caps', r) \<Longrightarrow> suffix r s"
proof (induction re s start caps rule: rmatch.induct)
  case (2 P r s start caps)
  then show ?case by (cases s) (auto split: if_splits intro: suffix_ConsI)
next
  case (3 P lo greedy r s start caps)
  then show ?case by (fastforce dest!: first_some_Some intro: suffix_order.trans suffix_drop)
next
  case (5 ws r s start caps)
  then show ?case by (fastforce dest!: first_some_Some split: if_splits intro: suffix_order.trans suffix_drop)
qed (auto split: option.splits)

end
