(* ===== verification/DnsLog.thy ===== *)
theory DnsLog
  imports GoRegexp GoTime Pseudonym
begin

text \<open>
  \<open>dnslog.go\<close>: the BIND resolver-log parser and the event it produces. A line is a query, a
  response with any number of address records, or not ours.
\<close>

record DnsEvent =
  dn_EventTime :: time
  dn_ClientIP :: string
  dn_ClientPort :: uint16
  dn_QName :: string
  dn_QType :: string
  dn_AnswerIP :: string
  dn_TTL :: uint32
  dn_TTLUnknown :: bool

text \<open>\<open>"02-Jan-2006 15:04:05.000"\<close>.\<close>

definition dnsTimeLayout :: "chunk list" where
  "dnsTimeLayout = [Day2, Lit ''-'', MonthName, Lit ''-'', Year4, Lit '' '', Hour2, Lit '':'',
     Minute2, Lit '':'', Second2, Frac0 3]"

text \<open>The prefix the two expressions share, up to the word that follows the parenthesis.\<close>

definition dnsPrefixRe :: "string \<Rightarrow> rx list" where
  "dnsPrefixRe word =
     lit ''client'' @ [spaces1, Opt (lit ''@'' @ [nonspaces1, spaces1]),
       Begin, Rep (\<lambda>c. \<not> reSpace c) 1 False, End] @ lit ''#'' @
     [Begin, Rep isDigit 1 True, End, spaces1] @ lit ''('' @
     [Rep (\<lambda>c. c \<noteq> CHR '')'') 0 True] @ lit ''):'' @ [spaces0] @ lit word @ lit '':'' @
     [spaces1, Begin, nonspaces1, End, spaces1, nonspaces1, spaces1, Begin, nonspaces1, End]"

definition dnsQueryRe :: "rx list" where "dnsQueryRe = dnsPrefixRe ''query''"
definition dnsResponseRe :: "rx list" where "dnsResponseRe = dnsPrefixRe ''response''"

definition dnsAnswerRe :: "rx list" where
  "dnsAnswerRe = [Begin, nonspaces1, End, spaces1, Begin, Rep isDigit 1 True, End, spaces1] @ lit ''IN'' @
     [spaces1, Begin, Alt [''A'', ''AAAA''], End, spaces1, Begin, nonspaces1, End]"

definition parsePort :: "string \<Rightarrow> uint16" where
  "parsePort s = (case parseUint 16 s of None \<Rightarrow> 0 | Some p \<Rightarrow> word_of_int p)"

definition parseDNSTime :: "string \<Rightarrow> location \<Rightarrow> parse_error + time" where
  "parseDNSTime line loc =
     (case indexByte line (CHR '' '') of
        None \<Rightarrow> Inl errMalformedDNS
      | Some i \<Rightarrow>
          (case indexByte (drop (i + 1) line) (CHR '' '') of
             None \<Rightarrow> Inl errMalformedDNS
           | Some j \<Rightarrow>
               (case parseInLocation dnsTimeLayout (take (i + 1 + j) line) loc of
                  None \<Rightarrow> Inl errInvalidTimestamp
                | Some t \<Rightarrow> Inr t)))"

text \<open>One answer record of a response line: \<open>None\<close> when it is skipped.\<close>

definition dns_answer :: "time \<Rightarrow> string \<Rightarrow> uint16 \<Rightarrow> string \<Rightarrow> string list \<Rightarrow> DnsEvent option" where
  "dns_answer ts clientIP clientPort qname a =
     (case parseUint 32 (a ! 1) of
        None \<Rightarrow> None
      | Some ttl \<Rightarrow>
          (case parseIP (a ! 3) of
             None \<Rightarrow> None
           | Some ip \<Rightarrow>
               if a ! 2 = ''A'' \<and> To4 ip = None then None
               else if a ! 2 = ''AAAA'' \<and> To4 ip \<noteq> None then None
               else Some \<lparr>dn_EventTime = ts, dn_ClientIP = clientIP, dn_ClientPort = clientPort,
                 dn_QName = qname, dn_QType = a ! 2, dn_AnswerIP = a ! 3, dn_TTL = word_of_int ttl,
                 dn_TTLUnknown = False\<rparr>))"

definition no_answer :: "time \<Rightarrow> string \<Rightarrow> uint16 \<Rightarrow> string \<Rightarrow> string \<Rightarrow> DnsEvent" where
  "no_answer ts clientIP clientPort qname qtype =
     \<lparr>dn_EventTime = ts, dn_ClientIP = clientIP, dn_ClientPort = clientPort, dn_QName = qname,
      dn_QType = qtype, dn_AnswerIP = '''', dn_TTL = 0, dn_TTLUnknown = False\<rparr>"

definition parseDNSLine :: "string \<Rightarrow> location \<Rightarrow> parse_error + DnsEvent list" where
  "parseDNSLine line0 loc =
     (let line = trimSpace line0;
          isResponse = contains line '': response: '';
          isQuery = (\<not> isResponse \<and> contains line '': query: '')
      in if line = '''' then Inr []
         else if \<not> isQuery \<and> \<not> isResponse then Inr []
         else case parseDNSTime line loc of
             Inl e \<Rightarrow> Inl e
           | Inr ts \<Rightarrow>
               (case find_match (if isQuery then dnsQueryRe else dnsResponseRe) line of
                  None \<Rightarrow> Inl errMalformedDNS
                | Some (m, _) \<Rightarrow>
                    let qname = normalizeHost (m ! 2) in
                    if qname = '''' then Inl errMalformedDNS
                    else if isQuery then Inr [no_answer ts (m ! 0) (parsePort (m ! 1)) qname (m ! 3)]
                    else let events = List.map_filter (dns_answer ts (m ! 0) (parsePort (m ! 1)) qname)
                                        (find_all dnsAnswerRe line)
                         in if events = [] then Inr [no_answer ts (m ! 0) (parsePort (m ! 1)) qname (m ! 3)]
                            else Inr events))"

section \<open>Lemmas\<close>

text \<open>Every event names a host, and an answer is an address of the record's family.\<close>

definition dns_event_ok :: "DnsEvent \<Rightarrow> bool" where
  "dns_event_ok e \<longleftrightarrow> dn_QName e \<noteq> '''' \<and>
     (dn_AnswerIP e = '''' \<or>
      (\<exists>ip. parseIP (dn_AnswerIP e) = Some ip
        \<and> (dn_QType e = ''A'' \<longrightarrow> To4 ip \<noteq> None) \<and> (dn_QType e = ''AAAA'' \<longrightarrow> To4 ip = None)))"

lemma dns_answer_ok: "dns_answer ts c p q a = Some e \<Longrightarrow> q \<noteq> '''' \<Longrightarrow> dns_event_ok e \<and> dn_QName e = q
    \<and> dn_ClientIP e = c \<and> dn_ClientPort e = p \<and> dn_EventTime e = ts \<and> \<not> dn_TTLUnknown e"
  by (auto simp: dns_answer_def dns_event_ok_def split: option.splits if_splits)

lemma parseDNSLine_skip:
  "parseDNSLine line loc = Inr [] \<longleftrightarrow>
     trimSpace line = '''' \<or> (\<not> contains (trimSpace line) '': response: '' \<and> \<not> contains (trimSpace line) '': query: '')"
  by (auto simp: parseDNSLine_def Let_def split: sum.splits option.splits prod.splits if_splits)

lemma set_map_filter': "y \<in> set (List.map_filter f xs) \<longleftrightarrow> (\<exists>x\<in>set xs. f x = Some y)"
  by (induction xs) (auto simp: map_filter_simps split: option.splits)

end
