(* ===== verification/GoHeap.thy ===== *)
theory GoHeap
  imports Prelude
begin

text \<open>
  Go's \<open>container/heap\<close> on a slice, for a \<open>Less\<close> that puts the greatest \<open>prio\<close> at the root:
  \<open>up\<close>, \<open>down\<close>, \<open>Push\<close> and \<open>Fix\<close> as the package has them, the heap invariant, and what a
  bounded selection with such a heap selects.
\<close>

section \<open>The package\<close>

abbreviation parent :: "nat \<Rightarrow> nat" where "parent i \<equiv> (i - 1) div 2"

definition swapAt :: "'a list \<Rightarrow> nat \<Rightarrow> nat \<Rightarrow> 'a list" where
  "swapAt h i j = h[i := h ! j, j := h ! i]"

text \<open>\<open>Less(i, j)\<close> of a max-heap.\<close>

definition lessAt :: "('a \<Rightarrow> int) \<Rightarrow> 'a list \<Rightarrow> nat \<Rightarrow> nat \<Rightarrow> bool" where
  "lessAt prio h i j \<longleftrightarrow> prio (h ! j) < prio (h ! i)"

function up :: "('a \<Rightarrow> int) \<Rightarrow> 'a list \<Rightarrow> nat \<Rightarrow> 'a list" where
  "up prio h j =
     (if j = 0 \<or> \<not> lessAt prio h j (parent j) then h
      else up prio (swapAt h (parent j) j) (parent j))"
  by pat_completeness auto
termination
  by (relation "measure (\<lambda>(prio, h, j). j)") auto

declare up.simps [simp del]

text \<open>\<open>down\<close> with the index it ends at, which the package compares with the start.\<close>

function down :: "('a \<Rightarrow> int) \<Rightarrow> 'a list \<Rightarrow> nat \<Rightarrow> nat \<Rightarrow> 'a list \<times> nat" where
  "down prio h i n =
     (let j1 = 2 * i + 1 in
      if n \<le> j1 then (h, i)
      else let j = (if j1 + 1 < n \<and> lessAt prio h (j1 + 1) j1 then j1 + 1 else j1)
           in if \<not> lessAt prio h j i then (h, i) else down prio (swapAt h i j) j n)"
  by pat_completeness auto
termination
  by (relation "measure (\<lambda>(prio, h, i, n). n - i)") auto

declare down.simps [simp del]

definition heapPush :: "('a \<Rightarrow> int) \<Rightarrow> 'a \<Rightarrow> 'a list \<Rightarrow> 'a list" where
  "heapPush prio x h = (let h' = h @ [x] in up prio h' (length h' - 1))"

definition heapFix :: "('a \<Rightarrow> int) \<Rightarrow> 'a list \<Rightarrow> nat \<Rightarrow> 'a list" where
  "heapFix prio h i =
     (let (h', k) = down prio h i (length h) in if i < k then h' else up prio h' i)"

section \<open>The invariant\<close>

definition heap_ok :: "('a \<Rightarrow> int) \<Rightarrow> 'a list \<Rightarrow> bool" where
  "heap_ok prio h \<longleftrightarrow> (\<forall>i. 0 < i \<longrightarrow> i < length h \<longrightarrow> prio (h ! i) \<le> prio (h ! parent i))"

text \<open>A heap but for the link from \<open>j\<close> to its parent, and but for the links from \<open>i\<close> to its children.\<close>

definition heap_above where
  "heap_above prio h j \<longleftrightarrow>
     (\<forall>i. 0 < i \<longrightarrow> i < length h \<longrightarrow> i \<noteq> j \<longrightarrow> prio (h ! i) \<le> prio (h ! parent i))
     \<and> (\<forall>i. 0 < i \<longrightarrow> i < length h \<longrightarrow> parent i = j \<longrightarrow> 0 < j \<longrightarrow> prio (h ! i) \<le> prio (h ! parent j))"

definition heap_below where
  "heap_below prio h i \<longleftrightarrow>
     (\<forall>k. 0 < k \<longrightarrow> k < length h \<longrightarrow> parent k \<noteq> i \<longrightarrow> prio (h ! k) \<le> prio (h ! parent k))
     \<and> (\<forall>k. 0 < k \<longrightarrow> k < length h \<longrightarrow> parent k = i \<longrightarrow> 0 < i \<longrightarrow> prio (h ! k) \<le> prio (h ! parent i))"

lemma swapAt_simps:
  "length (swapAt h i j) = length h"
  "i < length h \<Longrightarrow> j < length h \<Longrightarrow> k < length h \<Longrightarrow>
     swapAt h i j ! k = (if k = j then h ! i else if k = i then h ! j else h ! k)"
  "i < length h \<Longrightarrow> j < length h \<Longrightarrow> mset (swapAt h i j) = mset h"
  by (auto simp: swapAt_def nth_list_update mset_swap)

lemma parent_less: "0 < j \<Longrightarrow> parent j < j"
  by linarith

lemma up_step:
  assumes "heap_above prio h j" "0 < j" "j < length h" "lessAt prio h j (parent j)"
  shows "heap_above prio (swapAt h (parent j) j) (parent j)"
proof -
  let ?p = "parent j" let ?h = "swapAt h ?p j"
  have p: "?p < j" "?p < length h" using assms(2,3) by linarith+
  have nth: "k < length h \<Longrightarrow> ?h ! k = (if k = j then h ! ?p else if k = ?p then h ! j else h ! k)" for k
    using swapAt_simps(2) [of ?p h j k] p assms(3) by simp
  have less: "prio (h ! ?p) < prio (h ! j)" using assms(4) by (simp add: lessAt_def)
  have up: "prio (h ! i) \<le> prio (h ! parent i)" if "0 < i" "i < length h" "i \<noteq> j" for i
    using assms(1) that by (simp add: heap_above_def)
  have gp: "prio (h ! i) \<le> prio (h ! ?p)" if "0 < i" "i < length h" "parent i = j" for i
    using assms(1,2) that by (simp add: heap_above_def)
  have 1: "prio (?h ! i) \<le> prio (?h ! parent i)" if i: "0 < i" "i < length h" "i \<noteq> ?p" for i
  proof -
    have pi: "parent i < i" "parent i < length h" using i by linarith+
    show ?thesis
    proof (cases "i = j")
      case True
      then show ?thesis using nth [of j] nth [of ?p] p less assms(3) by simp
    next
      case False
      have hi: "?h ! i = h ! i" using nth [OF i(2)] False i(3) by simp
      consider "parent i = j" | "parent i = ?p" "parent i \<noteq> j" | "parent i \<noteq> j" "parent i \<noteq> ?p" by blast
      then show ?thesis
      proof cases
        case 1
        then show ?thesis using gp [OF i(1,2) 1] nth [of j] assms(3) hi by simp
      next
        case 2
        then show ?thesis using up [OF i(1,2) False] less nth [OF p(2)] p hi by simp
      next
        case 3
        then show ?thesis using up [OF i(1,2) False] nth [OF pi(2)] hi by simp
      qed
    qed
  qed
  have 2: "prio (?h ! i) \<le> prio (?h ! parent ?p)"
    if i: "0 < i" "i < length h" "parent i = ?p" "0 < ?p" for i
  proof -
    have pp: "parent ?p < ?p" using i(4) by linarith
    have hpp: "?h ! parent ?p = h ! parent ?p" using nth [of "parent ?p"] pp p by simp
    have u: "prio (h ! ?p) \<le> prio (h ! parent ?p)" using up [of ?p] i(4) p by simp
    show ?thesis
    proof (cases "i = j")
      case True
      then show ?thesis using nth [of j] assms(3) hpp u by simp
    next
      case False
      have "i \<noteq> ?p" using i(1,3) by linarith
      then have "?h ! i = h ! i" using nth [OF i(2)] False by simp
      then show ?thesis using up [OF i(1,2) False] i(3) u hpp by simp
    qed
  qed
  show ?thesis unfolding heap_above_def swapAt_simps(1) using 1 2 by blast
qed

lemma up_heap:
  "j < length h \<Longrightarrow> heap_above prio h j \<Longrightarrow> heap_ok prio (up prio h j) \<and> mset (up prio h j) = mset h"
proof (induction prio h j rule: up.induct)
  case (1 prio h j)
  show ?case
  proof (cases "j = 0 \<or> \<not> lessAt prio h j (parent j)")
    case True
    then have "heap_ok prio h"
      using 1(3) unfolding heap_ok_def heap_above_def lessAt_def by (metis less_irrefl not_less)
    then show ?thesis using True by (simp add: up.simps [of prio h j])
  next
    case False
    then have j: "0 < j" "lessAt prio h j (parent j)" by auto
    have p: "parent j < length h" using 1(2) parent_less [OF j(1)] by linarith
    have "heap_above prio (swapAt h (parent j) j) (parent j)" by (rule up_step [OF 1(3) j(1) 1(2) j(2)])
    with 1(1) [OF False] p have "heap_ok prio (up prio (swapAt h (parent j) j) (parent j))"
      "mset (up prio (swapAt h (parent j) j) (parent j)) = mset (swapAt h (parent j) j)"
      by (simp_all add: swapAt_simps(1))
    then show ?thesis using False swapAt_simps(3) [OF p 1(2)] by (simp add: up.simps [of prio h j])
  qed
qed

lemma down_step:
  assumes "heap_below prio h i" "i < length h" "j < length h" "parent j = i" "0 < j"
    and "lessAt prio h j i" and big: "\<And>k. 0 < k \<Longrightarrow> k < length h \<Longrightarrow> parent k = i \<Longrightarrow> prio (h ! k) \<le> prio (h ! j)"
  shows "heap_below prio (swapAt h i j) j"
proof -
  let ?h = "swapAt h i j"
  have ij: "i < j" using assms(4,5) by linarith
  have nth: "k < length h \<Longrightarrow> ?h ! k = (if k = j then h ! i else if k = i then h ! j else h ! k)" for k
    using swapAt_simps(2) [OF assms(2,3)] by simp
  have dn: "prio (h ! k) \<le> prio (h ! parent k)" if "0 < k" "k < length h" "parent k \<noteq> i" for k
    using assms(1) that by (simp add: heap_below_def)
  have gp: "prio (h ! j) \<le> prio (h ! parent i)" if "0 < i"
    using assms(1,3,4,5) that by (simp add: heap_below_def)
  have 1: "prio (?h ! k) \<le> prio (?h ! parent k)" if k: "0 < k" "k < length h" "parent k \<noteq> j" for k
  proof -
    have pk: "parent k < k" "parent k < length h" using k by linarith+
    consider "k = j" | "k \<noteq> j" "parent k = i" | "k \<noteq> j" "k = i" | "k \<noteq> j" "k \<noteq> i" "parent k \<noteq> i" by blast
    then show ?thesis
    proof cases
      case 1
      then show ?thesis using nth [OF assms(3)] nth [OF assms(2)] assms(4,6) ij by (simp add: lessAt_def)
    next
      case 2
      then have "k \<noteq> i" using k(1) by linarith
      then show ?thesis using 2 big [OF k(1,2)] nth [OF k(2)] nth [OF assms(2)] ij by simp
    next
      case 3
      then have "parent k \<noteq> i" using k(1) by linarith
      then show ?thesis using 3 gp k(1,3) nth [OF k(2)] nth [OF pk(2)] by simp
    next
      case 4
      then show ?thesis using dn [OF k(1,2)] k(3) nth [OF k(2)] nth [OF pk(2)] by simp
    qed
  qed
  have 2: "prio (?h ! k) \<le> prio (?h ! parent j)" if k: "0 < k" "k < length h" "parent k = j" for k
  proof -
    have "k \<noteq> j" "k \<noteq> i" "parent k \<noteq> i" using k ij by linarith+
    then show ?thesis using dn [OF k(1,2)] k(3) nth [OF k(2)] nth [OF assms(2)] assms(4) ij by simp
  qed
  show ?thesis unfolding heap_below_def swapAt_simps(1) using 1 2 by blast
qed

lemma down_heap:
  "i < length h \<Longrightarrow> n = length h \<Longrightarrow> heap_below prio h i \<Longrightarrow>
     heap_ok prio (fst (down prio h i n)) \<and> mset (fst (down prio h i n)) = mset h"
proof (induction prio h i n rule: down.induct)
  case (1 prio h i n)
  let ?j1 = "2 * i + 1"
  let ?j = "if ?j1 + 1 < n \<and> lessAt prio h (?j1 + 1) ?j1 then ?j1 + 1 else ?j1"
  show ?case
  proof (cases "n \<le> ?j1")
    case True
    have "parent k \<noteq> i" if "0 < k" "k < length h" for k
    proof
      assume "parent k = i"
      then have "?j1 \<le> k" using that(1) by linarith
      then show False using that True "1.prems"(2) by linarith
    qed
    then have "heap_ok prio h" using "1.prems"(3) by (simp add: heap_ok_def heap_below_def)
    then show ?thesis using True by (simp add: down.simps [of prio h i n])
  next
    case False
    have jl: "?j < length h" using False "1.prems"(2) by simp
    have jp: "parent ?j = i" "0 < ?j" by (auto split: if_splits)
    have big: "prio (h ! k) \<le> prio (h ! ?j)" if k: "0 < k" "k < length h" "parent k = i" for k
    proof -
      have "k = ?j1 \<or> k = ?j1 + 1" using k(1,3) by linarith
      then show ?thesis using k(2) "1.prems"(2) by (auto simp: lessAt_def)
    qed
    show ?thesis
    proof (cases "lessAt prio h ?j i")
      case True
      have "heap_below prio (swapAt h i ?j) ?j"
        by (rule down_step [OF "1.prems"(3,1) jl jp True big])
      then have "heap_ok prio (fst (down prio (swapAt h i ?j) ?j n))
          \<and> mset (fst (down prio (swapAt h i ?j) ?j n)) = mset (swapAt h i ?j)"
        using "1.IH" [OF refl False refl] True jl "1.prems"(2) by (simp add: swapAt_simps(1))
      then show ?thesis
        using True False swapAt_simps(3) [OF "1.prems"(1) jl]
        by (subst (1 2) down.simps) (simp only: Let_def if_False if_True not_True_eq_False)
    next
      case stop: False
      have "heap_ok prio h" unfolding heap_ok_def
      proof (intro allI impI)
        fix k assume k: "0 < k" "k < length h"
        show "prio (h ! k) \<le> prio (h ! parent k)"
          using "1.prems"(3) big [OF k] stop k
          by (cases "parent k = i") (auto simp: heap_below_def lessAt_def not_less intro: order_trans)
      qed
      then show ?thesis
        using stop False by (subst (1 2) down.simps) (simp only: Let_def if_False if_True not_False_eq_True fst_conv simp_thms)
    qed
  qed
qed

lemma heapPush_ok:
  assumes "heap_ok prio h"
  shows "heap_ok prio (heapPush prio x h)" "mset (heapPush prio x h) = add_mset x (mset h)"
proof -
  have "heap_above prio (h @ [x]) (length h)"
    unfolding heap_above_def
  proof (intro conjI allI impI)
    fix i assume i: "0 < i" "i < length (h @ [x])" "i \<noteq> length h"
    then have "i < length h" "parent i < length h" by auto
    then show "prio ((h @ [x]) ! i) \<le> prio ((h @ [x]) ! parent i)"
      using assms i(1) by (simp add: heap_ok_def nth_append)
  next
    fix i assume "0 < i" "i < length (h @ [x])" "parent i = length h"
    then show "prio ((h @ [x]) ! i) \<le> prio ((h @ [x]) ! parent (length h))" by auto
  qed
  then have "heap_ok prio (up prio (h @ [x]) (length h))
      \<and> mset (up prio (h @ [x]) (length h)) = mset (h @ [x])" by (intro up_heap) simp
  then show "heap_ok prio (heapPush prio x h)" "mset (heapPush prio x h) = add_mset x (mset h)"
    by (simp_all add: heapPush_def)
qed

lemma heapFix_root_ok:
  assumes "heap_ok prio h" "h \<noteq> []"
  shows "heap_ok prio (heapFix prio (h[0 := x]) 0)"
    "mset (heapFix prio (h[0 := x]) 0) = add_mset x (mset h - {#h ! 0#})"
proof -
  let ?h = "h[0 := x]"
  have "heap_below prio ?h 0"
    unfolding heap_below_def
  proof (intro conjI allI impI)
    fix k assume k: "0 < k" "k < length ?h" "parent k \<noteq> 0"
    then show "prio (?h ! k) \<le> prio (?h ! parent k)"
      using assms(1) by (simp add: heap_ok_def nth_list_update)
  qed simp
  then have d: "heap_ok prio (fst (down prio ?h 0 (length ?h)))
      \<and> mset (fst (down prio ?h 0 (length ?h))) = mset ?h"
    using assms(2) by (intro down_heap) simp_all
  have "heapFix prio ?h 0 = fst (down prio ?h 0 (length ?h))"
    by (simp add: heapFix_def up.simps [of _ _ 0] split: prod.splits)
  then show "heap_ok prio (heapFix prio ?h 0)"
    "mset (heapFix prio ?h 0) = add_mset x (mset h - {#h ! 0#})"
    using d assms(2) by (simp_all add: mset_update)
qed

lemma heap_root_max: "heap_ok prio h \<Longrightarrow> i < length h \<Longrightarrow> prio (h ! i) \<le> prio (h ! 0)"
proof (induction i rule: less_induct)
  case (less i)
  show ?case
  proof (cases "i = 0")
    case False
    then have p: "parent i < i" "parent i < length h" using less.prems by linarith+
    have "prio (h ! i) \<le> prio (h ! parent i)" using less.prems False by (simp add: heap_ok_def)
    then show ?thesis using less.IH [OF p(1) less.prems(1) p(2)] by (rule order_trans)
  qed simp
qed

section \<open>Bounded selection\<close>

text \<open>
  The contract a bounded selection asks of its queue: elements as a multiset, a greatest one at
  the top, insertion, and replacement of the top. What it then selects are the least elements.
\<close>

locale max_queue =
  fixes ok :: "'q \<Rightarrow> bool"
    and els :: "'q \<Rightarrow> 'a multiset"
    and prio :: "'a \<Rightarrow> int"
    and top :: "'q \<Rightarrow> 'a"
    and push :: "'a \<Rightarrow> 'q \<Rightarrow> 'q"
    and replace :: "'a \<Rightarrow> 'q \<Rightarrow> 'q"
  assumes push_ok: "ok q \<Longrightarrow> ok (push x q)"
    and push_els: "ok q \<Longrightarrow> els (push x q) = add_mset x (els q)"
    and top_in: "ok q \<Longrightarrow> els q \<noteq> {#} \<Longrightarrow> top q \<in># els q"
    and top_max: "ok q \<Longrightarrow> y \<in># els q \<Longrightarrow> prio y \<le> prio (top q)"
    and replace_ok: "ok q \<Longrightarrow> els q \<noteq> {#} \<Longrightarrow> ok (replace x q)"
    and replace_els: "ok q \<Longrightarrow> els q \<noteq> {#} \<Longrightarrow> els (replace x q) = add_mset x (els q - {#top q#})"
begin

definition offer :: "nat \<Rightarrow> 'a \<Rightarrow> 'q \<Rightarrow> 'q" where
  "offer n x q =
     (if size (els q) < n then push x q
      else if prio x < prio (top q) then replace x q else q)"

text \<open>The queue holds the least \<open>n\<close> of what was offered, and the rest is no smaller.\<close>

definition selects :: "nat \<Rightarrow> 'a multiset \<Rightarrow> 'q \<Rightarrow> bool" where
  "selects n A q \<longleftrightarrow> ok q \<and> els q \<subseteq># A \<and> size (els q) = min n (size A)
     \<and> (\<forall>y\<in>#els q. \<forall>z\<in>#A - els q. prio y \<le> prio z)"

lemma offer_selects:
  assumes s: "selects n A q" and n: "0 < n"
  shows "selects n (add_mset x A) (offer n x q)"
proof -
  have ok: "ok q" and sub: "els q \<subseteq># A" and sz: "size (els q) = min n (size A)"
    and le: "\<And>y z. y \<in># els q \<Longrightarrow> z \<in># A - els q \<Longrightarrow> prio y \<le> prio z"
    using s by (auto simp: selects_def)
  have rest: "add_mset x A - els q = add_mset x (A - els q)"
    using sub by (auto simp: multiset_eq_iff subseteq_mset_def Suc_diff_le)
  show ?thesis
  proof (cases "size (els q) < n")
    case True
    then have "els q = A" using sub sz by (metis min_less_iff_conj min.absorb2 nless_le order_less_le
          mset_subset_size subset_mset.le_less min_def)
    then show ?thesis using True ok push_ok [OF ok] push_els [OF ok] sz
      by (simp add: selects_def offer_def)
  next
    case False
    then have full: "size (els q) = n" "n \<le> size A" using sz by auto
    then have ne: "els q \<noteq> {#}" using n by auto
    note top = top_in [OF ok ne]
    show ?thesis
    proof (cases "prio x < prio (top q)")
      case True
      let ?E = "add_mset x (els q - {#top q#})"
      have E: "els (offer n x q) = ?E" "ok (offer n x q)"
        using False True replace_els [OF ok ne] replace_ok [OF ok ne] by (simp_all add: offer_def)
      have d: "add_mset x A - ?E = add_mset (top q) (A - els q)"
        using sub top by (simp add: multiset_eq_iff subseteq_mset_def)
          (metis Suc_diff_le Suc_pred count_greater_zero_iff diff_Suc_Suc)
      have "prio y \<le> prio z" if "y \<in># ?E" "z \<in># add_mset (top q) (A - els q)" for y z
        using that True top_max [OF ok] le top in_diffD
        by (metis add_mset_remove_trivial_If insert_noteq_member insert_iff less_imp_le order_trans set_mset_add_mset_insert)
      moreover have "?E \<subseteq># add_mset x A" using sub
        by simp (meson diff_subset_eq_self subset_mset.order_trans)
      moreover have "size ?E = n" using full top by (simp add: size_Diff_singleton)
        (metis Suc_pred n)
      ultimately show ?thesis unfolding selects_def E d using E(2) full by auto
    next
      case ge: False
      have "offer n x q = q" using False ge by (simp add: offer_def)
      moreover have "prio y \<le> prio x" if "y \<in># els q" for y
        using top_max [OF ok that] ge by simp
      moreover have "els q \<subseteq># add_mset x A" using sub
        by (auto simp: subseteq_mset_def le_SucI)
      moreover have "prio y \<le> prio z" if "y \<in># els q" "z \<in># add_mset x A - els q" for y z
        using that calculation(2) le unfolding rest by auto
      ultimately show ?thesis using ok full by (auto simp: selects_def)
    qed
  qed
qed

lemma offers_select:
  assumes "ok q" "els q = {#}" "0 < n"
  shows "selects n (mset xs) (fold (offer n) xs q)"
proof (induction xs rule: rev_induct)
  case Nil
  show ?case using assms by (simp add: selects_def)
next
  case (snoc x xs)
  then show ?case using offer_selects [OF snoc assms(3)] by simp
qed

end

text \<open>The package's heap is such a queue.\<close>

interpretation heapq: max_queue "heap_ok prio" mset prio "\<lambda>h. h ! 0" "heapPush prio"
  "\<lambda>x h. heapFix prio (h[0 := x]) 0" for prio :: "'a \<Rightarrow> int"
  by unfold_locales
    (auto simp: heapPush_ok heapFix_root_ok in_set_conv_nth intro: heap_root_max)

lemma heapq_offer:
  "heapq.offer prio n x h =
     (if length h < n then heapPush prio x h
      else if prio x < prio (h ! 0) then heapFix prio (h[0 := x]) 0 else h)"
  by (simp add: heapq.offer_def)

lemma heap_ok_Nil [simp]: "heap_ok prio []"
  by (simp add: heap_ok_def)

end
