(* ===== verification/DnsStore.thy ===== *)
theory DnsStore
  imports DnsLog GoHeap FilePoller ClickHouse "HOL-Library.Char_ord" "HOL-Library.List_Lexorder"
begin

text \<open>
  \<open>dnsstore.go\<close>: the bounded map from (client, answered address) to the host name the client
  resolved. Go ranges over a map in an unspecified order; operations that range or take the
  length get a list \<open>ks\<close> of the map's keys in the order of the range (\<open>lists_keys\<close> says it is
  one), and the theorems hold for every such list. The clock is an argument.
\<close>

section \<open>State\<close>

record dnsKey =
  k_clientIP :: string
  k_answerIP :: string

record dnsBinding =
  db_hostname :: string
  db_eventTime :: time
  db_deadline :: time

record chDNSWriter =
  dw_dns :: "DnsEvent list"
  dw_maxBuffer :: nat

text \<open>A parser of one log file: its initial state and its step on a line.\<close>

record 'p dns_parser =
  lp_init :: 'p
  lp_feed :: "string \<Rightarrow> 'p \<Rightarrow> (parse_error + DnsEvent list) \<times> 'p"

record 'p DNSStore =
  entries :: "dnsKey \<rightharpoonup> dnsBinding"
  maxSize :: nat
  dnsDir :: string
  dnsLoc :: location
  dn_offsets :: offsets
  dn_ch :: "chDNSWriter option"
  parsers :: "string \<rightharpoonup> 'p"
  dnsParseErrors :: nat
  dnsEventsParsed :: nat
  dnsEvictions :: nat

abbreviation dnsMinTTL :: duration where "dnsMinTTL \<equiv> 60 * second"
abbreviation dnsMaxTTL :: duration where "dnsMaxTTL \<equiv> hour"
abbreviation dnsDefaultUnknownTTL :: duration where "dnsDefaultUnknownTTL \<equiv> 10 * minute"

definition NewDNSStore :: "string \<Rightarrow> location option \<Rightarrow> bool \<Rightarrow> 'p DNSStore" where
  "NewDNSStore dir loc conn =
     \<lparr>entries = Map.empty, maxSize = 2 ^ 20, dnsDir = dir,
      dnsLoc = (case loc of None \<Rightarrow> UTC | Some l \<Rightarrow> l), dn_offsets = Map.empty,
      dn_ch = (if conn then Some \<lparr>dw_dns = [], dw_maxBuffer = 100000\<rparr> else None),
      parsers = Map.empty, dnsParseErrors = 0, dnsEventsParsed = 0, dnsEvictions = 0\<rparr>"

text \<open>The stateless BIND parser as a parser of one file.\<close>

definition bind_parser :: "location \<Rightarrow> unit dns_parser" where
  "bind_parser loc = \<lparr>lp_init = (), lp_feed = (\<lambda>line p. (parseDNSLine line loc, p))\<rparr>"

section \<open>Operations\<close>

definition dns_Lookup :: "time \<Rightarrow> 'p DNSStore \<Rightarrow> string \<Rightarrow> string \<Rightarrow> string" where
  "dns_Lookup now s clientIP answeredIP =
     (if clientIP = '''' \<or> answeredIP = '''' then ''''
      else case entries s \<lparr>k_clientIP = clientIP, k_answerIP = answeredIP\<rparr> of
          None \<Rightarrow> ''''
        | Some b \<Rightarrow> if db_deadline b < now then '''' else db_hostname b)"

record victim =
  vi_key :: dnsKey
  vi_deadline :: time

text \<open>The body of the range: expired keys are collected, the others offered to the bounded heap.\<close>

definition select_step ::
  "time \<Rightarrow> nat \<Rightarrow> (dnsKey \<rightharpoonup> dnsBinding) \<Rightarrow> dnsKey \<Rightarrow> dnsKey list \<times> victim list \<Rightarrow> dnsKey list \<times> victim list" where
  "select_step now shed m k st =
     (case m k of
        None \<Rightarrow> st
      | Some b \<Rightarrow>
          let (expired, oldest) = st in
          if db_deadline b < now then (expired @ [k], oldest)
          else let v = \<lparr>vi_key = k, vi_deadline = db_deadline b\<rparr> in
            if length oldest < shed then (expired, heapPush vi_deadline v oldest)
            else if db_deadline b < vi_deadline (oldest ! 0)
              then (expired, heapFix vi_deadline (oldest[0 := v]) 0)
            else st)"

definition dns_shed :: "'p DNSStore \<Rightarrow> nat" where
  "dns_shed s = (if maxSize s div 16 < 1 then 1 else maxSize s div 16)"

definition selectEvictions :: "dnsKey list \<Rightarrow> time \<Rightarrow> 'p DNSStore \<Rightarrow> dnsKey list" where
  "selectEvictions ks now s =
     (let shed = dns_shed s;
          (expired, oldest) = fold (select_step now shed (entries s)) ks ([], [])
      in expired @ map vi_key (take (shed - length expired) oldest))"

definition dns_ttl :: "DnsEvent \<Rightarrow> duration" where
  "dns_ttl e =
     (let ttl = (if dn_TTLUnknown e then dnsDefaultUnknownTTL else uint (dn_TTL e) * second);
          ttl = (if dnsMaxTTL < ttl then dnsMaxTTL else ttl);
          ttl = (if ttl < dnsMinTTL then dnsMinTTL else ttl)
      in ttl)"

definition dns_key :: "DnsEvent \<Rightarrow> dnsKey" where
  "dns_key e = \<lparr>k_clientIP = dn_ClientIP e, k_answerIP = dn_AnswerIP e\<rparr>"

definition dns_delete :: "dnsKey list \<Rightarrow> (dnsKey \<rightharpoonup> dnsBinding) \<Rightarrow> (dnsKey \<rightharpoonup> dnsBinding)" where
  "dns_delete vs m = fold (\<lambda>v m. m(v := None)) vs m"

definition dns_put :: "DnsEvent \<Rightarrow> 'p DNSStore \<Rightarrow> 'p DNSStore" where
  "dns_put e s =
     s\<lparr>entries := (entries s)(dns_key e \<mapsto>
        \<lparr>db_hostname = dn_QName e, db_eventTime = dn_EventTime e,
         db_deadline = dn_EventTime e + dns_ttl e\<rparr>)\<rparr>"

definition applyDNS :: "dnsKey list \<Rightarrow> time \<Rightarrow> DnsEvent \<Rightarrow> 'p DNSStore \<Rightarrow> 'p DNSStore" where
  "applyDNS ks now e s =
     (if dn_AnswerIP e = '''' \<or> dn_QName e = '''' then s
      else
        let atCap = (entries s (dns_key e) = None \<and> maxSize s \<le> length ks);
            victims = (if atCap then selectEvictions ks now s else []);
            s = (if atCap \<and> victims \<noteq> []
                 then s\<lparr>entries := dns_delete victims (entries s),
                        dnsEvictions := dnsEvictions s + length victims\<rparr> else s)
        in case entries s (dns_key e) of
            None \<Rightarrow> dns_put e s
          | Some b \<Rightarrow>
              if dn_EventTime e < db_eventTime b then s
              else if dn_EventTime e = db_eventTime b \<and> dn_QName e \<le> db_hostname b then s
              else dns_put e s)"

definition dns_evictExpired :: "time \<Rightarrow> 'p DNSStore \<Rightarrow> 'p DNSStore" where
  "dns_evictExpired now s = s\<lparr>entries := evict_map db_deadline now (entries s)\<rparr>"

definition dw_add :: "DnsEvent \<Rightarrow> chDNSWriter \<Rightarrow> chDNSWriter" where
  "dw_add e w = w\<lparr>dw_dns := dw_dns w @ [e]\<rparr>"

definition dw_flush :: "('c, DnsEvent) sender \<Rightarrow> chDNSWriter \<Rightarrow> 'c \<Rightarrow> chDNSWriter \<times> 'c" where
  "dw_flush send w c =
     (let (b, c') = flush_buffer send (dw_maxBuffer w) (dw_dns w) c in (w\<lparr>dw_dns := b\<rparr>, c'))"

type_synonym dns_row = "time \<times> string \<times> uint16 \<times> string \<times> string \<times> string \<times> uint32"

definition dns_columns :: "DnsEvent \<Rightarrow> dns_row" where
  "dns_columns r = (dn_EventTime r, dn_ClientIP r, dn_ClientPort r, dn_QName r, dn_QType r,
     dn_AnswerIP r, dn_TTL r)"

definition sendDNS :: "('c, dns_row) batch_driver \<Rightarrow> ('c, DnsEvent) sender" where
  "sendDNS d rows c = send_batch d (map dns_columns rows) c"

text \<open>\<open>rng\<close> gives the range order of a map; \<open>now\<close> is the clock of the scan.\<close>

definition ingest_event ::
  "((dnsKey \<rightharpoonup> dnsBinding) \<Rightarrow> dnsKey list) \<Rightarrow> time \<Rightarrow> DnsEvent \<Rightarrow> 'p DNSStore \<Rightarrow> 'p DNSStore" where
  "ingest_event rng now ev s =
     (let s = applyDNS (rng (entries s)) now ev (s\<lparr>dnsEventsParsed := dnsEventsParsed s + 1\<rparr>)
      in case dn_ch s of None \<Rightarrow> s | Some w \<Rightarrow> s\<lparr>dn_ch := Some (dw_add ev w)\<rparr>)"

definition ingestDNS ::
  "'p dns_parser \<Rightarrow> ((dnsKey \<rightharpoonup> dnsBinding) \<Rightarrow> dnsKey list) \<Rightarrow> time \<Rightarrow> string \<Rightarrow> string
     \<Rightarrow> 'p DNSStore \<Rightarrow> 'p DNSStore" where
  "ingestDNS lp rng now path line s =
     (let p = (case parsers s path of None \<Rightarrow> lp_init lp | Some p \<Rightarrow> p);
          (r, p') = lp_feed lp line p;
          s = s\<lparr>parsers := (parsers s)(path \<mapsto> p')\<rparr>
      in case r of
          Inl e \<Rightarrow> s\<lparr>dnsParseErrors := dnsParseErrors s + 1\<rparr>
        | Inr evs \<Rightarrow> fold (ingest_event rng now) evs s)"

definition dns_onTruncate :: "string \<Rightarrow> 'p DNSStore \<Rightarrow> 'p DNSStore" where
  "dns_onTruncate path s = s\<lparr>parsers := (parsers s)(path := None)\<rparr>"

definition dns_flush where
  "dns_flush send sn =
     (case dn_ch (fst sn) of
        None \<Rightarrow> sn
      | Some w \<Rightarrow> let (w', c) = dw_flush send w (snd sn) in ((fst sn)\<lparr>dn_ch := Some w'\<rparr>, c))"

definition dns_scan where
  "dns_scan lp rng send listing now sn =
     (let (offs, s) = scanAppendedDir (ingestDNS lp rng now) dns_onTruncate (dnsDir (fst sn)) listing
                        (dn_offsets (fst sn), fst sn);
          (s, c) = dns_flush send (s\<lparr>dn_offsets := offs\<rparr>, snd sn)
      in (dns_evictExpired now s, c))"

definition dns_remaining :: "'p DNSStore \<times> 'c \<Rightarrow> nat" where
  "dns_remaining sn = (case dn_ch (fst sn) of None \<Rightarrow> 0 | Some w \<Rightarrow> length (dw_dns w))"

definition dns_FinalFlush where
  "dns_FinalFlush send pause attempts sn =
     (case dn_ch (fst sn) of
        None \<Rightarrow> (0, sn)
      | Some w \<Rightarrow> final_loop (dns_flush send) dns_remaining pause attempts 0 sn)"

end
