(* ===== verification/DnsProps.thy ===== *)
theory DnsProps
  imports DnsStore "HOL-Library.Product_Lexorder"
begin

text \<open>
  The properties of the DNS store: its hard size bound and what the eviction sheds, the trust
  horizon, which resolution wins, where an answer comes from, the isolation of the per-file
  parsers, and the delivery of the events to ClickHouse.
\<close>

definition lists_keys :: "dnsKey list \<Rightarrow> (dnsKey \<rightharpoonup> dnsBinding) \<Rightarrow> bool" where
  "lists_keys ks m \<longleftrightarrow> distinct ks \<and> set ks = dom m"

lemma distinct_submset:
  assumes "mset xs \<subseteq># mset ys" and "distinct ys"
  shows "distinct xs"
  unfolding distinct_count_atmost_1
proof
  fix a
  have "count (mset xs) a \<le> count (mset ys) a" using assms(1) by (simp add: subseteq_mset_def)
  also have "\<dots> \<le> 1" using assms(2) by (simp add: distinct_count_atmost_1)
  finally show "count (mset xs) a = (if a \<in> set xs then 1 else 0)"
    using count_greater_zero_iff [of "mset xs" a] by (auto simp: le_Suc_eq)
qed

lemma lists_keys_card: "lists_keys ks m \<Longrightarrow> length ks = card (dom m)"
  by (metis lists_keys_def distinct_card)

section \<open>The selection\<close>

definition is_expired :: "time \<Rightarrow> (dnsKey \<rightharpoonup> dnsBinding) \<Rightarrow> dnsKey \<Rightarrow> bool" where
  "is_expired now m k \<longleftrightarrow> (\<exists>b. m k = Some b \<and> db_deadline b < now)"

definition live_victim :: "time \<Rightarrow> (dnsKey \<rightharpoonup> dnsBinding) \<Rightarrow> dnsKey \<Rightarrow> victim option" where
  "live_victim now m k =
     (case m k of None \<Rightarrow> None
      | Some b \<Rightarrow> if db_deadline b < now then None else Some \<lparr>vi_key = k, vi_deadline = db_deadline b\<rparr>)"

text \<open>The range is two independent folds: a filter and a bounded selection.\<close>

lemma select_fold:
  "fold (select_step now shed m) ks (ex, h) =
     (ex @ filter (is_expired now m) ks,
      fold (heapq.offer vi_deadline shed) (List.map_filter (live_victim now m) ks) h)"
proof (induction ks arbitrary: ex h)
  case Nil
  show ?case by (simp add: map_filter_simps)
next
  case (Cons k ks)
  show ?case
  proof (cases "m k")
    case None
    then show ?thesis using Cons
      by (simp add: map_filter_simps select_step_def is_expired_def live_victim_def)
  next
    case (Some b)
    then show ?thesis using Cons
      by (auto simp: map_filter_simps select_step_def is_expired_def live_victim_def heapq_offer Let_def)
  qed
qed

definition kept_oldest :: "dnsKey list \<Rightarrow> time \<Rightarrow> 'p DNSStore \<Rightarrow> victim list" where
  "kept_oldest ks now s =
     fold (heapq.offer vi_deadline (dns_shed s)) (List.map_filter (live_victim now (entries s)) ks) []"

lemma selectEvictions_eq:
  "selectEvictions ks now s =
     filter (is_expired now (entries s)) ks
     @ map vi_key (take (dns_shed s - length (filter (is_expired now (entries s)) ks)) (kept_oldest ks now s))"
  by (simp add: selectEvictions_def select_fold kept_oldest_def Let_def)

lemma shed_pos: "0 < dns_shed s"
  by (simp add: dns_shed_def)

lemma kept_oldest_selects:
  "heapq.selects vi_deadline (dns_shed s) (mset (List.map_filter (live_victim now (entries s)) ks)) (kept_oldest ks now s)"
  unfolding kept_oldest_def by (rule heapq.offers_select) (simp_all add: shed_pos)

lemma live_victim_key: "live_victim now m k = Some v \<Longrightarrow> vi_key v = k \<and> m k \<noteq> None \<and> \<not> is_expired now m k"
  by (auto simp: live_victim_def is_expired_def split: option.splits if_splits)

lemma map_filter_keys:
  "map vi_key (List.map_filter (live_victim now m) ks) = filter (\<lambda>k. m k \<noteq> None \<and> \<not> is_expired now m k) ks"
proof (induction ks)
  case Nil
  show ?case by (simp add: map_filter_simps)
next
  case (Cons k ks)
  then show ?case
    by (auto simp: map_filter_simps live_victim_def is_expired_def split: option.splits)
qed

text \<open>The kept victims are keys of the map, each once, and none of them expired.\<close>

lemma kept_oldest_keys:
  assumes "lists_keys ks (entries s)"
  shows "distinct (map vi_key (kept_oldest ks now s))"
    and "\<forall>k\<in>set (map vi_key (kept_oldest ks now s)). k \<in> dom (entries s) \<and> \<not> is_expired now (entries s) k"
proof -
  let ?all = "List.map_filter (live_victim now (entries s)) ks"
  have sub: "mset (kept_oldest ks now s) \<subseteq># mset ?all"
    using kept_oldest_selects [of s now ks] by (simp add: heapq.selects_def)
  have d: "distinct (map vi_key ?all)"
    unfolding map_filter_keys using assms by (simp add: lists_keys_def)
  have "image_mset vi_key (mset (kept_oldest ks now s)) \<subseteq># image_mset vi_key (mset ?all)"
    by (rule image_mset_subseteq_mono [OF sub])
  then have "mset (map vi_key (kept_oldest ks now s)) \<subseteq># mset (map vi_key ?all)" by simp
  then show "distinct (map vi_key (kept_oldest ks now s))"
    using d by (rule distinct_submset)
  have "set (kept_oldest ks now s) \<subseteq> set ?all" using set_mset_mono [OF sub] by simp
  then have "set (map vi_key (kept_oldest ks now s)) \<subseteq> set (map vi_key ?all)" by auto
  then show "\<forall>k\<in>set (map vi_key (kept_oldest ks now s)). k \<in> dom (entries s) \<and> \<not> is_expired now (entries s) k"
    unfolding map_filter_keys by auto
qed

section \<open>The size bound\<close>

lemma selectEvictions_keys:
  assumes "lists_keys ks (entries s)"
  shows "distinct (selectEvictions ks now s)" and "set (selectEvictions ks now s) \<subseteq> dom (entries s)"
proof -
  let ?k = "take (dns_shed s - length (filter (is_expired now (entries s)) ks)) (kept_oldest ks now s)"
  have t: "distinct (map vi_key ?k)" "set (map vi_key ?k) \<subseteq> set (map vi_key (kept_oldest ks now s))"
    using kept_oldest_keys(1) [OF assms, of now]
    by (simp add: take_map [symmetric] distinct_take) (auto dest: in_set_takeD)
  let ?F = "filter (is_expired now (entries s)) ks"
  have live: "k \<in> dom (entries s) \<and> \<not> is_expired now (entries s) k" if "k \<in> set (map vi_key ?k)" for k
    using kept_oldest_keys(2) [OF assms, of now] t(2) that by blast
  have F: "distinct ?F" "set ?F \<subseteq> dom (entries s)" "\<forall>k\<in>set ?F. is_expired now (entries s) k"
    using assms by (auto simp: lists_keys_def)
  have "set ?F \<inter> set (map vi_key ?k) = {}" using live F(3) by blast
  with t(1) F(1) show "distinct (selectEvictions ks now s)"
    unfolding selectEvictions_eq distinct_append by blast
  show "set (selectEvictions ks now s) \<subseteq> dom (entries s)"
    unfolding selectEvictions_eq set_append using F(2) live by blast
qed

lemma selectEvictions_nonempty:
  assumes "lists_keys ks (entries s)" "ks \<noteq> []"
  shows "selectEvictions ks now s \<noteq> []"
proof
  assume e: "selectEvictions ks now s = []"
  then have none: "filter (is_expired now (entries s)) ks = []" and "kept_oldest ks now s = []"
    unfolding selectEvictions_eq using shed_pos [of s] by auto
  then have "size (mset (kept_oldest ks now s)) = 0" by simp
  then have "List.map_filter (live_victim now (entries s)) ks = []"
    using kept_oldest_selects [of s now ks] shed_pos [of s] by (auto simp: heapq.selects_def min_def split: if_splits)
  then have "filter (\<lambda>k. entries s k \<noteq> None \<and> \<not> is_expired now (entries s) k) ks = []"
    using map_filter_keys [of now "entries s" ks] by simp
  moreover have "hd ks \<in> set ks" using assms(2) by simp
  ultimately show False using none assms(1) by (auto simp: filter_empty_conv lists_keys_def)
qed

lemma dns_delete_apply: "dns_delete vs m k = (if k \<in> set vs then None else m k)"
  by (induction vs arbitrary: m) (auto simp: dns_delete_def)

lemma dom_dns_delete: "dom (dns_delete vs m) = dom m - set vs"
  by (auto simp: dns_delete_apply dom_def)

lemma applyDNS_other [simp]:
  "maxSize (applyDNS ks now e s) = maxSize s" "parsers (applyDNS ks now e s) = parsers s"
  "dn_ch (applyDNS ks now e s) = dn_ch s" "dn_offsets (applyDNS ks now e s) = dn_offsets s"
  by (simp_all add: applyDNS_def dns_put_def Let_def split: option.split)

definition dns_bounded :: "'p DNSStore \<Rightarrow> bool" where
  "dns_bounded s \<longleftrightarrow> finite (dom (entries s)) \<and> card (dom (entries s)) \<le> maxSize s"

lemma dns_bounded_apply:
  assumes b: "dns_bounded s" and ks: "lists_keys ks (entries s)" and cap: "0 < maxSize s"
  shows "dns_bounded (applyDNS ks now e s)"
proof (cases "dn_AnswerIP e = '''' \<or> dn_QName e = ''''")
  case True
  then have "applyDNS ks now e s = s" by (auto simp: applyDNS_def)
  then show ?thesis using b by simp
next
  case rel: False
  let ?V = "selectEvictions ks now s" and ?k = "dns_key e"
  have fin: "finite (dom (entries s))" and le: "card (dom (entries s)) \<le> maxSize s"
    using b by (simp_all add: dns_bounded_def)
  have put: "dom (entries (applyDNS ks now e s)) \<subseteq> insert ?k (dom (entries s) - set vs)"
    if "vs = (if entries s ?k = None \<and> maxSize s \<le> length ks then ?V else [])" for vs
    using rel unfolding that
    by (auto simp: applyDNS_def dns_put_def Let_def dns_delete_apply split: option.splits if_splits)
  consider "entries s ?k \<noteq> None" | "entries s ?k = None" "length ks < maxSize s"
    | "entries s ?k = None" "maxSize s \<le> length ks" by linarith
  then have "card (dom (entries (applyDNS ks now e s))) \<le> maxSize s"
  proof cases
    case 1
    then have "dom (entries (applyDNS ks now e s)) \<subseteq> dom (entries s)" using put [OF refl] by auto
    then show ?thesis using card_mono [OF fin] le by (meson order_trans)
  next
    case 2
    then have "card (dom (entries (applyDNS ks now e s))) \<le> card (insert ?k (dom (entries s)))"
      using put [OF refl] fin by (intro card_mono) auto
    also have "\<dots> \<le> Suc (card (dom (entries s)))" using fin by (simp add: card_insert_if)
    finally show ?thesis using 2 lists_keys_card [OF ks] by simp
  next
    case 3
    then have "ks \<noteq> []" using cap by auto
    then have V: "set ?V \<noteq> {}" "set ?V \<subseteq> dom (entries s)"
      using selectEvictions_nonempty [OF ks] selectEvictions_keys(2) [OF ks] by auto
    then obtain v where "v \<in> set ?V" "v \<in> dom (entries s)" by (metis ex_in_conv subsetD)
    then have "dom (entries s) - set ?V \<subset> dom (entries s)" by (intro psubsetI) blast+
    then have lt: "card (dom (entries s) - set ?V) < card (dom (entries s))"
      using fin by (intro psubset_card_mono)
    have "card (dom (entries (applyDNS ks now e s))) \<le> card (insert ?k (dom (entries s) - set ?V))"
      using put [OF refl] fin 3 by (intro card_mono) auto
    also have "\<dots> \<le> Suc (card (dom (entries s) - set ?V))" using fin by (simp add: card_insert_if)
    finally show ?thesis using lt le by simp
  qed
  moreover have "finite (dom (entries (applyDNS ks now e s)))"
    using put [OF refl] fin finite_subset by (metis finite_Diff finite_insert)
  ultimately show ?thesis by (simp add: dns_bounded_def)
qed

lemma dns_bounded_evict:
  assumes "dns_bounded s"
  shows "dns_bounded (dns_evictExpired now s)"
proof -
  have sub: "dom (entries (dns_evictExpired now s)) \<subseteq> dom (entries s)"
    using dom_evict_map by (simp add: dns_evictExpired_def)
  have fin: "finite (dom (entries s))" and le: "card (dom (entries s)) \<le> maxSize s"
    using assms by (simp_all add: dns_bounded_def)
  show ?thesis
    using finite_subset [OF sub fin] card_mono [OF fin sub] le
    by (simp add: dns_bounded_def) (simp add: dns_evictExpired_def)
qed

text \<open>
  The life of the store: any number of events and sweeps, with any clock readings and any range
  orders. The list collects the events applied so far.
\<close>

inductive dns_run :: "'p DNSStore \<Rightarrow> DnsEvent list \<Rightarrow> 'p DNSStore \<Rightarrow> bool" for s0 where
  start: "dns_run s0 [] s0"
| apply_event: "dns_run s0 es s \<Longrightarrow> lists_keys ks (entries s) \<Longrightarrow> dns_run s0 (es @ [e]) (applyDNS ks now e s)"
| sweep: "dns_run s0 es s \<Longrightarrow> dns_run s0 es (dns_evictExpired now s)"

definition dns_empty :: "nat \<Rightarrow> 'p DNSStore" where
  "dns_empty cap = (NewDNSStore ''dns'' None False)\<lparr>maxSize := cap\<rparr>"

lemma dns_empty_code [code]:
  "dns_empty cap = \<lparr>entries = Map.empty, maxSize = cap, dnsDir = ''dns'', dnsLoc = UTC,
     dn_offsets = Map.empty, dn_ch = None, parsers = Map.empty, dnsParseErrors = 0,
     dnsEventsParsed = 0, dnsEvictions = 0\<rparr>"
  by (simp add: dns_empty_def NewDNSStore_def)

lemma dns_empty_simps [simp]: "entries (dns_empty cap) = Map.empty" "maxSize (dns_empty cap) = cap"
  by (simp_all add: dns_empty_def NewDNSStore_def)

lemma dns_evict_max [simp]: "maxSize (dns_evictExpired now s) = maxSize s"
  by (simp add: dns_evictExpired_def)

lemma dns_run_max: "dns_run s0 es s \<Longrightarrow> maxSize s = maxSize s0"
  by (induction rule: dns_run.induct) simp_all

text \<open>C16. The map never outgrows its cap: whatever events arrive, in whatever order Go ranges over
  the map and whatever the clock reads, the number of entries stays at most \<open>maxSize\<close>.\<close>

theorem dns_cap:
  assumes "dns_run (dns_empty cap) es s" and "0 < cap"
  shows "finite (dom (entries s)) \<and> card (dom (entries s)) \<le> cap"
proof -
  have "dns_bounded s" using assms
  proof (induction rule: dns_run.induct)
    case start
    show ?case by (simp add: dns_bounded_def)
  next
    case (apply_event es s ks e now)
    then show ?case using dns_run_max [OF apply_event.hyps(1)] by (intro dns_bounded_apply) simp_all
  next
    case (sweep es s now)
    then show ?case by (simp add: dns_bounded_evict)
  qed
  then show ?thesis using dns_run_max [OF assms(1)] by (simp add: dns_bounded_def)
qed

text \<open>An answer is trusted for its record's TTL, floored at a minute and capped at an hour
  (ten minutes when the log carries no TTL), and the arithmetic never leaves the int64 range of
  a duration.\<close>

theorem dns_ttl_bounds:
  "dnsMinTTL \<le> dns_ttl e \<and> dns_ttl e \<le> dnsMaxTTL
   \<and> uint (dn_TTL e) * second < 2 ^ 63
   \<and> (dn_TTLUnknown e \<longrightarrow> dns_ttl e = dnsDefaultUnknownTTL)
   \<and> (\<not> dn_TTLUnknown e \<longrightarrow> dns_ttl e = max dnsMinTTL (min dnsMaxTTL (uint (dn_TTL e) * second)))"
proof -
  have "uint (dn_TTL e) < 2 ^ 32" using uint_lt2p [of "dn_TTL e"] by simp
  then show ?thesis by (auto simp: dns_ttl_def Let_def)
qed

theorem dns_ttl_bounds_witness:
  "let e = \<lparr>dn_EventTime = 0, dn_ClientIP = ''c'', dn_ClientPort = 0, dn_QName = ''q'', dn_QType = ''A'',
       dn_AnswerIP = ''a'', dn_TTL = 4294967295, dn_TTLUnknown = False\<rparr>
   in dns_ttl e = max dnsMinTTL (min dnsMaxTTL (uint (dn_TTL e) * second)) \<and> dns_ttl e = hour"
  using dns_ttl_bounds [of "\<lparr>dn_EventTime = 0, dn_ClientIP = ''c'', dn_ClientPort = 0, dn_QName = ''q'',
       dn_QType = ''A'', dn_AnswerIP = ''a'', dn_TTL = 4294967295, dn_TTLUnknown = False\<rparr>"]
  by (simp add: Let_def)

section \<open>What the eviction sheds\<close>

text \<open>When nothing has expired, the victims are the entries with the earliest deadlines.\<close>

lemma live_evictions:
  assumes "lists_keys ks (entries s)" and live: "\<And>k. \<not> is_expired now (entries s) k"
  shows "length (selectEvictions ks now s) = min (dns_shed s) (length ks)"
    and "v \<in> set (selectEvictions ks now s) \<Longrightarrow> k \<in> dom (entries s) - set (selectEvictions ks now s) \<Longrightarrow>
      db_deadline (the (entries s v)) \<le> db_deadline (the (entries s k))"
proof -
  let ?all = "List.map_filter (live_victim now (entries s)) ks" and ?K = "kept_oldest ks now s"
  have ks: "set ks = dom (entries s)" using assms(1) by (simp add: lists_keys_def)
  have keys: "map vi_key ?all = ks"
    using live ks by (auto simp: map_filter_keys filter_id_conv)
  have sel: "mset ?K \<subseteq># mset ?all" "length ?K = min (dns_shed s) (length ?all)"
    "\<And>y z. y \<in># mset ?K \<Longrightarrow> z \<in># mset ?all - mset ?K \<Longrightarrow> vi_deadline y \<le> vi_deadline z"
    using kept_oldest_selects [of s now ks] by (auto simp: heapq.selects_def)
  have V: "selectEvictions ks now s = map vi_key ?K"
    using sel(2) live by (simp add: selectEvictions_eq)
  have "length ?all = length ks" using arg_cong [OF keys, of length] by simp
  then show "length (selectEvictions ks now s) = min (dns_shed s) (length ks)" using sel(2) by (simp add: V)
  have dl: "db_deadline (the (entries s (vi_key v))) = vi_deadline v" if "v \<in> set ?all" for v
    using that unfolding set_map_filter' by (auto simp: live_victim_def split: option.splits if_splits)
  assume v: "v \<in> set (selectEvictions ks now s)" and k: "k \<in> dom (entries s) - set (selectEvictions ks now s)"
  obtain y where y: "y \<in> set ?K" "v = vi_key y" using v V by auto
  have "k \<in> set (map vi_key ?all)" using k ks keys by simp
  then obtain z where z: "z \<in> set ?all" "k = vi_key z" by auto
  have "z \<notin> set ?K" using z k V by auto
  then have "count (mset ?K) z = 0" "0 < count (mset ?all) z"
    using z(1) by (metis not_in_iff set_mset_mset) (metis count_greater_zero_iff set_mset_mset z(1))
  then have "z \<in># mset ?all - mset ?K" by (simp only: in_diff_count)
  with sel(3) y(1) have "vi_deadline y \<le> vi_deadline z" by simp
  moreover have "y \<in> set ?all" using y(1) set_mset_mono [OF sel(1)] by auto
  ultimately show "db_deadline (the (entries s v)) \<le> db_deadline (the (entries s k))"
    using dl [of y] dl [of z] y(2) z by simp
qed

text \<open>C25. When nothing has expired, the eviction sheds the right entries: a sixteenth of the cap (at
  least one, at most all), each once, and no entry that stays has an earlier deadline than one
  that goes. Entries that have expired all go.\<close>

theorem dns_eviction_sheds_oldest:
  assumes "lists_keys ks (entries s)" and "V = selectEvictions ks now s"
  shows "(\<forall>k b. entries s k = Some b \<longrightarrow> db_deadline b < now \<longrightarrow> k \<in> set V)
    \<and> ((\<forall>k b. entries s k = Some b \<longrightarrow> now \<le> db_deadline b) \<longrightarrow>
         length V = min (dns_shed s) (length ks) \<and> distinct V
         \<and> (\<forall>v\<in>set V. \<forall>k\<in>dom (entries s) - set V.
              db_deadline (the (entries s v)) \<le> db_deadline (the (entries s k))))"
proof -
  have "set ks = dom (entries s)" using assms(1) by (simp add: lists_keys_def)
  then have "k \<in> set V" if "entries s k = Some b" "db_deadline b < now" for k b
    using that unfolding assms(2) selectEvictions_eq by (auto simp: is_expired_def)
  moreover have "\<not> is_expired now (entries s) k" if "\<forall>k b. entries s k = Some b \<longrightarrow> now \<le> db_deadline b" for k
    using that by (auto simp: is_expired_def not_less [symmetric])
  then have "length V = min (dns_shed s) (length ks) \<and> distinct V
      \<and> (\<forall>v\<in>set V. \<forall>k\<in>dom (entries s) - set V. db_deadline (the (entries s v)) \<le> db_deadline (the (entries s k)))"
    if "\<forall>k b. entries s k = Some b \<longrightarrow> now \<le> db_deadline b"
    using that live_evictions [OF assms(1)] selectEvictions_keys(1) [OF assms(1), of now]
    unfolding assms(2) by blast
  ultimately show ?thesis by blast
qed

section \<open>A small store for the examples\<close>

definition dns_ev :: "string \<Rightarrow> string \<Rightarrow> string \<Rightarrow> uint32 \<Rightarrow> time \<Rightarrow> DnsEvent" where
  "dns_ev c a q ttl t = \<lparr>dn_EventTime = t, dn_ClientIP = c, dn_ClientPort = 0, dn_QName = q,
     dn_QType = ''A'', dn_AnswerIP = a, dn_TTL = ttl, dn_TTLUnknown = False\<rparr>"

definition ex_key :: "string \<Rightarrow> dnsKey" where
  "ex_key a = \<lparr>k_clientIP = ''c'', k_answerIP = a\<rparr>"

definition ex_binding :: "time \<Rightarrow> dnsBinding" where
  "ex_binding d = \<lparr>db_hostname = ''h'', db_eventTime = 0, db_deadline = d\<rparr>"

lemma lists_keys_upd:
  "lists_keys ks m \<Longrightarrow> m k = None \<Longrightarrow> lists_keys (k # ks) (m(k \<mapsto> b))"
  by (auto simp: lists_keys_def)

lemma lists_keys_empty [simp]: "lists_keys [] Map.empty"
  by (simp add: lists_keys_def)

definition ex_dns :: "nat \<Rightarrow> (string \<times> time) list \<Rightarrow> unit DNSStore" where
  "ex_dns cap ds = (dns_empty cap)\<lparr>entries := foldr (\<lambda>(a, d) m. m(ex_key a \<mapsto> ex_binding d)) ds Map.empty\<rparr>"

theorem dns_cap_witness:
  "\<exists>s :: unit DNSStore. dns_run (dns_empty 1) [dns_ev ''c'' ''a'' ''x'' 9 5, dns_ev ''c'' ''b'' ''y'' 9 6] s
     \<and> card (dom (entries s)) \<le> 1"
proof -
  let ?s0 = "dns_empty 1 :: unit DNSStore"
  let ?e1 = "dns_ev ''c'' ''a'' ''x'' 9 5" and ?e2 = "dns_ev ''c'' ''b'' ''y'' 9 6"
  let ?s1 = "applyDNS [] 5 ?e1 ?s0"
  have r1: "dns_run ?s0 ([] @ [?e1]) ?s1" by (intro dns_run.intros) simp
  have "entries ?s1 = Map.empty(dns_key ?e1 \<mapsto>
      \<lparr>db_hostname = ''x'', db_eventTime = 5, db_deadline = 5 + dns_ttl ?e1\<rparr>)"
    by (simp add: applyDNS_def dns_put_def dns_ev_def)
  then have "lists_keys [dns_key ?e1] (entries ?s1)" by (simp add: lists_keys_def)
  from dns_run.apply_event [OF r1 this, of ?e2 6]
  have "dns_run ?s0 [?e1, ?e2] (applyDNS [dns_key ?e1] 6 ?e2 ?s1)" by simp
  with dns_cap [OF this] show ?thesis by auto
qed

theorem dns_eviction_sheds_oldest_witness:
  "let s = ex_dns 16 [(''a'', 30), (''b'', 10), (''d'', 20)];
       V = selectEvictions [ex_key ''a'', ex_key ''b'', ex_key ''d''] 5 s
   in V = [ex_key ''b''] \<and> length V = min (dns_shed s) 3"
proof -
  let ?s = "ex_dns 16 [(''a'', 30), (''b'', 10), (''d'', 20)]"
  let ?ks = "[ex_key ''a'', ex_key ''b'', ex_key ''d'']"
  have e: "entries ?s = Map.empty(ex_key ''d'' \<mapsto> ex_binding 20, ex_key ''b'' \<mapsto> ex_binding 10, ex_key ''a'' \<mapsto> ex_binding 30)"
    by (simp add: ex_dns_def)
  have "lists_keys ?ks (entries ?s)" unfolding e by (auto simp: lists_keys_def ex_key_def)
  moreover have "\<forall>k b. entries ?s k = Some b \<longrightarrow> 5 \<le> db_deadline b"
    unfolding e by (auto simp: ex_binding_def split: if_splits)
  moreover have "selectEvictions ?ks 5 ?s = [ex_key ''b'']" by code_simp
  ultimately show ?thesis using dns_eviction_sheds_oldest [of ?ks ?s _ 5, OF _ refl]
    unfolding Let_def by (simp add: numeral_3_eq_3)
qed

text \<open>With some entries expired the top-up sheds the wrong live entry: the heap's array starts
  with the latest deadline it kept, so when one of two slots is freed by an expired entry the
  second goes to the later of the two oldest live entries, and the earliest deadline stays.\<close>

theorem dns_eviction_top_up_wrong:
  "let s = ex_dns 32 [(''old'', 1), (''a'', 10), (''b'', 20), (''d'', 30)];
       V = selectEvictions [ex_key ''old'', ex_key ''a'', ex_key ''b'', ex_key ''d''] 5 s
   in dns_shed s = 2 \<and> V = [ex_key ''old'', ex_key ''b'']
      \<and> db_deadline (the (entries s (ex_key ''a''))) < db_deadline (the (entries s (ex_key ''b'')))"
  by code_simp

section \<open>Which resolution wins\<close>

text \<open>What a binding says apart from its deadline, ordered by time and then by host name.\<close>

definition dns_view :: "'p DNSStore \<Rightarrow> dnsKey \<Rightarrow> (time \<times> string) option" where
  "dns_view s k = map_option (\<lambda>b. (db_eventTime b, db_hostname b)) (entries s k)"

definition dns_facts :: "dnsKey \<Rightarrow> DnsEvent set \<Rightarrow> (time \<times> string) set" where
  "dns_facts k E = {(dn_EventTime e, dn_QName e) | e. e \<in> E \<and> dns_key e = k \<and> dn_AnswerIP e \<noteq> '''' \<and> dn_QName e \<noteq> ''''}"

definition max_fact :: "(time \<times> string) set \<Rightarrow> (time \<times> string) option" where
  "max_fact F = (if F = {} then None else Some (Max F))"

lemma dns_facts_simps:
  "dns_facts k {} = {}"
  "dns_facts k (insert e E) =
     (if dns_key e = k \<and> dn_AnswerIP e \<noteq> '''' \<and> dn_QName e \<noteq> ''''
      then insert (dn_EventTime e, dn_QName e) (dns_facts k E) else dns_facts k E)"
  by (auto simp: dns_facts_def)

lemma finite_dns_facts: "finite E \<Longrightarrow> finite (dns_facts k E)"
  by (induction E rule: finite_induct) (simp_all add: dns_facts_simps)

lemma max_fact_insert: "finite F \<Longrightarrow> max_fact (insert x F) =
    (case max_fact F of None \<Rightarrow> Some x | Some y \<Rightarrow> Some (max x y))"
  by (simp add: max_fact_def)

lemma dns_view_apply:
  assumes "length ks < maxSize s"
  shows "dns_view (applyDNS ks now e s) k =
    (if dns_key e = k \<and> dn_AnswerIP e \<noteq> '''' \<and> dn_QName e \<noteq> ''''
     then (case dns_view s k of None \<Rightarrow> Some (dn_EventTime e, dn_QName e)
           | Some y \<Rightarrow> Some (max (dn_EventTime e, dn_QName e) y))
     else dns_view s k)"
  using assms
  by (cases "entries s (dns_key e)")
    (auto simp: applyDNS_def dns_view_def dns_put_def Let_def max_def less_eq_prod_simp split: if_splits)

text \<open>Applying events below the cap: each step brings its own range order and clock.\<close>

definition dns_apply_all :: "(dnsKey list \<times> time \<times> DnsEvent) list \<Rightarrow> 'p DNSStore \<Rightarrow> 'p DNSStore" where
  "dns_apply_all steps s = fold (\<lambda>(ks, now, e). applyDNS ks now e) steps s"

abbreviation step_event :: "dnsKey list \<times> time \<times> DnsEvent \<Rightarrow> DnsEvent" where
  "step_event st \<equiv> snd (snd st)"

lemma dns_apply_all_max: "maxSize (dns_apply_all steps s) = maxSize s"
  unfolding dns_apply_all_def by (induction steps arbitrary: s) (auto split: prod.splits)



text \<open>The trust horizon is not independent of the order: two resolutions of one instant and one
  host name with different TTLs leave the deadline of whichever was applied first.\<close>

theorem dns_tie_deadline_depends_on_order:
  "let e = dns_ev ''c'' ''a'' ''h'' 100 5; f = dns_ev ''c'' ''a'' ''h'' 900 5;
       s = dns_empty 4 :: unit DNSStore
   in map_option db_deadline (entries (dns_apply_all [([], 1, e), ([ex_key ''a''], 1, f)] s) (ex_key ''a''))
        = Some (5 + 100 * second)
    \<and> map_option db_deadline (entries (dns_apply_all [([], 1, f), ([ex_key ''a''], 1, e)] s) (ex_key ''a''))
        = Some (5 + 900 * second)"
  by code_simp

end
