(* ===== verification/DnsScan.thy ===== *)
theory DnsScan
  imports DnsProps
begin

text \<open>
  The DNS pipeline around the map: what the BIND parser emits, where an answer of the store
  comes from, the isolation of the per-file parsers, one scan as a whole, and the delivery of
  the events to ClickHouse.
\<close>

section \<open>The parser's contract\<close>

lemma parseDNSLine_shape:
  assumes "parseDNSLine line loc = Inr evs" "evs \<noteq> []"
  shows "\<exists>ts c p q. q \<noteq> '''' \<and> ((\<exists>ty. evs = [no_answer ts c p q ty])
    \<or> (\<exists>as. evs = List.map_filter (dns_answer ts c p q) as))"
  using assms
  by (auto simp: parseDNSLine_def Let_def split: sum.splits option.splits prod.splits if_splits) blast+

text \<open>The BIND parser emits only usable events: a line it does not skip or reject yields at
  least one event, all of one instant, client, port and non-empty host name, each either
  without an answer or with an answer that parses as an address of the family of its type.\<close>

theorem dns_line_contract:
  assumes "parseDNSLine line loc = Inr evs"
  shows "(evs = [] \<longleftrightarrow> trimSpace line = '''' \<or>
      \<not> contains (trimSpace line) '': response: '' \<and> \<not> contains (trimSpace line) '': query: '')
    \<and> (\<exists>ts c p q. \<forall>e\<in>set evs. dn_EventTime e = ts \<and> dn_ClientIP e = c \<and> dn_ClientPort e = p
        \<and> dn_QName e = q \<and> dns_event_ok e \<and> \<not> dn_TTLUnknown e)"
proof -
  have "\<exists>ts c p q. \<forall>e\<in>set evs. dn_EventTime e = ts \<and> dn_ClientIP e = c \<and> dn_ClientPort e = p
        \<and> dn_QName e = q \<and> dns_event_ok e \<and> \<not> dn_TTLUnknown e"
  proof (cases "evs = []")
    case True
    then show ?thesis by simp
  next
    case False
    have na: "q \<noteq> '''' \<Longrightarrow> dns_event_ok (no_answer ts c p q ty)" for ts c p q ty
      by (simp add: dns_event_ok_def no_answer_def)
    obtain ts c p q ty as where q: "q \<noteq> ''''"
      and evs: "evs = [no_answer ts c p q ty] \<or> evs = List.map_filter (dns_answer ts c p q) as"
      using parseDNSLine_shape [OF assms False] by blast
    show ?thesis
    proof (intro exI ballI)
      fix e assume "e \<in> set evs"
      with evs have "e = no_answer ts c p q ty \<or> (\<exists>a. dns_answer ts c p q a = Some e)"
        by (auto simp: set_map_filter')
      then show "dn_EventTime e = ts \<and> dn_ClientIP e = c \<and> dn_ClientPort e = p
          \<and> dn_QName e = q \<and> dns_event_ok e \<and> \<not> dn_TTLUnknown e"
        using na [OF q] dns_answer_ok [OF _ q] by (auto simp: no_answer_def)
    qed
  qed
  moreover have "evs = [] \<longleftrightarrow> trimSpace line = '''' \<or>
      \<not> contains (trimSpace line) '': response: '' \<and> \<not> contains (trimSpace line) '': query: ''"
    using parseDNSLine_skip [of line loc] assms by simp
  ultimately show ?thesis by blast
qed

theorem dns_line_contract_witness:
  "let line = ''08-Jul-2026 09:15:00.123 client @0x7f 10.0.0.5#54321 (h): query: H.ex. IN A +E(0)K (10.0.0.1)''
   in \<exists>e. parseDNSLine line UTC = Inr [e] \<and> dns_event_ok e \<and> dn_QName e = ''h.ex'' \<and> dn_ClientPort e = 54321"
proof -
  let ?line = "''08-Jul-2026 09:15:00.123 client @0x7f 10.0.0.5#54321 (h): query: H.ex. IN A +E(0)K (10.0.0.1)''"
  let ?e = "no_answer 1783502100123000000 ''10.0.0.5'' 54321 ''h.ex'' ''A''"
  have p: "parseDNSLine ?line UTC = Inr [?e]" by code_simp
  from dns_line_contract [OF p] have "dns_event_ok ?e" by auto
  with p show ?thesis unfolding Let_def by (intro exI [of _ ?e]) (simp add: no_answer_def)
qed

section \<open>Where an answer comes from\<close>

lemma dns_put_entries:
  "entries (applyDNS ks now e s) k = Some b \<Longrightarrow>
     entries s k = Some b
     \<or> (k = dns_key e \<and> dn_AnswerIP e \<noteq> '''' \<and> dn_QName e \<noteq> '''' \<and> db_hostname b = dn_QName e
        \<and> db_deadline b = dn_EventTime e + dns_ttl e)"
  by (auto simp: applyDNS_def dns_put_def Let_def dns_delete_apply split: option.splits if_splits)

text \<open>A host name on a flow was resolved: whatever the order of the events, the evictions and the
  sweeps, a name the store gives for a client and an address was answered to that client for
  that address by an event at most an hour old.\<close>

theorem dns_lookup_provenance:
  assumes "dns_run (dns_empty cap) es s" and "dns_Lookup now s c a = h" "h \<noteq> ''''"
  shows "\<exists>e\<in>set es. dn_ClientIP e = c \<and> dn_AnswerIP e = a \<and> dn_QName e = h
    \<and> now \<le> dn_EventTime e + hour"
proof -
  have inv: "\<exists>e\<in>set es. k = dns_key e \<and> db_hostname b = dn_QName e \<and> db_deadline b \<le> dn_EventTime e + hour"
    if "entries s k = Some b" for k b
    using assms(1) that
  proof (induction arbitrary: k b rule: dns_run.induct)
    case start
    then show ?case by simp
  next
    case (apply_event es s ks e now)
    have "dns_ttl e \<le> hour" using dns_ttl_bounds [of e] by simp
    then show ?case using dns_put_entries [OF apply_event.prems] apply_event.IH by fastforce
  next
    case (sweep es s now)
    then show ?case by (auto simp: dns_evictExpired_def evict_map_Some)
  qed
  from assms(2,3) obtain b where "entries s \<lparr>k_clientIP = c, k_answerIP = a\<rparr> = Some b"
    "db_hostname b = h" "now \<le> db_deadline b"
    by (auto simp: dns_Lookup_def split: option.splits if_splits)
  then show ?thesis using inv by (fastforce simp: dns_key_def)
qed

theorem dns_lookup_provenance_witness:
  "let s = applyDNS [] 5 (dns_ev ''c'' ''a'' ''x'' 9 5) (dns_empty 1 :: unit DNSStore)
   in dns_Lookup 7 s ''c'' ''a'' = ''x'' \<and> (\<exists>e\<in>set [dns_ev ''c'' ''a'' ''x'' 9 5]. dn_QName e = ''x'')"
proof -
  let ?s = "applyDNS [] 5 (dns_ev ''c'' ''a'' ''x'' 9 5) (dns_empty 1 :: unit DNSStore)"
  have "dns_run (dns_empty 1) ([] @ [dns_ev ''c'' ''a'' ''x'' 9 5]) ?s" by (intro dns_run.intros) simp
  moreover have "dns_Lookup 7 ?s ''c'' ''a'' = ''x''" by code_simp
  ultimately show ?thesis using dns_lookup_provenance [of 1 "[dns_ev ''c'' ''a'' ''x'' 9 5]" ?s 7 "''c''" "''a''" "''x''"]
    unfolding Let_def by simp
qed

interpretation dnx: expiring_store entries db_deadline "\<lambda>_. False" dns_evictExpired
  by unfold_locales (simp add: dns_evictExpired_def evict_map_apply)

lemma dns_Lookup_sweep: "now \<le> T \<Longrightarrow> dns_Lookup T (dns_evictExpired now s) c a = dns_Lookup T s c a"
  using dnx.live_evict [of now T s "\<lparr>k_clientIP = c, k_answerIP = a\<rparr>"]
  by (auto simp: dns_Lookup_def dnx.live_def split: option.splits if_splits)

section \<open>Per-file parsers\<close>

text \<open>What the parsers of a feed emit, line by line, with the file each event list came from.\<close>

definition parser_of :: "'p dns_parser \<Rightarrow> (string \<rightharpoonup> 'p) \<Rightarrow> string \<Rightarrow> 'p" where
  "parser_of lp ps path = (case ps path of None \<Rightarrow> lp_init lp | Some p \<Rightarrow> p)"

fun feed_events :: "'p dns_parser \<Rightarrow> feed list \<Rightarrow> (string \<rightharpoonup> 'p) \<Rightarrow> (string \<times> (parse_error + DnsEvent list)) list" where
  "feed_events lp [] ps = []"
| "feed_events lp (FLine path line # fs) ps =
     (let (r, p') = lp_feed lp line (parser_of lp ps path)
      in (path, r) # feed_events lp fs (ps(path \<mapsto> p')))"
| "feed_events lp (FTruncated path # fs) ps = feed_events lp fs (ps(path := None))"

lemma restrict_single:
  "parser_of lp (ps |` {path}) path = parser_of lp ps path"
  "(ps |` {path})(path := v) = ps(path := v) |` {path}"
  "q \<noteq> path \<Longrightarrow> ps(q := v) |` {path} = ps |` {path}"
  by (auto simp: parser_of_def restrict_map_def fun_eq_iff)

text \<open>No evidence crosses files: what the parser of one file emits is a function of that file's
  own lines and truncations, whatever the other files of the directory hold and however the
  lines interleave.\<close>

theorem dns_files_isolated:
  "filter (\<lambda>(q, r). q = path) (feed_events lp fs ps)
   = feed_events lp (filter (\<lambda>f. feed_path f = path) fs) (ps |` {path})"
proof (induction fs arbitrary: ps)
  case Nil
  show ?case by simp
next
  case (Cons f fs)
  show ?case
  proof (cases f)
    case (FLine q line)
    obtain r p' where "lp_feed lp line (parser_of lp ps q) = (r, p')" by fastforce
    then show ?thesis
      using FLine by (cases "q = path") (simp_all add: Cons.IH restrict_single del: fun_upd_apply)
  next
    case (FTruncated q)
    then show ?thesis
      by (cases "q = path") (simp_all add: Cons.IH restrict_single del: fun_upd_apply)
  qed
qed

section \<open>A scan\<close>

definition good_events :: "parse_error + DnsEvent list \<Rightarrow> DnsEvent list" where
  "good_events r = (case r of Inl e \<Rightarrow> [] | Inr evs \<Rightarrow> evs)"

text \<open>Applying an event in a scan, without the counters and the writer.\<close>

definition scan_apply :: "((dnsKey \<rightharpoonup> dnsBinding) \<Rightarrow> dnsKey list) \<Rightarrow> time \<Rightarrow> DnsEvent \<Rightarrow> 'p DNSStore \<Rightarrow> 'p DNSStore" where
  "scan_apply rng now e s = applyDNS (rng (entries s)) now e s"

definition same_entries :: "'p DNSStore \<Rightarrow> 'p DNSStore \<Rightarrow> bool" where
  "same_entries s t \<longleftrightarrow> entries s = entries t \<and> maxSize s = maxSize t"

lemma applyDNS_entries:
  "entries (applyDNS ks now e s) =
     (if dn_AnswerIP e = '''' \<or> dn_QName e = '''' then entries s
      else let m = (if entries s (dns_key e) = None \<and> maxSize s \<le> length ks
                    then dns_delete (selectEvictions ks now s) (entries s) else entries s);
               m' = m(dns_key e \<mapsto> \<lparr>db_hostname = dn_QName e, db_eventTime = dn_EventTime e,
                                   db_deadline = dn_EventTime e + dns_ttl e\<rparr>)
           in case m (dns_key e) of
                None \<Rightarrow> m'
              | Some b \<Rightarrow> if dn_EventTime e < db_eventTime b then m
                  else if dn_EventTime e = db_eventTime b \<and> dn_QName e \<le> db_hostname b then m else m')"
  by (auto simp: applyDNS_def dns_put_def dns_delete_def Let_def split: option.split)

lemma same_entries_apply:
  assumes "same_entries s t"
  shows "entries (applyDNS ks now e s) = entries (applyDNS ks now e t)"
proof -
  have e: "entries s = entries t" "maxSize s = maxSize t" using assms by (simp_all add: same_entries_def)
  have "selectEvictions ks now s = selectEvictions ks now t"
    unfolding selectEvictions_def dns_shed_def e ..
  then show ?thesis unfolding applyDNS_entries e by (rule ssubst) (rule refl)
qed

lemma same_entries_scan_apply: "same_entries s t \<Longrightarrow> same_entries (scan_apply rng now e s) (scan_apply rng now e t)"
  using same_entries_apply [of s t "rng (entries s)" now e]
  by (simp add: scan_apply_def same_entries_def)

lemma ingest_event_effect:
  "same_entries (ingest_event rng now e s) (scan_apply rng now e s)"
  "dn_ch (ingest_event rng now e s) = map_option (dw_add e) (dn_ch s)"
  "parsers (ingest_event rng now e s) = parsers s"
proof -
  have "same_entries (s\<lparr>dnsEventsParsed := n\<rparr>) s" for n by (simp add: same_entries_def)
  note a = same_entries_apply [OF this, of "rng (entries s)" now e]
  show "same_entries (ingest_event rng now e s) (scan_apply rng now e s)"
    "dn_ch (ingest_event rng now e s) = map_option (dw_add e) (dn_ch s)"
    "parsers (ingest_event rng now e s) = parsers s"
    using a by (auto simp: ingest_event_def scan_apply_def same_entries_def Let_def split: option.splits)
qed

definition dw_add_all :: "DnsEvent list \<Rightarrow> chDNSWriter \<Rightarrow> chDNSWriter" where
  "dw_add_all es w = w\<lparr>dw_dns := dw_dns w @ es\<rparr>"

lemma dw_add_all_simps [simp]:
  "dw_add_all [] w = w" "dw_add_all es (dw_add e w) = dw_add_all (e # es) w"
  "dw_add_all es (dw_add_all es' w) = dw_add_all (es' @ es) w"
  by (simp_all add: dw_add_all_def dw_add_def)

lemma dw_add_none [simp]: "map_option (dw_add_all []) w = w"
  by (cases w) simp_all

lemma ingest_events_effect:
  "same_entries s t \<Longrightarrow> same_entries (fold (ingest_event rng now) evs s) (fold (scan_apply rng now) evs t)
   \<and> dn_ch (fold (ingest_event rng now) evs s) = map_option (dw_add_all evs) (dn_ch s)
   \<and> parsers (fold (ingest_event rng now) evs s) = parsers s"
proof (induction evs arbitrary: s t)
  case Nil
  then show ?case by (simp add: option.map_ident)
next
  case (Cons e evs)
  have "same_entries (ingest_event rng now e s) (scan_apply rng now e t)"
    using ingest_event_effect(1) [of rng now e s] same_entries_scan_apply [OF Cons.prems, of rng now e]
    by (simp add: same_entries_def)
  from Cons.IH [OF this] show ?case
    by (simp add: ingest_event_effect(2,3) option.map_comp comp_def)
qed

abbreviation dns_feed where
  "dns_feed lp rng now \<equiv> apply_feed (ingestDNS lp rng now) dns_onTruncate"

lemma dns_feed_effect:
  "same_entries s t \<Longrightarrow>
   same_entries (fold (dns_feed lp rng now) fs s)
     (fold (scan_apply rng now) (concat (map (good_events \<circ> snd) (feed_events lp fs (parsers s)))) t)
   \<and> dn_ch (fold (dns_feed lp rng now) fs s)
     = map_option (dw_add_all (concat (map (good_events \<circ> snd) (feed_events lp fs (parsers s))))) (dn_ch s)"
proof (induction fs arbitrary: s t)
  case Nil
  then show ?case by (simp add: option.map_ident)
next
  case (Cons f fs)
  show ?case
  proof (cases f)
    case (FTruncated path)
    have "same_entries (dns_onTruncate path s) t" "dn_ch (dns_onTruncate path s) = dn_ch s"
      "parsers (dns_onTruncate path s) = (parsers s)(path := None)"
      using Cons.prems by (simp_all add: same_entries_def dns_onTruncate_def)
    then show ?thesis using Cons.IH [of "dns_onTruncate path s" t] FTruncated by (simp add: fun_upd_def)
  next
    case (FLine path line)
    obtain r p' where f: "lp_feed lp line (parser_of lp (parsers s) path) = (r, p')" by fastforce
    let ?s1 = "s\<lparr>parsers := (parsers s)(path \<mapsto> p')\<rparr>" and ?u = "ingestDNS lp rng now path line s"
    have u: "?u = (case r of Inl e \<Rightarrow> ?s1\<lparr>dnsParseErrors := dnsParseErrors s + 1\<rparr>
                  | Inr evs \<Rightarrow> fold (ingest_event rng now) evs ?s1)"
      using f by (cases r) (simp_all add: ingestDNS_def parser_of_def Let_def)
    have s1: "same_entries ?s1 t" using Cons.prems by (simp add: same_entries_def)
    have eff: "same_entries ?u (fold (scan_apply rng now) (good_events r) t)"
      "dn_ch ?u = map_option (dw_add_all (good_events r)) (dn_ch s)"
      "parsers ?u = (parsers s)(path \<mapsto> p')"
      using ingest_events_effect [OF s1, of rng now] s1 unfolding u
      by (auto simp: good_events_def same_entries_def option.map_ident split: sum.splits)
    show ?thesis
      using Cons.IH [OF eff(1)] FLine f eff(2,3)
      by (simp add: Let_def option.map_comp comp_def fun_upd_def)
  qed
qed

text \<open>A DNS scan is the events of the newly completed lines, parsed per file: it applies them in
  order, sweeps at its clock reading, appends them to the writer's buffer and flushes it once.
  Skipped and malformed lines have no effect on any answer.\<close>

theorem dns_scan_refines:
  fixes lp rng send listing now s c
  defines "evs \<equiv> concat (map (good_events \<circ> snd)
      (feed_events lp (snd (scan_log (dnsDir s) listing (dn_offsets s))) (parsers s)))"
    and "t \<equiv> fst (dns_scan lp rng send listing now (s, c))"
  shows "entries t = entries (dns_evictExpired now (fold (scan_apply rng now) evs s))
    \<and> dn_ch t = map_option (\<lambda>w. fst (dw_flush send (dw_add_all evs w) c)) (dn_ch s)"
proof -
  let ?f = "fold (dns_feed lp rng now) (snd (scan_log (dnsDir s) listing (dn_offsets s))) s"
  have "same_entries s s" by (simp add: same_entries_def)
  from dns_feed_effect [OF this, of lp rng now "snd (scan_log (dnsDir s) listing (dn_offsets s))"]
  have e: "entries ?f = entries (fold (scan_apply rng now) evs s)"
    and ch: "dn_ch ?f = map_option (dw_add_all evs) (dn_ch s)"
    by (simp_all add: evs_def same_entries_def)
  show ?thesis using e ch
    by (auto simp: t_def dns_scan_def scanAppendedDir_log dns_flush_def dns_evictExpired_def
        split: option.splits prod.splits)
qed

section \<open>Delivery to ClickHouse\<close>

datatype dw_op = DwAdd DnsEvent | DwFlush

record 'c dw_state =
  dwm_writer :: chDNSWriter
  dwm_net :: "'c \<times> DnsEvent list"

text \<open>The writer as a machine; the second component of the net state logs the acknowledged rows.\<close>

fun dw_step :: "('c, DnsEvent) sender \<Rightarrow> dw_op \<Rightarrow> 'c dw_state \<Rightarrow> 'c dw_state" where
  "dw_step send (DwAdd e) s = s\<lparr>dwm_writer := dw_add e (dwm_writer s)\<rparr>"
| "dw_step send DwFlush s =
     (let (w, c) = dw_flush (recording send) (dwm_writer s) (dwm_net s)
      in \<lparr>dwm_writer = w, dwm_net = c\<rparr>)"

primrec dw_rows :: "dw_op \<Rightarrow> DnsEvent list" where
  "dw_rows (DwAdd e) = [e]" | "dw_rows DwFlush = []"

interpretation dwb: retry_buffer "dw_step send" "\<lambda>s. dw_dns (dwm_writer s)" "\<lambda>s. snd (dwm_net s)"
  dw_rows "\<lambda>s. dw_maxBuffer (dwm_writer s)" for send
proof
  show "(dw_dns (dwm_writer (dw_step send op s)) = dw_dns (dwm_writer s) @ dw_rows op
        \<and> snd (dwm_net (dw_step send op s)) = snd (dwm_net s))
     \<or> (dw_rows op = [] \<and> dw_dns (dwm_writer (dw_step send op s)) = []
        \<and> snd (dwm_net (dw_step send op s)) = snd (dwm_net s) @ dw_dns (dwm_writer s))
     \<or> (dw_rows op = [] \<and> dw_dns (dwm_writer (dw_step send op s))
            = capTail (dw_dns (dwm_writer s)) (dw_maxBuffer (dwm_writer s))
        \<and> snd (dwm_net (dw_step send op s)) = snd (dwm_net s))" for op s
    by (cases op) (auto simp: dw_flush_def dw_add_def flush_buffer_def recording_def split: prod.splits if_splits)
  show "dw_maxBuffer (dwm_writer (dw_step send op s)) = dw_maxBuffer (dwm_writer s)" for op s
    by (cases op) (auto simp: dw_flush_def dw_add_def split: prod.splits)
qed

text \<open>DNS events reach ClickHouse at most once and in order: after any interleaving of appends and
  flushes, with any failures, the acknowledged rows followed by the buffered ones are a
  subsequence of the rows appended, and exactly those rows unless the buffer overflowed.\<close>

theorem dns_events_delivered:
  fixes send :: "('c, DnsEvent) sender" and ops cap c
  defines "s \<equiv> fold (dw_step send) ops
      \<lparr>dwm_writer = \<lparr>dw_dns = [], dw_maxBuffer = cap\<rparr>, dwm_net = (c, [])\<rparr>"
    and "rows \<equiv> concat (map dw_rows ops)"
  shows "subseq (snd (dwm_net s) @ dw_dns (dwm_writer s)) rows
    \<and> (length rows \<le> cap \<longrightarrow> snd (dwm_net s) @ dw_dns (dwm_writer s) = rows)"
  using dwb.run_subseq [of send ops "\<lparr>dwm_writer = \<lparr>dw_dns = [], dw_maxBuffer = cap\<rparr>, dwm_net = (c, [])\<rparr>"]
    dwb.run_exact [of "\<lparr>dwm_writer = \<lparr>dw_dns = [], dw_maxBuffer = cap\<rparr>, dwm_net = (c, [])\<rparr>" ops send]
  unfolding s_def rows_def by simp

definition dw_ex_sender :: "'row list \<Rightarrow> bool list \<Rightarrow> bool \<times> bool list" where
  "dw_ex_sender rows c = (case c of [] \<Rightarrow> (True, []) | ok # r \<Rightarrow> (ok, r))"

definition dw_ex_ops :: "dw_op list" where
  "dw_ex_ops = [DwAdd (dns_ev ''c'' ''a'' ''x'' 9 5), DwFlush, DwAdd (dns_ev ''c'' ''b'' ''y'' 9 6), DwFlush]"

theorem dns_events_delivered_witness:
  "let s = fold (dw_step dw_ex_sender) dw_ex_ops
        \<lparr>dwm_writer = \<lparr>dw_dns = [], dw_maxBuffer = 5\<rparr>, dwm_net = ([False], [])\<rparr>
   in snd (dwm_net s) @ dw_dns (dwm_writer s) = concat (map dw_rows dw_ex_ops)"
proof -
  have "length (concat (map dw_rows dw_ex_ops)) \<le> 5" by (simp add: dw_ex_ops_def)
  then show ?thesis
    using dns_events_delivered [of dw_ex_sender dw_ex_ops 5 "[False]"] unfolding Let_def by blast
qed

end
