(* ===== verification/Flow.thy ===== *)
theory Flow
  imports Prelude
begin

text \<open>
  The data of the flow pipeline: the record goflow2 publishes (\<open>FlowMessage\<close> of \<open>main.go\<close>), the
  record with what the enrichers add (\<open>EnrichedFlow\<close>, which embeds the first, as the record
  extension does here), and the flat row of the ClickHouse table (\<open>FlowRow\<close> and \<open>toFlowRow\<close> of
  \<open>batchwriter.go\<close>). Integers have the width of the code. A \<open>float64\<close> is only copied by this
  program, never computed with, and is represented by its bit pattern.
\<close>

type_synonym float64 = "64 word"
type_synonym uint8 = "8 word"

record FlowMessage =
  fm_Type :: string
  fm_TimeFlowStartNs :: uint64
  fm_TimeFlowEndNs :: uint64
  fm_TimeReceivedNs :: uint64
  fm_SrcAddr :: string
  fm_DstAddr :: string
  fm_SrcPort :: uint32
  fm_DstPort :: uint32
  fm_Proto :: string
  fm_Bytes :: uint64
  fm_Packets :: uint64
  fm_SamplingRate :: uint64
  fm_SamplerAddress :: string
  fm_NextHop :: string
  fm_SrcAS :: uint32
  fm_DstAS :: uint32
  fm_TCPFlags :: uint32
  fm_InIf :: uint32
  fm_OutIf :: uint32
  fm_SequenceNum :: uint32
  fm_Etype :: string
  fm_SrcVlan :: uint32
  fm_DstVlan :: uint32
  fm_ForwardingStatus :: uint32
  fm_IPTos :: uint32
  fm_IPTTL :: uint32
  fm_ObservationDomainId :: uint32

record GeoData =
  gd_CountryCode :: string
  gd_City :: string
  gd_Lat :: float64
  gd_Lon :: float64
  gd_ASN :: uint32
  gd_OrgName :: string

text \<open>Go's zero values of the structs.\<close>

definition noFlow :: FlowMessage where
  "noFlow =
     \<lparr>fm_Type = '''', fm_TimeFlowStartNs = 0, fm_TimeFlowEndNs = 0, fm_TimeReceivedNs = 0,
     fm_SrcAddr = '''', fm_DstAddr = '''', fm_SrcPort = 0, fm_DstPort = 0, fm_Proto = '''',
     fm_Bytes = 0, fm_Packets = 0, fm_SamplingRate = 0, fm_SamplerAddress = '''', fm_NextHop =
     '''', fm_SrcAS = 0, fm_DstAS = 0, fm_TCPFlags = 0, fm_InIf = 0, fm_OutIf = 0,
     fm_SequenceNum = 0, fm_Etype = '''', fm_SrcVlan = 0, fm_DstVlan = 0, fm_ForwardingStatus =
     0, fm_IPTos = 0, fm_IPTTL = 0, fm_ObservationDomainId = 0\<rparr>"

definition noGeo :: GeoData where
  "noGeo = \<lparr>gd_CountryCode = '''', gd_City = '''', gd_Lat = 0, gd_Lon = 0, gd_ASN = 0, gd_OrgName = ''''\<rparr>"

record EnrichedFlow = FlowMessage +
  ef_SrcGeo :: GeoData
  ef_DstGeo :: GeoData
  ef_TenantID :: uint32
  ef_TenantName :: string
  ef_DstTenantID :: uint32
  ef_DstTenantName :: string
  ef_SrcMACToken :: string
  ef_SrcUserToken :: string
  ef_DstMACToken :: string
  ef_DstUserToken :: string
  ef_SrcHostname :: string
  ef_DstHostname :: string
  ef_IsThreatSrc :: bool
  ef_IsThreatDst :: bool
  ef_ThreatLabel :: string
  ef_IsSampled :: bool
  ef_ExpandedBytes :: uint64
  ef_ExpandedPackets :: uint64

record FlowRow =
  fr_Timestamp :: time
  fr_TenantID :: uint32
  fr_TenantName :: string
  fr_DstTenantID :: uint32
  fr_DstTenantName :: string
  fr_SrcMACToken :: string
  fr_SrcUserToken :: string
  fr_DstMACToken :: string
  fr_DstUserToken :: string
  fr_SrcHostname :: string
  fr_DstHostname :: string
  fr_SrcIP :: string
  fr_DstIP :: string
  fr_SrcPort :: uint32
  fr_DstPort :: uint32
  fr_Protocol :: string
  fr_Bytes :: uint64
  fr_Packets :: uint64
  fr_SrcCountry :: string
  fr_SrcCity :: string
  fr_SrcLat :: float64
  fr_SrcLon :: float64
  fr_SrcASN :: uint32
  fr_SrcOrg :: string
  fr_DstCountry :: string
  fr_DstCity :: string
  fr_DstLat :: float64
  fr_DstLon :: float64
  fr_DstASN :: uint32
  fr_DstOrg :: string
  fr_IsThreatSrc :: uint8
  fr_IsThreatDst :: uint8
  fr_ThreatLabel :: string
  fr_IsSampled :: uint8
  fr_SamplingRate :: uint64
  fr_ExpandedBytes :: uint64
  fr_ExpandedPackets :: uint64
  fr_ExporterIP :: string
  fr_FlowType :: string

text \<open>
  \<open>time.Unix(0, int64(ns))\<close>: the conversion of a \<open>uint64\<close> to \<open>int64\<close> reinterprets the bits, and
  every \<open>int64\<close> of nanoseconds is an instant.
\<close>

definition unixNano :: "uint64 \<Rightarrow> time" where
  "unixNano ns = sint ns"

definition toFlowRow :: "EnrichedFlow \<Rightarrow> FlowRow" where
  "toFlowRow e =
     (let ts = (if fm_TimeFlowStartNs e = 0 then unixNano (fm_TimeReceivedNs e)
                else unixNano (fm_TimeFlowStartNs e));
          isThreatSrc = (if ef_IsThreatSrc e then 1 else 0);
          isThreatDst = (if ef_IsThreatDst e then 1 else 0);
          isSampled = (if ef_IsSampled e then 1 else 0)
      in \<lparr>fr_Timestamp = ts,
          fr_TenantID = ef_TenantID e, fr_TenantName = ef_TenantName e,
          fr_DstTenantID = ef_DstTenantID e, fr_DstTenantName = ef_DstTenantName e,
          fr_SrcMACToken = ef_SrcMACToken e, fr_SrcUserToken = ef_SrcUserToken e,
          fr_DstMACToken = ef_DstMACToken e, fr_DstUserToken = ef_DstUserToken e,
          fr_SrcHostname = ef_SrcHostname e, fr_DstHostname = ef_DstHostname e,
          fr_SrcIP = fm_SrcAddr e, fr_DstIP = fm_DstAddr e,
          fr_SrcPort = fm_SrcPort e, fr_DstPort = fm_DstPort e, fr_Protocol = fm_Proto e,
          fr_Bytes = fm_Bytes e, fr_Packets = fm_Packets e,
          fr_SrcCountry = gd_CountryCode (ef_SrcGeo e), fr_SrcCity = gd_City (ef_SrcGeo e),
          fr_SrcLat = gd_Lat (ef_SrcGeo e), fr_SrcLon = gd_Lon (ef_SrcGeo e),
          fr_SrcASN = gd_ASN (ef_SrcGeo e), fr_SrcOrg = gd_OrgName (ef_SrcGeo e),
          fr_DstCountry = gd_CountryCode (ef_DstGeo e), fr_DstCity = gd_City (ef_DstGeo e),
          fr_DstLat = gd_Lat (ef_DstGeo e), fr_DstLon = gd_Lon (ef_DstGeo e),
          fr_DstASN = gd_ASN (ef_DstGeo e), fr_DstOrg = gd_OrgName (ef_DstGeo e),
          fr_IsThreatSrc = isThreatSrc, fr_IsThreatDst = isThreatDst,
          fr_ThreatLabel = ef_ThreatLabel e, fr_IsSampled = isSampled,
          fr_SamplingRate = fm_SamplingRate e, fr_ExpandedBytes = ef_ExpandedBytes e,
          fr_ExpandedPackets = ef_ExpandedPackets e,
          fr_ExporterIP = fm_SamplerAddress e, fr_FlowType = fm_Type e\<rparr>)"

text \<open>
  The instant of a row is the start of the flow where the exporter gave one. Below \<open>2^63\<close>
  nanoseconds (the year 2262) it is that number of nanoseconds; above, it wraps to before 1970.
\<close>

lemma unixNano_small:
  assumes "uint ns < 2 ^ 63"
  shows "unixNano ns = uint ns"
proof -
  have "- (2 ^ 63) \<le> uint ns" by (rule order_trans [of _ 0]) simp_all
  with assms show ?thesis unfolding unixNano_def sint_uint by (simp add: signed_take_bit_int_eq_self)
qed

lemma unixNano_range: "- (2 ^ 63) \<le> unixNano ns \<and> unixNano ns < 2 ^ 63"
  unfolding unixNano_def using sint_greater_eq [of ns] sint_less [of ns] by simp

lemma toFlowRow_time:
  "fr_Timestamp (toFlowRow e) =
     unixNano (if fm_TimeFlowStartNs e = 0 then fm_TimeReceivedNs e else fm_TimeFlowStartNs e)"
  by (simp add: toFlowRow_def Let_def)

end
