(* ===== verification/BatchWriter.thy ===== *)
theory BatchWriter
  imports Flow ClickHouse GoTime "HOL-Library.Multiset"
begin

text \<open>
  \<open>batchwriter.go\<close>: the buffer between the worker pool and the \<open>flows\<close> table. Workers append
  rows; a drain takes the whole buffer under the mutex, releases it, ships the rows in chunks of
  \<open>maxSize\<close>, and on a failure puts what was not written back in front of newer arrivals, cutting
  the buffer to its newest \<open>maxBuffer\<close> rows.

  The first part is the drain as one thread runs it. The second part is the machine of any
  number of workers, timers and drains, interleaved at the granularity of the mutex and of the
  network calls; its ghost fields record the fate of every row. The metrics counters the writer
  moves are fields of its state.
\<close>

section \<open>State\<close>

record 'row BatchWriter =
  bw_buffer :: "'row list"
  bw_maxSize :: nat
  bw_maxBuffer :: nat
  bw_maxAge :: duration
  bw_retryAfter :: time
  bw_rowsWritten :: nat
  bw_rowsDropped :: nat
  bw_flushes :: nat
  bw_writeErrors :: nat

definition NewBatchWriter :: "'row BatchWriter" where
  "NewBatchWriter =
     \<lparr>bw_buffer = [], bw_maxSize = 50000, bw_maxBuffer = 500000, bw_maxAge = second,
      bw_retryAfter = zeroTime, bw_rowsWritten = 0, bw_rowsDropped = 0, bw_flushes = 0,
      bw_writeErrors = 0\<rparr>"

section \<open>One round trip\<close>

text \<open>
  \<open>sendToClickHouse\<close>: the rows the driver rejects, then \<open>None\<close> for success or the rows to queue
  again. A failure to open the batch returns all rows and rejects none; a failure to send
  returns those that were appended.
\<close>

definition sendToClickHouse ::
  "('c, 'row) batch_driver \<Rightarrow> 'row list \<Rightarrow> 'c \<Rightarrow> ('row list \<times> 'row list option) \<times> 'c" where
  "sendToClickHouse d rows c =
     (let (ok, c1) = PrepareBatch d c
      in if \<not> ok then (([], Some rows), c1)
         else let appended = filter (Append d) rows;
                  malformed = filter (\<lambda>r. \<not> Append d r) rows;
                  (sent, c2) = Send d appended c1
              in ((malformed, if sent then None else Some appended), c2))"

section \<open>Operations under the mutex\<close>

text \<open>The first critical section of \<open>drain\<close>: take the buffer, unless there is nothing to do.\<close>

definition drain_take :: "bool \<Rightarrow> time \<Rightarrow> 'row BatchWriter \<Rightarrow> ('row list \<times> 'row BatchWriter) option" where
  "drain_take force now w =
     (if bw_buffer w = [] \<or> (\<not> force \<and> now < bw_retryAfter w) then None
      else Some (bw_buffer w, w\<lparr>bw_buffer := []\<rparr>))"

text \<open>The critical section after a failed chunk.\<close>

definition drain_requeue :: "'row list \<Rightarrow> time \<Rightarrow> 'row BatchWriter \<Rightarrow> 'row BatchWriter" where
  "drain_requeue unsent now w =
     (let b = unsent @ bw_buffer w;
          over = length b - bw_maxBuffer w
      in w\<lparr>bw_writeErrors := Suc (bw_writeErrors w),
           bw_retryAfter := now + bw_maxAge w,
           bw_buffer := (if 0 < over then drop over b else b),
           bw_rowsDropped := bw_rowsDropped w + over\<rparr>)"

text \<open>The counters a chunk moves.\<close>

definition count_malformed :: "'row list \<Rightarrow> 'row BatchWriter \<Rightarrow> 'row BatchWriter" where
  "count_malformed bad w = w\<lparr>bw_rowsDropped := bw_rowsDropped w + length bad\<rparr>"

definition count_chunk :: "nat \<Rightarrow> 'row BatchWriter \<Rightarrow> 'row BatchWriter" where
  "count_chunk n w =
     w\<lparr>bw_flushes := Suc (bw_flushes w), bw_rowsWritten := bw_rowsWritten w + n\<rparr>"

section \<open>The drain\<close>

text \<open>
  The loop over the chunks, in a world \<open>'c\<close> that also carries the clock (\<open>clock\<close> reads it). The
  loop does not end when \<open>maxSize\<close> is 0 and every empty chunk is accepted, so the value is an
  option and \<open>None\<close> stands for not returning.
\<close>

partial_function (option) drain_chunks ::
  "('c, 'row) batch_driver \<Rightarrow> ('c \<Rightarrow> time) \<Rightarrow> 'row list \<Rightarrow> 'row BatchWriter \<Rightarrow> 'c
   \<Rightarrow> ('row BatchWriter \<times> 'c) option" where
  "drain_chunks d clock rows w c =
     (if rows = [] then Some (w, c)
      else
        let chunk = take (bw_maxSize w) rows; later = drop (bw_maxSize w) rows;
            ((bad, res), c1) = sendToClickHouse d chunk c;
            w1 = count_malformed bad w
        in case res of
            Some retryable \<Rightarrow> Some (drain_requeue (retryable @ later) (clock c1) w1, c1)
          | None \<Rightarrow> drain_chunks d clock later (count_chunk (length chunk) w1) c1)"

definition drain ::
  "('c, 'row) batch_driver \<Rightarrow> ('c \<Rightarrow> time) \<Rightarrow> bool \<Rightarrow> 'row BatchWriter \<Rightarrow> 'c
   \<Rightarrow> ('row BatchWriter \<times> 'c) option" where
  "drain d clock force w c =
     (case drain_take force (clock c) w of
        None \<Rightarrow> Some (w, c)
      | Some (rows, w') \<Rightarrow> drain_chunks d clock rows w' c)"

definition bw_flush ::
  "('c, 'row) batch_driver \<Rightarrow> ('c \<Rightarrow> time) \<Rightarrow> 'row BatchWriter \<Rightarrow> 'c \<Rightarrow> ('row BatchWriter \<times> 'c) option" where
  "bw_flush d clock w c = drain d clock False w c"

text \<open>\<open>Add\<close>: append, and flush when the buffer has reached a batch.\<close>

definition bw_append :: "'row \<Rightarrow> 'row BatchWriter \<Rightarrow> 'row BatchWriter" where
  "bw_append r w = w\<lparr>bw_buffer := bw_buffer w @ [r]\<rparr>"

definition bw_Add ::
  "('c, 'row) batch_driver \<Rightarrow> ('c \<Rightarrow> time) \<Rightarrow> 'row \<Rightarrow> 'row BatchWriter \<Rightarrow> 'c
   \<Rightarrow> ('row BatchWriter \<times> 'c) option" where
  "bw_Add d clock r w c =
     (let w' = bw_append r w
      in if bw_maxSize w' \<le> length (bw_buffer w') then bw_flush d clock w' c else Some (w', c))"

text \<open>
  \<open>FinalDrain\<close>: forced drains until the buffer is empty or the attempts are used up. \<open>sleep\<close> is
  \<open>time.Sleep(w.maxAge)\<close>, which changes the world.
\<close>

partial_function (option) finalDrain_loop ::
  "('c, 'row) batch_driver \<Rightarrow> ('c \<Rightarrow> time) \<Rightarrow> ('c \<Rightarrow> 'c) \<Rightarrow> int \<Rightarrow> int \<Rightarrow> 'row BatchWriter \<Rightarrow> 'c
   \<Rightarrow> (nat \<times> 'row BatchWriter \<times> 'c) option" where
  "finalDrain_loop d clock sleep attempts i w c =
     Option.bind (drain d clock True w c)
       (\<lambda>(w', c'). let remaining = length (bw_buffer w')
          in if remaining = 0 \<or> attempts - 1 \<le> i then Some (remaining, w', c')
             else finalDrain_loop d clock sleep attempts (i + 1) w' (sleep c'))"

definition FinalDrain ::
  "('c, 'row) batch_driver \<Rightarrow> ('c \<Rightarrow> time) \<Rightarrow> ('c \<Rightarrow> 'c) \<Rightarrow> int \<Rightarrow> 'row BatchWriter \<Rightarrow> 'c
   \<Rightarrow> (nat \<times> 'row BatchWriter \<times> 'c) option" where
  "FinalDrain d clock sleep attempts w c = finalDrain_loop d clock sleep attempts 0 w c"

section \<open>The drain of one thread returns, and what it leaves\<close>

lemma send_parts:
  "sendToClickHouse d rows c = ((bad, res), c1) \<Longrightarrow>
     (bad = [] \<and> res = Some rows) \<or>
     (bad = filter (\<lambda>r. \<not> Append d r) rows \<and> (res = None \<or> res = Some (filter (Append d) rows)))"
  by (auto simp: sendToClickHouse_def Let_def split: prod.splits if_splits)

lemma requeue_buffer:
  "bw_buffer (drain_requeue u now w) = capTail (u @ bw_buffer w) (bw_maxBuffer w)"
  by (auto simp: drain_requeue_def capTail_def Let_def)

lemma requeue_bounded: "length (bw_buffer (drain_requeue u now w)) \<le> bw_maxBuffer w"
  by (simp add: requeue_buffer)

lemma bw_frames [simp]:
  "bw_maxSize (count_malformed b w) = bw_maxSize w" "bw_maxSize (count_chunk n w) = bw_maxSize w"
  "bw_maxSize (drain_requeue u t w) = bw_maxSize w" "bw_maxSize (bw_append r w) = bw_maxSize w"
  "bw_maxBuffer (count_malformed b w) = bw_maxBuffer w" "bw_maxBuffer (count_chunk n w) = bw_maxBuffer w"
  "bw_maxBuffer (drain_requeue u t w) = bw_maxBuffer w" "bw_maxBuffer (bw_append r w) = bw_maxBuffer w"
  "bw_buffer (count_malformed b w) = bw_buffer w" "bw_buffer (count_chunk n w) = bw_buffer w"
  "bw_buffer (bw_append r w) = bw_buffer w @ [r]"
  by (simp_all add: count_malformed_def count_chunk_def drain_requeue_def bw_append_def Let_def)

declare drain_chunks.simps [code]

text \<open>With a positive batch size the loop ends: it either empties or queues again.\<close>

lemma drain_chunks_returns:
  assumes "0 < bw_maxSize w"
  shows "\<exists>w' c'. drain_chunks d clock rows w c = Some (w', c')
           \<and> bw_maxSize w' = bw_maxSize w \<and> bw_maxBuffer w' = bw_maxBuffer w
           \<and> (bw_buffer w' = bw_buffer w \<or> length (bw_buffer w') \<le> bw_maxBuffer w)"
  using assms
proof (induction "length rows" arbitrary: rows w c rule: less_induct)
  case less
  show ?case
  proof (cases "rows = []")
    case True
    then show ?thesis by (simp add: drain_chunks.simps)
  next
    case False
    obtain bad res c1 where s: "sendToClickHouse d (take (bw_maxSize w) rows) c = ((bad, res), c1)"
      by (metis surj_pair)
    show ?thesis
    proof (cases res)
      case None
      have "length (drop (bw_maxSize w) rows) < length rows" using False less.prems by simp
      from less.hyps [OF this, of "count_chunk (length (take (bw_maxSize w) rows)) (count_malformed bad w)" c1]
      show ?thesis using False s None less.prems by (subst drain_chunks.simps) (simp add: Let_def)
    next
      case (Some u)
      then show ?thesis using False s requeue_bounded [of _ _ "count_malformed bad w"]
        by (subst drain_chunks.simps) (simp add: Let_def)
    qed
  qed
qed

lemma drain_returns:
  assumes "0 < bw_maxSize w"
  shows "\<exists>w' c'. drain d clock force w c = Some (w', c')
           \<and> bw_maxSize w' = bw_maxSize w \<and> bw_maxBuffer w' = bw_maxBuffer w
           \<and> (force \<longrightarrow> length (bw_buffer w') \<le> bw_maxBuffer w)"
proof (cases "drain_take force (clock c) w")
  case None
  then show ?thesis by (auto simp: drain_def drain_take_def split: if_splits)
next
  case (Some p)
  then obtain rows where "p = (rows, w\<lparr>bw_buffer := []\<rparr>)" by (auto simp: drain_take_def split: if_splits)
  with Some show ?thesis
    using drain_chunks_returns [of "w\<lparr>bw_buffer := []\<rparr>" d clock rows c] assms
    by (auto simp: drain_def)
qed

section \<open>Interleaved writers\<close>

text \<open>
  A drain in flight is between its chunks or about to queue rows again. The ghost fields are the
  multisets of the rows handed to \<open>Add\<close>, acknowledged by the server, rejected by the driver and
  cut by the cap.
\<close>

datatype 'row drainer = Sending "'row list" | Requeue "'row list"

primrec drainer_rows :: "'row drainer \<Rightarrow> 'row list" where
  "drainer_rows (Sending rows) = rows"
| "drainer_rows (Requeue rows) = rows"

record ('c, 'row) bw_sys =
  sy_w :: "'row BatchWriter"
  sy_net :: 'c
  sy_drains :: "'row drainer multiset"
  sy_added :: "'row multiset"
  sy_acked :: "'row multiset"
  sy_malformed :: "'row multiset"
  sy_overflow :: "'row multiset"

definition bw_start :: "'row BatchWriter \<Rightarrow> 'c \<Rightarrow> ('c, 'row) bw_sys" where
  "bw_start w c = \<lparr>sy_w = w, sy_net = c, sy_drains = {#}, sy_added = {#}, sy_acked = {#},
     sy_malformed = {#}, sy_overflow = {#}\<rparr>"

text \<open>
  The steps: a worker appends; a drain, forced or not, takes the buffer at any instant; a drain
  ends, ships a chunk, fails on a chunk, or takes the mutex to queue its rows again; the world
  changes on its own. Flush triggers need no step of their own: a drain may start at any time.
\<close>

inductive bw_step :: "('c, 'row) batch_driver \<Rightarrow> ('c, 'row) bw_sys \<Rightarrow> ('c, 'row) bw_sys \<Rightarrow> bool"
  for d :: "('c, 'row) batch_driver" where
  add: "bw_step d s (s\<lparr>sy_w := bw_append r (sy_w s), sy_added := add_mset r (sy_added s)\<rparr>)"
| take: "drain_take force now (sy_w s) = Some (rows, w') \<Longrightarrow>
    bw_step d s (s\<lparr>sy_w := w', sy_drains := add_mset (Sending rows) (sy_drains s)\<rparr>)"
| fin: "sy_drains s = add_mset (Sending []) D \<Longrightarrow> bw_step d s (s\<lparr>sy_drains := D\<rparr>)"
| sent: "sy_drains s = add_mset (Sending rows) D \<Longrightarrow> rows \<noteq> [] \<Longrightarrow>
    chunk = List.take (bw_maxSize (sy_w s)) rows \<Longrightarrow>
    sendToClickHouse d chunk (sy_net s) = ((bad, None), c1) \<Longrightarrow>
    bw_step d s (s\<lparr>sy_w := count_chunk (length chunk) (count_malformed bad (sy_w s)), sy_net := c1,
      sy_drains := add_mset (Sending (drop (bw_maxSize (sy_w s)) rows)) D,
      sy_acked := sy_acked s + mset (filter (Append d) chunk),
      sy_malformed := sy_malformed s + mset bad\<rparr>)"
| failed: "sy_drains s = add_mset (Sending rows) D \<Longrightarrow> rows \<noteq> [] \<Longrightarrow>
    chunk = List.take (bw_maxSize (sy_w s)) rows \<Longrightarrow>
    sendToClickHouse d chunk (sy_net s) = ((bad, Some retryable), c1) \<Longrightarrow>
    bw_step d s (s\<lparr>sy_w := count_malformed bad (sy_w s), sy_net := c1,
      sy_drains := add_mset (Requeue (retryable @ drop (bw_maxSize (sy_w s)) rows)) D,
      sy_malformed := sy_malformed s + mset bad\<rparr>)"
| requeue: "sy_drains s = add_mset (Requeue unsent) D \<Longrightarrow> b = unsent @ bw_buffer (sy_w s) \<Longrightarrow>
    bw_step d s (s\<lparr>sy_w := drain_requeue unsent now (sy_w s), sy_drains := D,
      sy_overflow := sy_overflow s + mset (List.take (length b - bw_maxBuffer (sy_w s)) b)\<rparr>)"
| world: "bw_step d s (s\<lparr>sy_net := c1\<rparr>)"

definition in_flight :: "('c, 'row) bw_sys \<Rightarrow> 'row multiset" where
  "in_flight s = (\<Sum>t\<in>#sy_drains s. mset (drainer_rows t))"

text \<open>
  Every row handed to \<open>Add\<close> is in exactly one place. The counter of dropped rows is exact; the
  counter of written rows is not: it also counts the malformed rows of an accepted chunk.
\<close>

definition bw_inv :: "('c, 'row) bw_sys \<Rightarrow> bool" where
  "bw_inv s \<longleftrightarrow>
     sy_added s = sy_acked s + sy_malformed s + sy_overflow s + mset (bw_buffer (sy_w s)) + in_flight s
     \<and> bw_rowsDropped (sy_w s) = size (sy_malformed s) + size (sy_overflow s)
     \<and> size (sy_acked s) \<le> bw_rowsWritten (sy_w s)
     \<and> bw_rowsWritten (sy_w s) \<le> size (sy_acked s) + size (sy_malformed s)
     \<and> (sy_overflow s \<noteq> {#} \<longrightarrow> bw_maxBuffer (sy_w s) < size (sy_added s))"

lemma filter_split: "mset (filter P xs) + mset (filter (\<lambda>x. \<not> P x) xs) = mset xs"
  by (induction xs) auto

lemma take_drop_mset: "mset (List.take n xs) + mset (drop n xs) = mset xs"
  by (metis append_take_drop_id mset_append)

lemma take_drop_mset2 [simp]: "mset (drop n xs) + (mset (List.take n xs) + X) = mset xs + X"
  by (metis add.assoc add.commute take_drop_mset)

lemma bw_counts [simp]:
  "bw_rowsDropped (count_malformed b w) = bw_rowsDropped w + length b"
  "bw_rowsWritten (count_malformed b w) = bw_rowsWritten w"
  "bw_rowsDropped (count_chunk n w) = bw_rowsDropped w"
  "bw_rowsWritten (count_chunk n w) = bw_rowsWritten w + n"
  "bw_rowsWritten (drain_requeue u t w) = bw_rowsWritten w"
  "bw_rowsDropped (drain_requeue u t w)
     = bw_rowsDropped w + (length (u @ bw_buffer w) - bw_maxBuffer w)"
  "bw_rowsDropped (bw_append r w) = bw_rowsDropped w"
  "bw_rowsWritten (bw_append r w) = bw_rowsWritten w"
  by (simp_all add: count_malformed_def count_chunk_def drain_requeue_def bw_append_def Let_def)

lemma requeue_mset:
  assumes "b = u @ bw_buffer w"
  shows "mset (List.take (length b - bw_maxBuffer w) b) + mset (bw_buffer (drain_requeue u t w))
           = mset u + mset (bw_buffer w)"
proof -
  have "bw_buffer (drain_requeue u t w) = drop (length b - bw_maxBuffer w) b"
    by (simp only: drain_requeue_def Let_def assms) simp
  then show ?thesis using take_drop_mset [of "length b - bw_maxBuffer w" b] assms by simp
qed

lemma bw_inv_start:
  assumes "bw_buffer w = []" "bw_rowsWritten w = 0" "bw_rowsDropped w = 0"
  shows "bw_inv (bw_start w c)"
  using assms by (simp add: bw_inv_def bw_start_def in_flight_def)

lemma bw_inv_sent:
  assumes inv: "bw_inv s" and D: "sy_drains s = add_mset (Sending rows) D"
    and chunk: "chunk = List.take (bw_maxSize (sy_w s)) rows"
    and snd: "sendToClickHouse d chunk (sy_net s) = ((bad, None), c1)"
  shows "bw_inv (s\<lparr>sy_w := count_chunk (length chunk) (count_malformed bad (sy_w s)), sy_net := c1,
      sy_drains := add_mset (Sending (drop (bw_maxSize (sy_w s)) rows)) D,
      sy_acked := sy_acked s + mset (filter (Append d) chunk),
      sy_malformed := sy_malformed s + mset bad\<rparr>)"
proof -
  have bad: "bad = filter (\<lambda>r. \<not> Append d r) chunk" using send_parts [OF snd] by auto
  have part: "mset (filter (Append d) chunk) + mset bad + mset (drop (bw_maxSize (sy_w s)) rows) = mset rows"
    unfolding bad filter_split chunk by (rule take_drop_mset)
  have len: "length chunk = size (mset (filter (Append d) chunk)) + length bad"
    using filter_split [of "Append d" chunk] unfolding bad by (metis size_mset size_union)
  show ?thesis
    using inv D part len unfolding bw_inv_def in_flight_def by (auto simp: ac_simps)
qed

lemma bw_inv_failed:
  assumes inv: "bw_inv s" and D: "sy_drains s = add_mset (Sending rows) D"
    and chunk: "chunk = List.take (bw_maxSize (sy_w s)) rows"
    and snd: "sendToClickHouse d chunk (sy_net s) = ((bad, Some retryable), c1)"
  shows "bw_inv (s\<lparr>sy_w := count_malformed bad (sy_w s), sy_net := c1,
      sy_drains := add_mset (Requeue (retryable @ drop (bw_maxSize (sy_w s)) rows)) D,
      sy_malformed := sy_malformed s + mset bad\<rparr>)"
proof -
  have "mset retryable + mset bad = mset chunk"
    using send_parts [OF snd] by (auto simp: filter_split)
  then have part: "mset retryable + mset bad + mset (drop (bw_maxSize (sy_w s)) rows) = mset rows"
    unfolding chunk by (metis take_drop_mset)
  show ?thesis
    using inv D part unfolding bw_inv_def in_flight_def by (auto simp: ac_simps)
qed

lemma bw_inv_requeue:
  assumes inv: "bw_inv s" and D: "sy_drains s = add_mset (Requeue unsent) D"
    and b: "b = unsent @ bw_buffer (sy_w s)"
  shows "bw_inv (s\<lparr>sy_w := drain_requeue unsent now (sy_w s), sy_drains := D,
      sy_overflow := sy_overflow s + mset (List.take (length b - bw_maxBuffer (sy_w s)) b)\<rparr>)"
proof -
  note part = requeue_mset [OF b, of now]
  have "size (mset b) \<le> size (sy_added s)"
    using inv D b by (simp add: bw_inv_def in_flight_def)
  then show ?thesis
    using inv D part b unfolding bw_inv_def in_flight_def by (auto simp: ac_simps)
qed

lemma bw_inv_step: "bw_step d s s' \<Longrightarrow> bw_inv s \<Longrightarrow> bw_inv s'"
proof (induction rule: bw_step.induct)
  case (take force now s rows w')
  then have "rows = bw_buffer (sy_w s)" "w' = (sy_w s)\<lparr>bw_buffer := []\<rparr>"
    by (auto simp: drain_take_def split: if_splits)
  with take show ?case unfolding bw_inv_def in_flight_def by (auto simp: ac_simps)
next
  case sent
  then show ?case by (metis bw_inv_sent)
next
  case failed
  then show ?case by (metis bw_inv_failed)
next
  case requeue
  then show ?case by (metis bw_inv_requeue)
qed (auto simp: bw_inv_def in_flight_def ac_simps)

lemma bw_inv_reach: "(bw_step d)\<^sup>*\<^sup>* s s' \<Longrightarrow> bw_inv s \<Longrightarrow> bw_inv s'"
  by (induction rule: rtranclp_induct) (auto intro: bw_inv_step)

section \<open>The drain of one thread is a run of the machine\<close>

lemma drain_chunks_run:
  assumes "drain_chunks d clock rows w c = Some (w', c')" "0 < bw_maxSize w"
    "sy_w s = w" "sy_net s = c" "sy_drains s = add_mset (Sending rows) D"
  shows "\<exists>s'. (bw_step d)\<^sup>*\<^sup>* s s' \<and> sy_w s' = w' \<and> sy_net s' = c' \<and> sy_drains s' = D
           \<and> sy_added s' = sy_added s"
  using assms
proof (induction "length rows" arbitrary: rows w c s rule: less_induct)
  case less
  let ?m = "bw_maxSize w"
  show ?case
  proof (cases "rows = []")
    case True
    then have "bw_step d s (s\<lparr>sy_drains := D\<rparr>)" using less.prems by (auto intro: bw_step.fin)
    moreover have "w' = w" "c' = c" using less.prems(1) True by (simp_all add: drain_chunks.simps)
    ultimately show ?thesis using less.prems by (intro exI [of _ "s\<lparr>sy_drains := D\<rparr>"]) auto
  next
    case False
    obtain bad res c1 where sd: "sendToClickHouse d (List.take ?m rows) c = ((bad, res), c1)"
      by (metis surj_pair)
    let ?w1 = "count_malformed bad w" and ?n = "length (List.take ?m rows)"
    show ?thesis
    proof (cases res)
      case None
      let ?s = "s\<lparr>sy_w := count_chunk ?n ?w1, sy_net := c1, sy_drains := add_mset (Sending (drop ?m rows)) D,
        sy_acked := sy_acked s + mset (filter (Append d) (List.take ?m rows)),
        sy_malformed := sy_malformed s + mset bad\<rparr>"
      have st: "bw_step d s ?s"
        using less.prems sd None False bw_step.sent [of s rows D "List.take ?m rows" d bad c1] by simp
      have eq: "drain_chunks d clock (drop ?m rows) (count_chunk ?n ?w1) c1 = Some (w', c')"
        using less.prems(1) sd None False by (subst (asm) drain_chunks.simps) (simp add: Let_def)
      have lt: "length (drop ?m rows) < length rows" using False less.prems(2) by simp
      have "0 < bw_maxSize (count_chunk ?n ?w1)" using less.prems(2) by simp
      from less.hyps [OF lt eq this, of ?s]
      show ?thesis using st by (auto intro: converse_rtranclp_into_rtranclp)
    next
      case (Some u)
      let ?un = "u @ drop ?m rows"
      let ?s = "s\<lparr>sy_w := ?w1, sy_net := c1, sy_drains := add_mset (Requeue ?un) D,
        sy_malformed := sy_malformed s + mset bad\<rparr>"
      have s1: "bw_step d s ?s"
        using less.prems sd Some False bw_step.failed [of s rows D "List.take ?m rows" d bad u c1] by simp
      have eq: "w' = drain_requeue ?un (clock c1) ?w1" "c' = c1"
        using less.prems(1) sd Some False by (auto simp: drain_chunks.simps [of d clock rows] Let_def)
      let ?b = "?un @ bw_buffer (sy_w ?s)"
      let ?t = "?s\<lparr>sy_w := drain_requeue ?un (clock c1) (sy_w ?s), sy_drains := D,
        sy_overflow := sy_overflow ?s + mset (List.take (length ?b - bw_maxBuffer (sy_w ?s)) ?b)\<rparr>"
      have "bw_step d ?s ?t" by (rule bw_step.requeue) simp_all
      with s1 have "(bw_step d)\<^sup>*\<^sup>* s ?t"
        by (rule rtranclp.rtrancl_into_rtrancl [OF r_into_rtranclp])
      moreover have "sy_w ?t = w' \<and> sy_net ?t = c' \<and> sy_drains ?t = D \<and> sy_added ?t = sy_added s"
        by (simp add: eq)
      ultimately show ?thesis by blast
    qed
  qed
qed

lemma drain_run:
  assumes "drain d clock force w c = Some (w', c')" "0 < bw_maxSize w" "sy_w s = w" "sy_net s = c"
  shows "\<exists>s'. (bw_step d)\<^sup>*\<^sup>* s s' \<and> sy_w s' = w' \<and> sy_net s' = c' \<and> sy_drains s' = sy_drains s
           \<and> sy_added s' = sy_added s"
proof (cases "drain_take force (clock c) w")
  case None
  then show ?thesis using assms by (intro exI [of _ s]) (auto simp: drain_def)
next
  case (Some p)
  obtain rows w1 where p: "p = (rows, w1)" by force
  let ?s = "s\<lparr>sy_w := w1, sy_drains := add_mset (Sending rows) (sy_drains s)\<rparr>"
  have w1: "0 < bw_maxSize w1" using Some p assms(2) by (auto simp: drain_take_def split: if_splits)
  have st: "bw_step d s ?s" using Some p assms(3) by (auto intro: bw_step.take)
  have "drain_chunks d clock rows w1 c = Some (w', c')" using assms(1) Some p by (simp add: drain_def)
  from drain_chunks_run [OF this w1, of ?s "sy_drains s"] assms(4)
  show ?thesis using st by (auto intro: converse_rtranclp_into_rtranclp)
qed

lemma bw_step_max: "bw_step d s s' \<Longrightarrow> bw_maxBuffer (sy_w s') = bw_maxBuffer (sy_w s)"
  by (induction rule: bw_step.induct) (auto simp: drain_take_def split: if_splits)

lemma bw_reach_max: "(bw_step d)\<^sup>*\<^sup>* s s' \<Longrightarrow> bw_maxBuffer (sy_w s') = bw_maxBuffer (sy_w s)"
  by (induction rule: rtranclp_induct) (auto dest: bw_step_max)


section \<open>Order, and the shutdown drain\<close>

text \<open>A driver that notes the acknowledged rows in order.\<close>

definition logging :: "('c, 'row) batch_driver \<Rightarrow> ('c \<times> 'row list, 'row) batch_driver" where
  "logging d = \<lparr>PrepareBatch = (\<lambda>(c, l). let (ok, c') = PrepareBatch d c in (ok, (c', l))),
     Append = Append d, Send = recording (Send d)\<rparr>"

lemma Append_logging [simp]: "Append (logging d) = Append d"
  by (simp add: logging_def)

lemma send_logging:
  "sendToClickHouse (logging d) rows (c, l) = ((bad, res), (c1, l1)) \<Longrightarrow>
     (res = None \<and> l1 = l @ filter (Append d) rows) \<or>
     (res \<noteq> None \<and> l1 = l \<and> (the res = rows \<or> the res = filter (Append d) rows))"
  by (auto simp: sendToClickHouse_def logging_def recording_def Let_def split: prod.splits if_splits)

lemma drain_chunks_order:
  assumes "drain_chunks (logging d) clock rows w (c, l) = Some (w', (c', l'))" "0 < bw_maxSize w"
  shows "subseq (l' @ bw_buffer w') (l @ rows @ bw_buffer w)
     \<and> (list_all (Append d) rows \<and> length (rows @ bw_buffer w) \<le> bw_maxBuffer w
          \<longrightarrow> l' @ bw_buffer w' = l @ rows @ bw_buffer w)"
  using assms
proof (induction "length rows" arbitrary: rows w c l rule: less_induct)
  case less
  let ?m = "bw_maxSize w" and ?chunk = "List.take (bw_maxSize w) rows"
  show ?case
  proof (cases "rows = []")
    case True
    then show ?thesis using less.prems(1) by (simp add: drain_chunks.simps)
  next
    case False
    obtain bad res c1 l1 where sd: "sendToClickHouse (logging d) ?chunk (c, l) = ((bad, res), (c1, l1))"
      by (metis surj_pair)
    have split: "rows @ B = ?chunk @ drop ?m rows @ B" for B by simp
    have acc: "list_all (Append d) rows \<Longrightarrow> filter (Append d) ?chunk = ?chunk"
      by (metis filter_True append_take_drop_id list_all_append list_all_iff)
    have sub: "subseq (filter (Append d) ?chunk) ?chunk" by (rule subseq_filter_left)
    show ?thesis
    proof (cases res)
      case None
      let ?w1 = "count_chunk (length ?chunk) (count_malformed bad w)"
      have l1: "l1 = l @ filter (Append d) ?chunk" using send_logging [OF sd] None by simp
      have eq: "drain_chunks (logging d) clock (drop ?m rows) ?w1 (c1, l1) = Some (w', (c', l'))"
        using less.prems(1) sd None False by (subst (asm) drain_chunks.simps) (simp add: Let_def)
      have lt: "length (drop ?m rows) < length rows" using False less.prems(2) by simp
      have pos: "0 < bw_maxSize ?w1" using less.prems(2) by simp
      note IH = less.hyps [OF lt eq pos]
      have "subseq (l1 @ drop ?m rows @ bw_buffer w) (l @ rows @ bw_buffer w)"
        unfolding l1 split append_assoc
        by (rule list_emb_append_mono [OF subseq_order.refl]) (rule list_emb_append_mono [OF sub subseq_order.refl])
      then have "subseq (l' @ bw_buffer w') (l @ rows @ bw_buffer w)"
        using IH by (auto intro: subseq_order.trans)
      moreover have "l' @ bw_buffer w' = l @ rows @ bw_buffer w"
        if "list_all (Append d) rows" "length (rows @ bw_buffer w) \<le> bw_maxBuffer w"
      proof -
        have "list_all (Append d) (drop ?m rows)"
          using that(1) by (auto simp: list_all_iff dest: in_set_dropD)
        then have "l' @ bw_buffer w' = l1 @ drop ?m rows @ bw_buffer w"
          using IH that(2) by simp
        then show ?thesis using acc [OF that(1)] split by (simp add: l1)
      qed
      ultimately show ?thesis by blast
    next
      case (Some u)
      have l1: "l1 = l" and u: "u = ?chunk \<or> u = filter (Append d) ?chunk"
        using send_logging [OF sd] Some by auto
      have w': "l' = l" "bw_buffer w' = capTail (u @ drop ?m rows @ bw_buffer w) (bw_maxBuffer w)"
        using less.prems(1) sd Some False l1
        by (auto simp: drain_chunks.simps [of "logging d" clock rows] Let_def requeue_buffer)
      have "subseq (u @ drop ?m rows @ bw_buffer w) (rows @ bw_buffer w)"
        unfolding split using u sub by (auto intro: list_emb_append_mono)
      then have "subseq (bw_buffer w') (rows @ bw_buffer w)"
        unfolding w' by (rule subseq_order.trans [OF capTail_subseq])
      then have "subseq (l' @ bw_buffer w') (l @ rows @ bw_buffer w)"
        unfolding w'(1) by (rule list_emb_append_mono [OF subseq_order.refl])
      moreover have "l' @ bw_buffer w' = l @ rows @ bw_buffer w"
        if "list_all (Append d) rows" "length (rows @ bw_buffer w) \<le> bw_maxBuffer w"
        using u acc [OF that(1)] that(2) w' by auto
      ultimately show ?thesis by blast
    qed
  qed
qed

text \<open>C26. A drain keeps the rows in order: the acknowledged rows followed by what is left in the
  buffer are a subsequence of what they were before, so nothing is written twice or overtakes an
  older row, whichever chunk fails; and when the driver accepts every row and the buffer was within
  its cap they are exactly the same rows, so a failed drain loses nothing. The drain always returns,
  and a forced one leaves at most \<open>maxBuffer\<close> rows.\<close>

theorem flow_drain_in_order:
  assumes "0 < bw_maxSize w"
  shows "\<exists>w' c' l'. drain (logging d) clock force w (c, l) = Some (w', (c', l'))
     \<and> subseq (l' @ bw_buffer w') (l @ bw_buffer w)
     \<and> (list_all (Append d) (bw_buffer w) \<and> length (bw_buffer w) \<le> bw_maxBuffer w
          \<longrightarrow> l' @ bw_buffer w' = l @ bw_buffer w)
     \<and> (force \<longrightarrow> length (bw_buffer w') \<le> bw_maxBuffer w)"
proof -
  obtain w' c' l' where r: "drain (logging d) clock force w (c, l) = Some (w', (c', l'))"
    "force \<longrightarrow> length (bw_buffer w') \<le> bw_maxBuffer w"
    using drain_returns [OF assms, of "logging d" clock force "(c, l)"] by fastforce
  show ?thesis
  proof (cases "drain_take force (clock (c, l)) w")
    case None
    then show ?thesis using r by (intro exI [of _ w'] exI [of _ c'] exI [of _ l']) (auto simp: drain_def)
  next
    case (Some p)
    then have p: "p = (bw_buffer w, w\<lparr>bw_buffer := []\<rparr>)" by (auto simp: drain_take_def split: if_splits)
    have "drain_chunks (logging d) clock (bw_buffer w) (w\<lparr>bw_buffer := []\<rparr>) (c, l) = Some (w', (c', l'))"
      using r(1) Some p by (simp add: drain_def)
    from drain_chunks_order [OF this] assms r show ?thesis by auto
  qed
qed

lemma flow_drain_in_order_witness:
  "0 < bw_maxSize (NewBatchWriter :: nat BatchWriter)
   \<and> (\<exists>w' c' l'. drain (logging \<lparr>PrepareBatch = (\<lambda>c. (True, c)), Append = (\<lambda>r. True),
          Send = (\<lambda>rows c. (c < (1::nat), Suc c))\<rparr>) (\<lambda>c. 0) True
          (NewBatchWriter\<lparr>bw_maxSize := 2, bw_buffer := [1, 2, 3 :: nat]\<rparr>) (0, []) = Some (w', (c', l'))
        \<and> l' @ bw_buffer w' = [1, 2, 3])"
  using flow_drain_in_order [of "NewBatchWriter\<lparr>bw_maxSize := 2, bw_buffer := [1, 2, 3 :: nat]\<rparr>"
      "\<lparr>PrepareBatch = (\<lambda>c. (True, c)), Append = (\<lambda>r. True), Send = (\<lambda>rows c. (c < (1::nat), Suc c))\<rparr>"
      "\<lambda>c. 0" True 0 "[]"]
  by (auto simp: NewBatchWriter_def)

definition drain_state ::
  "('c, 'row) batch_driver \<Rightarrow> ('c \<Rightarrow> time) \<Rightarrow> 'row BatchWriter \<times> 'c \<Rightarrow> 'row BatchWriter \<times> 'c" where
  "drain_state d clock = (\<lambda>(w, c). the (drain d clock True w c))"

text \<open>With a positive batch size the shutdown drain is the shared shutdown loop of \<open>ClickHouse\<close>.\<close>

lemma finalDrain_loop_eq:
  "0 < bw_maxSize w \<Longrightarrow>
     finalDrain_loop d clock sleep attempts i w c =
       (case final_loop (drain_state d clock) (\<lambda>(w, c). length (bw_buffer w)) (\<lambda>(w, c). (w, sleep c))
               attempts i (w, c) of
          (n, w', c') \<Rightarrow> Some (n, w', c'))"
proof (induction "nat (attempts - i)" arbitrary: i w c rule: less_induct)
  case less
  obtain w' c' where d: "drain d clock True w c = Some (w', c')" "bw_maxSize w' = bw_maxSize w"
    using drain_returns [OF less.prems, of d clock True c] by blast
  then have ds: "drain_state d clock (w, c) = (w', c')" by (simp add: drain_state_def)
  show ?case
  proof (cases "bw_buffer w' = [] \<or> attempts - 1 \<le> i")
    case True
    then show ?thesis
      by (subst finalDrain_loop.simps, subst final_loop.simps) (auto simp: d(1) ds Let_def)
  next
    case False
    then have "nat (attempts - (i + 1)) < nat (attempts - i)" by linarith
    from less.hyps [OF this, of w' "sleep c'"] less.prems d(2) False
    show ?thesis
      by (subst finalDrain_loop.simps, subst final_loop.simps) (simp add: d(1) ds Let_def)
  qed
qed

text \<open>
  From every state of the machine with this writer and this world, the machine can reach one with
  that writer and that world in which no row was added and every other drain is where it was.
\<close>

definition bw_runs ::
  "('c, 'row) batch_driver \<Rightarrow> 'row BatchWriter \<times> 'c \<Rightarrow> 'row BatchWriter \<times> 'c \<Rightarrow> bool" where
  "bw_runs d p q \<longleftrightarrow>
     (\<forall>s. (sy_w s, sy_net s) = p \<longrightarrow>
        (\<exists>s'. (bw_step d)\<^sup>*\<^sup>* s s' \<and> (sy_w s', sy_net s') = q
           \<and> sy_drains s' = sy_drains s \<and> sy_added s' = sy_added s))"

lemma bw_runs_trans [trans]: "bw_runs d p q \<Longrightarrow> bw_runs d q r \<Longrightarrow> bw_runs d p r"
  unfolding bw_runs_def by (metis rtranclp_trans)

lemma bw_runs_world: "bw_runs d (w, c) (w, c1)"
proof -
  have "\<exists>s'. (bw_step d)\<^sup>*\<^sup>* s s' \<and> (sy_w s', sy_net s') = (w, c1)
          \<and> sy_drains s' = sy_drains s \<and> sy_added s' = sy_added s" if "sy_w s = w" for s
    using that bw_step.world [of d s c1] by (intro exI [of _ "s\<lparr>sy_net := c1\<rparr>"]) auto
  then show ?thesis unfolding bw_runs_def by blast
qed

lemma bw_runs_drain:
  "drain d clock force w c = Some (w', c') \<Longrightarrow> 0 < bw_maxSize w \<Longrightarrow> bw_runs d (w, c) (w', c')"
  unfolding bw_runs_def using drain_run by (metis prod.inject)

lemma after_drains:
  assumes "0 < bw_maxSize w"
  shows "\<exists>w' c'. after_flush (drain_state d clock) (\<lambda>(w, c). (w, sleep c)) k (w, c) = (w', c')
     \<and> bw_maxSize w' = bw_maxSize w \<and> bw_maxBuffer w' = bw_maxBuffer w
     \<and> length (bw_buffer w') \<le> bw_maxBuffer w \<and> bw_runs d (w, c) (w', c')"
proof (induction k)
  case 0
  obtain w' c' where d: "drain d clock True w c = Some (w', c')" "bw_maxSize w' = bw_maxSize w"
    "bw_maxBuffer w' = bw_maxBuffer w" "length (bw_buffer w') \<le> bw_maxBuffer w"
    using drain_returns [OF assms, of d clock True c] by blast
  then show ?case using bw_runs_drain [OF d(1) assms] by (simp add: drain_state_def)
next
  case (Suc k)
  then obtain w1 c1 where IH: "after_flush (drain_state d clock) (\<lambda>(w, c). (w, sleep c)) k (w, c) = (w1, c1)"
    "bw_maxSize w1 = bw_maxSize w" "bw_maxBuffer w1 = bw_maxBuffer w" "bw_runs d (w, c) (w1, c1)" by blast
  have pos: "0 < bw_maxSize w1" using assms IH(2) by simp
  obtain w' c' where d: "drain d clock True w1 (sleep c1) = Some (w', c')" "bw_maxSize w' = bw_maxSize w"
    "bw_maxBuffer w' = bw_maxBuffer w" "length (bw_buffer w') \<le> bw_maxBuffer w"
    using drain_returns [OF pos, of d clock True "sleep c1"] IH by auto
  have "bw_runs d (w, c) (w', c')"
    using bw_runs_trans [OF IH(4) bw_runs_trans [OF bw_runs_world bw_runs_drain [OF d(1) pos]]] .
  then show ?case using IH d by (simp add: drain_state_def)
qed

text \<open>C27. The shutdown drain returns, for every number of attempts and whatever the server answers.
  It drains at most \<open>attempts\<close> times (once at least), stops at the first drain that empties the
  buffer, and the number it returns as lost is exactly the number of rows left in the buffer, at most
  \<open>maxBuffer\<close>. It is a run of the interleaved machine, so the conservation of rows accounts for every
  row it handled.\<close>

theorem flow_final_drain:
  assumes "0 < bw_maxSize w"
  shows "\<exists>w' c' k. FinalDrain d clock sleep attempts w c = Some (length (bw_buffer w'), w', c')
     \<and> (w', c') = after_flush (drain_state d clock) (\<lambda>(w, c). (w, sleep c)) k (w, c)
     \<and> k \<le> nat (attempts - 1) \<and> (bw_buffer w' = [] \<or> k = nat (attempts - 1))
     \<and> (\<forall>j<k. bw_buffer (fst (after_flush (drain_state d clock) (\<lambda>(w, c). (w, sleep c)) j (w, c))) \<noteq> [])
     \<and> length (bw_buffer w') \<le> bw_maxBuffer w
     \<and> bw_runs d (w, c) (w', c')"
proof -
  let ?f = "drain_state d clock" and ?r = "\<lambda>(w, c). length (bw_buffer w)" and ?p = "\<lambda>(w, c). (w, sleep c)"
  obtain k where k: "final_loop ?f ?r ?p attempts 0 (w, c) = (?r (after_flush ?f ?p k (w, c)), after_flush ?f ?p k (w, c))"
    "k \<le> nat (attempts - 1 - 0)" "\<forall>j<k. ?r (after_flush ?f ?p j (w, c)) \<noteq> 0"
    "?r (after_flush ?f ?p k (w, c)) = 0 \<or> k = nat (attempts - 1 - 0)"
    using final_loop_stops [of ?f ?r ?p attempts 0 "(w, c)"] by blast
  obtain w' c' where a: "after_flush ?f ?p k (w, c) = (w', c')" "length (bw_buffer w') \<le> bw_maxBuffer w"
    "bw_runs d (w, c) (w', c')" using after_drains [OF assms, of d clock sleep k c] by blast
  have "FinalDrain d clock sleep attempts w c = Some (length (bw_buffer w'), w', c')"
    unfolding FinalDrain_def finalDrain_loop_eq [OF assms] k(1) a(1) by simp
  moreover have "\<forall>j<k. bw_buffer (fst (after_flush ?f ?p j (w, c))) \<noteq> []"
    using k(3) by (auto simp: case_prod_unfold)
  ultimately show ?thesis
    using k(2,4) a by (intro exI [of _ w'] exI [of _ c'] exI [of _ k]) auto
qed

section \<open>Concrete runs\<close>

text \<open>A server that refuses its first \<open>n\<close> batches, and a driver that rejects the row 13.\<close>

definition flaky :: "nat \<Rightarrow> (nat, nat) batch_driver" where
  "flaky n = \<lparr>PrepareBatch = (\<lambda>c. (True, c)), Append = (\<lambda>r. r \<noteq> 13), Send = (\<lambda>rows c. (n \<le> c, Suc c))\<rparr>"

definition smallWriter :: "nat BatchWriter" where
  "smallWriter = NewBatchWriter\<lparr>bw_maxSize := 2, bw_maxBuffer := 1\<rparr>"

lemmas drain_eval = drain_def drain_take_def drain_chunks.simps sendToClickHouse_def flaky_def Let_def
  count_malformed_def count_chunk_def drain_requeue_def smallWriter_def NewBatchWriter_def

lemma flaky_drain:
  "drain (flaky 1) (\<lambda>c. 0) True (smallWriter\<lparr>bw_buffer := [13, 7, 8]\<rparr>) 0
     = Some (smallWriter\<lparr>bw_buffer := [8], bw_retryAfter := second, bw_rowsDropped := 2,
              bw_writeErrors := 1\<rparr>, 1)"
  by (simp add: drain_eval)


lemma flow_final_drain_witness:
  "0 < bw_maxSize smallWriter
   \<and> (\<exists>w' c'. FinalDrain (flaky 1) (\<lambda>c. 0) id 5 (smallWriter\<lparr>bw_buffer := [7, 8]\<rparr>) 0 = Some (0, w', c')
        \<and> length (bw_buffer w') = 0)"
proof -
  let ?w = "smallWriter\<lparr>bw_buffer := [7, 8]\<rparr>"
  have 1: "0 < bw_maxSize ?w" by (simp add: smallWriter_def NewBatchWriter_def)
  have "FinalDrain (flaky 1) (\<lambda>c. 0) id 5 ?w 0 = Some (0, smallWriter\<lparr>bw_retryAfter := second,
      bw_rowsDropped := 1, bw_rowsWritten := 1, bw_flushes := 1, bw_writeErrors := 1\<rparr>, 2)"
    by (simp add: FinalDrain_def finalDrain_loop.simps drain_eval)
  then show ?thesis
    using flow_final_drain [OF 1, of "flaky 1" "\<lambda>c. 0" id 5 0] by (auto simp: smallWriter_def NewBatchWriter_def)
qed

section \<open>Two places where the code and its comments part\<close>

text \<open>
  The counter of written rows counts the rows a driver rejected, when the rest of their chunk is
  accepted: here nothing reached the table, one row is counted as dropped and as written.
\<close>

lemma written_counter_counts_malformed:
  "drain (logging (flaky 0)) (\<lambda>c. 0) True (smallWriter\<lparr>bw_buffer := [13]\<rparr>) (0, [])
     = Some (smallWriter\<lparr>bw_rowsWritten := 1, bw_rowsDropped := 1, bw_flushes := 1\<rparr>, (1, []))"
  by (simp add: drain_eval logging_def recording_def)

text \<open>
  The cap is enforced only when a failed drain queues its rows again. During the back-off window a
  flush is a no-op and \<open>Add\<close> appends without looking at the cap, so the buffer can pass it.
\<close>

lemma add_ignores_cap_in_backoff:
  assumes "clock c < bw_retryAfter w"
  shows "bw_Add d clock r w c = Some (w\<lparr>bw_buffer := bw_buffer w @ [r]\<rparr>, c)"
  using assms by (simp add: bw_Add_def bw_append_def bw_flush_def drain_def drain_take_def Let_def)

lemma add_passes_cap:
  "fold (\<lambda>r s. Option.bind s (\<lambda>(w, c). bw_Add (flaky 9) (\<lambda>c. 0) r w c)) [1, 2, 3]
      (Some (smallWriter\<lparr>bw_retryAfter := 5\<rparr>, 0))
     = Some (smallWriter\<lparr>bw_retryAfter := 5, bw_buffer := [1, 2, 3]\<rparr>, 0)
   \<and> bw_maxBuffer smallWriter < length [1, 2, 3 :: nat]"
  by (simp add: add_ignores_cap_in_backoff smallWriter_def NewBatchWriter_def)

end
