(* ===== verification/Geo.thy ===== *)
theory Geo
  imports Flow GoNet
begin

text \<open>
  \<open>geoip.go\<close>: location and network owner of an address. The two MaxMind readers are third-party
  code: a database is a function from an address to its record, or an error, and opening a file
  gives a database or an error.
\<close>

record city_record =
  ci_IsoCode :: string
  ci_Names :: "(string \<times> string) list"
  ci_Latitude :: float64
  ci_Longitude :: float64

record asn_record =
  as_Number :: uint64
  as_Organization :: string

type_synonym city_db = "IP \<Rightarrow> city_record option"
type_synonym asn_db = "IP \<Rightarrow> asn_record option"

record GeoStore =
  gs_cityDB :: city_db
  gs_asnDB :: asn_db

section \<open>Operations\<close>

text \<open>A network that does not parse would be a nil pointer; \<open>privateRanges_parse\<close> shows none is.\<close>

definition mustParseCIDRs :: "string list \<Rightarrow> IPNet option list" where
  "mustParseCIDRs cidrs = map parseCIDR cidrs"

definition privateRanges :: "IPNet option list" where
  "privateRanges = mustParseCIDRs [''10.0.0.0/8'', ''172.16.0.0/12'', ''192.168.0.0/16'',
     ''127.0.0.0/8'', ''169.254.0.0/16'', ''::1/128'', ''fc00::/7'']"

fun anyContains :: "IPNet option list \<Rightarrow> IP \<Rightarrow> bool" where
  "anyContains [] ip = False"
| "anyContains (r # rs) ip = (if ipNetContains (the r) ip then True else anyContains rs ip)"

definition isPrivate :: "IP \<Rightarrow> bool" where
  "isPrivate ip = anyContains privateRanges ip"

definition NewGeoStore ::
  "(string \<Rightarrow> city_db option) \<Rightarrow> (string \<Rightarrow> asn_db option) \<Rightarrow> string \<Rightarrow> string \<Rightarrow> GeoStore option" where
  "NewGeoStore openCity openASN cityPath asnPath =
     (case openCity cityPath of
        None \<Rightarrow> None
      | Some c \<Rightarrow> (case openASN asnPath of
          None \<Rightarrow> None
        | Some a \<Rightarrow> Some \<lparr>gs_cityDB = c, gs_asnDB = a\<rparr>))"

text \<open>The read of a Go map: the zero value where the key is absent.\<close>

definition name_en :: "(string \<times> string) list \<Rightarrow> string" where
  "name_en names = (case map_of names ''en'' of None \<Rightarrow> '''' | Some n \<Rightarrow> n)"

definition geo_Lookup :: "GeoStore \<Rightarrow> IP option \<Rightarrow> GeoData" where
  "geo_Lookup g ip =
     (case ip of
        None \<Rightarrow> noGeo\<lparr>gd_CountryCode := ''private''\<rparr>
      | Some ip \<Rightarrow>
          if isPrivate ip then noGeo\<lparr>gd_CountryCode := ''private''\<rparr>
          else
            let data = noGeo;
                data = (case gs_cityDB g ip of
                   None \<Rightarrow> data
                 | Some city \<Rightarrow>
                     let data = data\<lparr>gd_CountryCode := ci_IsoCode city\<rparr>;
                         data = (if gd_CountryCode data = '''' then data\<lparr>gd_CountryCode := ''unknown''\<rparr> else data);
                         data = (if 0 < length (ci_Names city) then data\<lparr>gd_City := name_en (ci_Names city)\<rparr> else data)
                     in data\<lparr>gd_Lat := ci_Latitude city, gd_Lon := ci_Longitude city\<rparr>)
            in case gs_asnDB g ip of
                 None \<Rightarrow> data
               | Some asn \<Rightarrow> data\<lparr>gd_ASN := ucast (as_Number asn), gd_OrgName := as_Organization asn\<rparr>)"

text \<open>\<open>Refresh\<close>: both files open or the store stays as it is. The flag is the absence of an error.\<close>

definition geo_Refresh ::
  "(string \<Rightarrow> city_db option) \<Rightarrow> (string \<Rightarrow> asn_db option) \<Rightarrow> string \<Rightarrow> string \<Rightarrow> GeoStore \<Rightarrow> bool \<times> GeoStore" where
  "geo_Refresh openCity openASN cityPath asnPath g =
     (case openCity cityPath of
        None \<Rightarrow> (False, g)
      | Some c \<Rightarrow> (case openASN asnPath of
          None \<Rightarrow> (False, g)
        | Some a \<Rightarrow> (True, g\<lparr>gs_cityDB := c, gs_asnDB := a\<rparr>)))"

section \<open>The private ranges\<close>

lemma privateRanges_value:
  "privateRanges = map Some
     [\<lparr>net_ip = [10, 0, 0, 0], net_mask = [255, 0, 0, 0]\<rparr>,
      \<lparr>net_ip = [172, 16, 0, 0], net_mask = [255, 240, 0, 0]\<rparr>,
      \<lparr>net_ip = [192, 168, 0, 0], net_mask = [255, 255, 0, 0]\<rparr>,
      \<lparr>net_ip = [127, 0, 0, 0], net_mask = [255, 0, 0, 0]\<rparr>,
      \<lparr>net_ip = [169, 254, 0, 0], net_mask = [255, 255, 0, 0]\<rparr>,
      \<lparr>net_ip = replicate 15 0 @ [1], net_mask = replicate 16 255\<rparr>,
      \<lparr>net_ip = 252 # replicate 15 0, net_mask = 254 # replicate 15 0\<rparr>]"
  by code_simp

lemma privateRanges_parse: "None \<notin> set privateRanges"
  by (simp add: privateRanges_value)

lemma byte_cases:
  assumes "\<forall>n\<in>set [0..<256]. P (of_nat n :: byte)"
  shows "P b"
proof -
  have "unat b < 256" using unsigned_less [of b, where 'a = nat] by simp
  then have "unat b \<in> set [0..<256]" by simp
  from bspec [OF assms this] show ?thesis by simp
qed

lemma and_240: "((b :: byte) AND 240 = 16) \<longleftrightarrow> 16 \<le> b \<and> b \<le> 31"
  by (rule byte_cases [of "\<lambda>b. (b AND 240 = 16) \<longleftrightarrow> 16 \<le> b \<and> b \<le> 31"]) code_simp

lemma and_255 [simp]: "(b :: byte) AND 255 = b" "255 AND (b :: byte) = b"
proof -
  have "(255 :: byte) = - 1" by simp
  then show "(b :: byte) AND 255 = b" "255 AND (b :: byte) = b" by (simp_all only: and.right_neutral and.left_neutral)
qed

lemma contains_v4:
  "ipNetContains \<lparr>net_ip = [n1, n2, n3, n4], net_mask = [m1, m2, m3, m4]\<rparr> (v4InV6Prefix @ [a, b, c, d])
     \<longleftrightarrow> n1 AND m1 = a AND m1 \<and> n2 AND m2 = b AND m2 \<and> n3 AND m3 = c AND m3 \<and> n4 AND m4 = d AND m4"
  by (simp add: ipNetContains_def networkNumberAndMask_def To4_def v4InV6Prefix_def)

lemma contains_v4_in_v6:
  assumes "length (net_ip n) = 16" "take 12 (net_ip n) \<noteq> v4InV6Prefix" "length (net_mask n) = 16"
  shows "\<not> ipNetContains n (v4InV6Prefix @ [a, b, c, d])"
  using assms by (simp add: ipNetContains_def networkNumberAndMask_def To4_def v4InV6Prefix_def)

lemma isPrivate_v4:
  "isPrivate (v4InV6Prefix @ [a, b, c, d]) \<longleftrightarrow>
     a = 10 \<or> a = 172 \<and> 16 \<le> b \<and> b \<le> 31 \<or> a = 192 \<and> b = 168 \<or> a = 127 \<or> a = 169 \<and> b = 254"
proof -
  have v6: "\<not> ipNetContains \<lparr>net_ip = replicate 15 0 @ [1], net_mask = replicate 16 255\<rparr> (v4InV6Prefix @ [a, b, c, d])"
    "\<not> ipNetContains \<lparr>net_ip = 252 # replicate 15 0, net_mask = 254 # replicate 15 0\<rparr> (v4InV6Prefix @ [a, b, c, d])"
    by (rule contains_v4_in_v6, simp, code_simp, simp)+
  have b: "16 = b AND 240 \<longleftrightarrow> 16 \<le> b \<and> b \<le> 31" using and_240 [of b] by auto
  show ?thesis
    unfolding isPrivate_def privateRanges_value list.map anyContains.simps option.sel contains_v4
    by (auto simp: v6 b)
qed

section \<open>What a look-up reads\<close>

lemma geo_private: "ip = None \<or> isPrivate (the ip) \<Longrightarrow> geo_Lookup g ip = noGeo\<lparr>gd_CountryCode := ''private''\<rparr>"
  by (cases ip) (auto simp: geo_Lookup_def)

lemma geo_country_known:
  "gs_cityDB g ip \<noteq> None \<Longrightarrow> gd_CountryCode (geo_Lookup g (Some ip)) \<noteq> ''''"
  by (auto simp: geo_Lookup_def Let_def split: option.splits)

lemma geo_refresh_all_or_nothing:
  "geo_Refresh oc oa cp ap g = (ok, g') \<Longrightarrow>
     (ok \<and> NewGeoStore oc oa cp ap = Some g') \<or> (\<not> ok \<and> NewGeoStore oc oa cp ap = None \<and> g' = g)"
  by (auto simp: geo_Refresh_def NewGeoStore_def split: option.splits)

end
