(* ===== verification/Tenant.thy ===== *)
theory Tenant
  imports Flow GoNet
begin

text \<open>
  \<open>tenant.go\<close>: which tenant owns an address. The trie of networks (\<open>cidranger\<close>) and the YAML
  decoder are third-party code: the trie is a record of its three operations over an arbitrary
  type, and \<open>ranger_ok\<close> is what its documentation says of them.
\<close>

record tenantEntry =
  te_network :: IPNet
  te_id :: uint32
  te_name :: string

record tenantSpec =
  tc_ID :: uint32
  tc_Name :: string
  tc_Subnets :: "string list"

type_synonym tenantConfig = "tenantSpec list"

record 'r ranger =
  rg_new :: 'r
  rg_insert :: "tenantEntry \<Rightarrow> 'r \<Rightarrow> 'r"
  rg_containing :: "'r \<Rightarrow> IP \<Rightarrow> tenantEntry list option"

record 'r TenantStore =
  ts_ranger :: 'r

text \<open>
  The entries of a configuration in the order they are inserted; a subnet that does not parse
  is skipped.
\<close>

definition spec_entries :: "tenantSpec \<Rightarrow> tenantEntry list" where
  "spec_entries t =
     concat (map (\<lambda>subnet. case parseCIDR subnet of
                 None \<Rightarrow> []
               | Some network \<Rightarrow> [\<lparr>te_network = network, te_id = tc_ID t, te_name = tc_Name t\<rparr>])
            (tc_Subnets t))"

definition config_entries :: "tenantConfig \<Rightarrow> tenantEntry list" where
  "config_entries cfg = concat (map spec_entries cfg)"

text \<open>\<open>load\<close>: the flag is the absence of an error; on an error the old trie stays.\<close>

definition tenant_load ::
  "'r ranger \<Rightarrow> (string \<Rightarrow> tenantConfig option) \<Rightarrow> string option \<Rightarrow> 'r TenantStore \<Rightarrow> bool \<times> 'r TenantStore" where
  "tenant_load rg yaml file s =
     (case file of
        None \<Rightarrow> (False, s)
      | Some data \<Rightarrow> (case yaml data of
          None \<Rightarrow> (False, s)
        | Some cfg \<Rightarrow> (True, s\<lparr>ts_ranger := fold (rg_insert rg) (config_entries cfg) (rg_new rg)\<rparr>)))"

text \<open>The loop over \<open>entries[1:]\<close>: a strictly longer prefix replaces the best so far.\<close>

fun longest :: "tenantEntry \<Rightarrow> tenantEntry list \<Rightarrow> tenantEntry" where
  "longest best [] = best"
| "longest best (te # es) =
     (if maskSize (net_mask (te_network best)) < maskSize (net_mask (te_network te))
      then longest te es else longest best es)"

definition tenant_Lookup :: "'r ranger \<Rightarrow> 'r TenantStore \<Rightarrow> IP option \<Rightarrow> uint32 \<times> string" where
  "tenant_Lookup rg s ip =
     (case ip of
        None \<Rightarrow> (0, '''')
      | Some ip \<Rightarrow>
          (case rg_containing rg (ts_ranger s) ip of
             None \<Rightarrow> (0, '''')
           | Some [] \<Rightarrow> (0, '''')
           | Some (e # es) \<Rightarrow> let best = longest e es in (te_id best, te_name best)))"

section \<open>What the trie promises\<close>

text \<open>
  The documentation of \<open>ContainingNetworks\<close>: the entries whose network contains the address. An
  entry inserted for a network that is already there may replace the old one, so of several
  entries for one network at least one is found.
\<close>

definition ranger_ok :: "'r ranger \<Rightarrow> tenantEntry list \<Rightarrow> bool" where
  "ranger_ok rg es \<longleftrightarrow>
     (\<forall>ip l. rg_containing rg (fold (rg_insert rg) es (rg_new rg)) ip = Some l \<longrightarrow>
        (\<forall>e\<in>set l. e \<in> set es \<and> ipNetContains (te_network e) ip)
        \<and> (\<forall>e\<in>set es. ipNetContains (te_network e) ip
             \<longrightarrow> (\<exists>e'\<in>set l. te_network e' = te_network e)))"

text \<open>An instance: the trie as the list of its entries, where a later entry for a network replaces.\<close>

definition list_ranger :: "tenantEntry list ranger" where
  "list_ranger = \<lparr>rg_new = [],
     rg_insert = (\<lambda>e es. e # filter (\<lambda>x. te_network x \<noteq> te_network e) es),
     rg_containing = (\<lambda>es ip. Some (filter (\<lambda>e. ipNetContains (te_network e) ip) es))\<rparr>"

definition list_trie :: "tenantEntry list \<Rightarrow> tenantEntry list" where
  "list_trie es = fold (rg_insert list_ranger) es (rg_new list_ranger)"

lemma list_trie_Nil [simp]: "list_trie [] = []"
  by (simp add: list_trie_def list_ranger_def)

lemma list_trie_snoc [simp]:
  "list_trie (es @ [e]) = e # filter (\<lambda>x. te_network x \<noteq> te_network e) (list_trie es)"
  by (simp add: list_trie_def list_ranger_def)

lemma list_trie_sound: "set (list_trie es) \<subseteq> set es"
  by (induction es rule: rev_induct) auto

lemma list_trie_complete: "e \<in> set es \<Longrightarrow> te_network e \<in> te_network ` set (list_trie es)"
proof (induction es rule: rev_induct)
  case Nil
  then show ?case by simp
next
  case (snoc x es)
  then show ?case by (cases "te_network e = te_network x") auto
qed

lemma list_ranger_ok: "ranger_ok list_ranger es"
proof -
  have "\<exists>e'\<in>set l. te_network e' = te_network e"
    if "l = filter (\<lambda>e. ipNetContains (te_network e) ip) (list_trie es)" "e \<in> set es"
      "ipNetContains (te_network e) ip" for l e ip
    using list_trie_complete [OF that(2)] that(1,3) by force
  then show ?thesis
    unfolding ranger_ok_def list_trie_def [symmetric]
    using list_trie_sound [of es] by (auto simp: list_ranger_def)
qed

section \<open>The most specific match\<close>

lemma longest_in: "longest best es \<in> set (best # es)"
  by (induction es arbitrary: best) auto

lemma longest_max:
  "\<forall>e\<in>set (best # es).
     maskSize (net_mask (te_network e)) \<le> maskSize (net_mask (te_network (longest best es)))"
proof (induction es arbitrary: best)
  case Nil
  show ?case by simp
next
  case (Cons te es)
  show ?case
  proof (cases "maskSize (net_mask (te_network best)) < maskSize (net_mask (te_network te))")
    case True
    with Cons.IH [of te] show ?thesis by simp
  next
    case False
    with Cons.IH [of best] show ?thesis by simp
  qed
qed

text \<open>C28. An address belongs to the most specific configured subnet that contains it. Once a
  configuration has loaded, \<open>Lookup\<close> answers with the id and name configured for a subnet that
  contains the address and that no other configured subnet containing the address beats in prefix
  length; when no configured subnet contains the address (or it did not parse) it answers 0 and
  the empty name. Subnets that do not parse count for nothing; the trie is assumed to do what its
  documentation says.\<close>

theorem tenant_longest_prefix:
  assumes "tenant_load rg yaml file s0 = (True, s)" "file = Some data" "yaml data = Some cfg"
    and "ranger_ok rg (config_entries cfg)"
    and "rg_containing rg (ts_ranger s) ip \<noteq> None"
  shows "(\<nexists>e. e \<in> set (config_entries cfg) \<and> ipNetContains (te_network e) ip)
           \<and> tenant_Lookup rg s (Some ip) = (0, '''')
     \<or> (\<exists>e\<in>set (config_entries cfg). ipNetContains (te_network e) ip
          \<and> tenant_Lookup rg s (Some ip) = (te_id e, te_name e)
          \<and> (\<forall>e'\<in>set (config_entries cfg). ipNetContains (te_network e') ip \<longrightarrow>
               maskSize (net_mask (te_network e')) \<le> maskSize (net_mask (te_network e))))"
proof -
  let ?es = "config_entries cfg"
  obtain l where l: "rg_containing rg (ts_ranger s) ip = Some l" using assms(5) by auto
  have "ts_ranger s = fold (rg_insert rg) ?es (rg_new rg)"
    using assms(1-3) by (auto simp: tenant_load_def)
  then have sound: "\<forall>e\<in>set l. e \<in> set ?es \<and> ipNetContains (te_network e) ip"
    and complete: "\<forall>e\<in>set ?es. ipNetContains (te_network e) ip \<longrightarrow> (\<exists>e'\<in>set l. te_network e' = te_network e)"
    using assms(4) l unfolding ranger_ok_def by metis+
  show ?thesis
  proof (cases l)
    case Nil
    then show ?thesis using complete l by (auto simp: tenant_Lookup_def)
  next
    case (Cons e0 rest)
    let ?b = "longest e0 rest"
    have "?b \<in> set l" using longest_in [of e0 rest] Cons by simp
    moreover have "maskSize (net_mask (te_network e')) \<le> maskSize (net_mask (te_network ?b))"
      if "e' \<in> set ?es" "ipNetContains (te_network e') ip" for e'
      using complete that longest_max [of e0 rest] Cons by metis
    ultimately show ?thesis using sound l Cons by (auto simp: tenant_Lookup_def Let_def)
  qed
qed

text \<open>A campus /16 with a lab /24 inside it: the lab's address is the lab's.\<close>

definition demo_config :: tenantConfig where
  "demo_config =
     [\<lparr>tc_ID = 1, tc_Name = ''campus'', tc_Subnets = [''10.1.0.0/16'', ''not a subnet'']\<rparr>,
      \<lparr>tc_ID = 2, tc_Name = ''lab'', tc_Subnets = [''10.1.7.0/24'']\<rparr>]"

lemma demo_lab:
  "tenant_Lookup list_ranger (snd (tenant_load list_ranger (\<lambda>d. Some demo_config) (Some [])
       \<lparr>ts_ranger = []\<rparr>)) (parseIP ''10.1.7.9'') = (2, ''lab'')"
  by code_simp

lemma tenant_longest_prefix_witness:
  "\<exists>s. tenant_load list_ranger (\<lambda>d. Some demo_config) (Some []) \<lparr>ts_ranger = []\<rparr> = (True, s)
     \<and> tenant_Lookup list_ranger s (parseIP ''10.1.7.9'') = (2, ''lab'')
     \<and> (\<exists>e\<in>set (config_entries demo_config). (te_id e, te_name e) = (2, ''lab'')
          \<and> (\<forall>e'\<in>set (config_entries demo_config).
               ipNetContains (te_network e') (v4InV6Prefix @ [10, 1, 7, 9]) \<longrightarrow>
               maskSize (net_mask (te_network e')) \<le> maskSize (net_mask (te_network e))))"
proof -
  let ?s = "snd (tenant_load list_ranger (\<lambda>d. Some demo_config) (Some []) \<lparr>ts_ranger = []\<rparr>)"
  have l: "tenant_load list_ranger (\<lambda>d. Some demo_config) (Some []) \<lparr>ts_ranger = []\<rparr> = (True, ?s)"
    by (simp add: tenant_load_def)
  have ip: "parseIP ''10.1.7.9'' = Some (v4InV6Prefix @ [10, 1, 7, 9])" by code_simp
  have n: "rg_containing list_ranger (ts_ranger ?s) (v4InV6Prefix @ [10, 1, 7, 9]) \<noteq> None"
    by (simp add: list_ranger_def)
  have a: "tenant_Lookup list_ranger ?s (Some (v4InV6Prefix @ [10, 1, 7, 9])) = (2, ''lab'')"
    using demo_lab by (simp only: ip)
  from tenant_longest_prefix [OF l refl refl list_ranger_ok n]
  have "\<exists>e\<in>set (config_entries demo_config). (te_id e, te_name e) = (2, ''lab'')
          \<and> (\<forall>e'\<in>set (config_entries demo_config).
               ipNetContains (te_network e') (v4InV6Prefix @ [10, 1, 7, 9]) \<longrightarrow>
               maskSize (net_mask (te_network e')) \<le> maskSize (net_mask (te_network e)))"
    unfolding a by auto
  with l a show ?thesis by (simp only: ip) blast
qed

end
