(* ===== verification/TcpdumpLog.thy ===== *)
theory TcpdumpLog
  imports DnsStore
begin

text \<open>
  \<open>tcpdumplog.go\<close>: the parser of \<open>tcpdump -v\<close> text. A packet is two lines, an unindented header
  with a time of day and an indented line with the addresses and the DNS payload, so the parser
  is a state machine fed line by line. It also carries the clock: tcpdump prints no date, so the
  date is anchored once and advanced when the time of day jumps back by more than 12 hours.

  The last part of the theory makes it a per-file parser of the DNS store.
\<close>

section \<open>Calendar arithmetic of the anchor\<close>

text \<open>
  \<open>time.Date(y, m, d, 0, 0, 0, 0, loc)\<close> on the date of \<open>t\<close> in \<open>loc\<close>, and \<open>AddDate(0, 0, 1)\<close>,
  which is \<open>time.Date\<close> on the wall clock of \<open>t\<close> with the day increased; \<open>time.Date\<close> normalises
  the day, so on the wall clock in seconds it is an addition.
\<close>

definition midnightOf :: "location \<Rightarrow> time \<Rightarrow> time" where
  "midnightOf loc t = (let w = wallClock loc t in unixInLocation loc (w - w mod 86400) * second)"

definition addDay :: "location \<Rightarrow> time \<Rightarrow> time" where
  "addDay loc t = unixInLocation loc (wallClock loc t + 86400) * second + t mod second"

section \<open>State\<close>

record tcpdumpDNSParser =
  td_loc :: location
  td_resolverIP :: string
  td_baseDate :: time
  td_havePrev :: bool
  td_prevTOD :: duration
  td_pending :: bool
  td_pendingTime :: time

definition newTcpdumpDNSParser :: "location option \<Rightarrow> time \<Rightarrow> string \<Rightarrow> tcpdumpDNSParser" where
  "newTcpdumpDNSParser loc baseDate resolverIP =
     (let loc = (case loc of None \<Rightarrow> UTC | Some l \<Rightarrow> l)
      in \<lparr>td_loc = loc, td_resolverIP = resolverIP, td_baseDate = midnightOf loc baseDate,
          td_havePrev = False, td_prevTOD = 0, td_pending = False, td_pendingTime = zeroTime\<rparr>)"

section \<open>Pieces of a line\<close>

text \<open>\<open>todRe\<close> is anchored at the start, so it is matched at the front only.\<close>

definition todRe :: "rx list" where
  "todRe = [Begin, Cls isDigit, Cls isDigit, End] @ lit '':'' @ [Begin, Cls isDigit, Cls isDigit, End]
     @ lit '':'' @ [Begin, Cls isDigit, Cls isDigit, End] @ lit ''.'' @ [Begin, Rep isDigit 1 True, End]"

definition respCountsRe :: "rx list" where
  "respCountsRe = [Begin, Rep isDigit 1 True, End] @ lit ''/'' @ [Rep isDigit 1 True] @ lit ''/''
     @ [Rep isDigit 1 True]"

text \<open>\<open>n, _ := strconv.Atoi(s)\<close> on digits only: the value, or the largest int when out of range.\<close>

definition atoiDigits :: "string \<Rightarrow> int" where
  "atoiDigits s = (case atoi s of None \<Rightarrow> 2 ^ 63 - 1 | Some n \<Rightarrow> n)"

definition parseTOD :: "string \<Rightarrow> duration option" where
  "parseTOD tok =
     (case rmatch todRe tok tok [] of
        None \<Rightarrow> None
      | Some (m, _) \<Rightarrow>
          let h = atoiDigits (m ! 0); mi = atoiDigits (m ! 1); s = atoiDigits (m ! 2)
          in if 23 < h \<or> 59 < mi \<or> 59 < s then None
             else let frac = take 9 (m ! 3);
                      ns = atoiDigits frac * 10 ^ (9 - length frac)
                  in Some (h * hour + mi * minute + s * second + ns))"

definition splitIPPort :: "string \<Rightarrow> (string \<times> uint16) option" where
  "splitIPPort s =
     (case lastIndexByte s (CHR ''.'') of
        None \<Rightarrow> None
      | Some i \<Rightarrow> (case parseUint 16 (drop (i + 1) s) of
          None \<Rightarrow> None
        | Some p \<Rightarrow> Some (take i s, word_of_int p)))"

definition payloadHasQueryMarker :: "string \<Rightarrow> bool" where
  "payloadHasQueryMarker payload \<longleftrightarrow> list_ex (\<lambda>f. hasSuffix f ''?'') (GoStrings.fields payload)"

text \<open>The loop for the marker starts at field 1; what follows the marker is the host name.\<close>

definition parseTcpdumpQuery :: "string \<Rightarrow> time \<Rightarrow> string \<Rightarrow> uint16 \<Rightarrow> parse_error + DnsEvent list" where
  "parseTcpdumpQuery payload ts clientIP clientPort =
     (case dropWhile (\<lambda>f. \<not> hasSuffix f ''?'') (tl (GoStrings.fields payload)) of
        q # n # _ \<Rightarrow>
          let qtype = trimSuffix q ''?''; qname = normalizeHost n
          in if qtype = '''' \<or> qname = '''' then Inl errMalformedTcpdumpDNS
             else Inr [no_answer ts clientIP clientPort qname qtype]
      | _ \<Rightarrow> Inl errMalformedTcpdumpDNS)"

text \<open>One resource record of a response: \<open>None\<close> when it is skipped.\<close>

definition tcpdump_answer :: "time \<Rightarrow> string \<Rightarrow> uint16 \<Rightarrow> string \<Rightarrow> string \<Rightarrow> DnsEvent option" where
  "tcpdump_answer ts clientIP clientPort qname rr =
     (case GoStrings.fields rr of
        _ # typ # addr # _ \<Rightarrow>
          if typ \<noteq> ''A'' \<and> typ \<noteq> ''AAAA'' then None
          else (case parseIP addr of
              None \<Rightarrow> None
            | Some ip \<Rightarrow>
                if typ = ''A'' \<and> To4 ip = None then None
                else if typ = ''AAAA'' \<and> To4 ip \<noteq> None then None
                else Some \<lparr>dn_EventTime = ts, dn_ClientIP = clientIP, dn_ClientPort = clientPort,
                  dn_QName = qname, dn_QType = typ, dn_AnswerIP = addr, dn_TTL = 0, dn_TTLUnknown = True\<rparr>)
      | _ \<Rightarrow> None)"

definition parseTcpdumpResponse :: "string \<Rightarrow> time \<Rightarrow> string \<Rightarrow> uint16 \<Rightarrow> parse_error + DnsEvent list" where
  "parseTcpdumpResponse payload0 ts clientIP clientPort =
     (let payload = (case lastIndex payload0 '' ('' of None \<Rightarrow> payload0 | Some i \<Rightarrow> take i payload0)
      in case find_match respCountsRe payload of
          None \<Rightarrow> Inr []
        | Some (m, rest) \<Rightarrow>
            let ancount = atoiDigits (m ! 0); answerSection = trimSpace rest
            in if ancount = 0 \<or> answerSection = '''' then Inr []
               else let rrs = split answerSection '', ''
                    in case GoStrings.fields (hd rrs) of
                        owner # firstType # _ \<Rightarrow>
                          let qname = normalizeHost owner
                          in if qname = '''' then Inr []
                             else let events = List.map_filter (tcpdump_answer ts clientIP clientPort qname) rrs
                                  in if events = [] then Inr [no_answer ts clientIP clientPort qname firstType]
                                     else Inr events
                      | _ \<Rightarrow> Inr [])"

text \<open>Which endpoint is the client, and whether the packet is a query; \<open>None\<close> when it is not DNS.\<close>

definition direction :: "string \<Rightarrow> string \<times> uint16 \<Rightarrow> string \<times> uint16 \<Rightarrow> (bool \<times> string \<times> uint16) option" where
  "direction payload src dst =
     (if snd dst = 53 \<and> snd src = 53 then
        (if payloadHasQueryMarker payload then Some (True, src) else Some (False, dst))
      else if snd dst = 53 then Some (True, src)
      else if snd src = 53 then Some (False, dst)
      else None)"

definition parsePayload :: "tcpdumpDNSParser \<Rightarrow> string \<Rightarrow> time \<Rightarrow> parse_error + DnsEvent list" where
  "parsePayload p s ts =
     (case index s '' > '' of
        None \<Rightarrow> Inr []
      | Some gt \<Rightarrow>
          let src = take gt s; rest = drop (gt + 3) s
          in case index rest '': '' of
              None \<Rightarrow> Inr []
            | Some colon \<Rightarrow>
                let dst = take colon rest; payload = drop (colon + 2) rest
                in case (splitIPPort src, splitIPPort dst) of
                    (Some se, Some de) \<Rightarrow>
                      (case direction payload se de of
                         None \<Rightarrow> Inr []
                       | Some (isQuery, clientIP, clientPort) \<Rightarrow>
                           if td_resolverIP p \<noteq> '''' \<and> clientIP = td_resolverIP p then Inr []
                           else if isQuery then parseTcpdumpQuery payload ts clientIP clientPort
                           else parseTcpdumpResponse payload ts clientIP clientPort)
                  | _ \<Rightarrow> Inr [])"

section \<open>The feed\<close>

definition indented :: "string \<Rightarrow> bool" where
  "indented line \<longleftrightarrow> line \<noteq> [] \<and> (hd line = CHR '' '' \<or> hd line = CHR 0x09)"

definition firstToken :: "string \<Rightarrow> string" where
  "firstToken line = (case indexByte line (CHR '' '') of None \<Rightarrow> line | Some i \<Rightarrow> take i line)"

definition udpHeader :: "string \<Rightarrow> bool" where
  "udpHeader line \<longleftrightarrow> contains line ''proto UDP'' \<or> contains line ''next-header UDP''"

text \<open>The clock part of a header: the rollover.\<close>

definition td_advance :: "duration \<Rightarrow> tcpdumpDNSParser \<Rightarrow> tcpdumpDNSParser" where
  "td_advance tod p =
     (let p = (if td_havePrev p \<and> 12 * hour < td_prevTOD p - tod
               then p\<lparr>td_baseDate := addDay (td_loc p) (td_baseDate p)\<rparr> else p)
      in p\<lparr>td_prevTOD := tod, td_havePrev := True\<rparr>)"

definition tcpdump_feed ::
  "string \<Rightarrow> tcpdumpDNSParser \<Rightarrow> (parse_error + DnsEvent list) \<times> tcpdumpDNSParser" where
  "tcpdump_feed line p =
     (if line = '''' then (Inr [], p)
      else if indented line then
        (if \<not> td_pending p then (Inr [], p)
         else (parsePayload p (trimLeftIf (\<lambda>c. c = CHR '' '' \<or> c = CHR 0x09) line) (td_pendingTime p),
               p\<lparr>td_pending := False\<rparr>))
      else case parseTOD (firstToken line) of
          None \<Rightarrow> (Inr [], p\<lparr>td_pending := False\<rparr>)
        | Some tod \<Rightarrow>
            let p = td_advance tod p
            in (Inr [], if udpHeader line
                        then p\<lparr>td_pending := True, td_pendingTime := td_baseDate p + tod\<rparr>
                        else p\<lparr>td_pending := False\<rparr>))"

text \<open>The parser of the store built by \<open>NewDNSStoreTcpdump\<close>.\<close>

definition tcpdump_parser :: "location \<Rightarrow> time \<Rightarrow> string \<Rightarrow> tcpdumpDNSParser dns_parser" where
  "tcpdump_parser loc baseDate resolverIP =
     \<lparr>lp_init = newTcpdumpDNSParser (Some loc) baseDate resolverIP, lp_feed = tcpdump_feed\<rparr>"

lemma tcpdump_example:
  "let p = newTcpdumpDNSParser None (1783900800 * second) ''10.0.0.3'';
       (r1, p1) = tcpdump_feed ''15:39:41.068677 IP (tos 0x0, ttl 128, proto UDP (17), length 63)'' p;
       (r2, p2) = tcpdump_feed ''    10.0.0.3.53 > 10.0.0.66.51578: 31291 2/0/0 Example.com. A 1.2.3.4, b. AAAA ::1 (35)'' p1
   in r1 = Inr [] \<and> map_sum id (map dn_AnswerIP) r2 = Inr [''1.2.3.4'', ''::1'']
      \<and> map_sum id (map dn_QName) r2 = Inr [''example.com'', ''example.com''] \<and> \<not> td_pending p2"
  by code_simp

end
