(* ===== verification/TcpdumpProps.thy ===== *)
theory TcpdumpProps
  imports TcpdumpLog DnsScan
begin

text \<open>
  What the two-line \<open>tcpdump\<close> parser guarantees: which lines emit events and what they look like,
  when the dates it reconstructs are the true ones, and an input on which they are not.
\<close>

section \<open>One step\<close>

text \<open>What a line does to the clock and to the pending header.\<close>

definition header_tod :: "string \<Rightarrow> duration option" where
  "header_tod line = (if line = '''' \<or> indented line then None else parseTOD (firstToken line))"

definition feed_state :: "string \<Rightarrow> tcpdumpDNSParser \<Rightarrow> tcpdumpDNSParser" where
  "feed_state line p = snd (tcpdump_feed line p)"

lemma td_advance_frames [simp]:
  "td_loc (td_advance t p) = td_loc p" "td_resolverIP (td_advance t p) = td_resolverIP p"
  "td_prevTOD (td_advance t p) = t" "td_havePrev (td_advance t p)"
  "td_pending (td_advance t p) = td_pending p"
  by (simp_all add: td_advance_def Let_def)

lemma td_advance_base:
  "td_baseDate (td_advance t p) =
     (if td_havePrev p \<and> 12 * hour < td_prevTOD p - t then addDay (td_loc p) (td_baseDate p)
      else td_baseDate p)"
  by (simp add: td_advance_def Let_def)

lemma feed_state_clock:
  "td_baseDate (feed_state line p)
     = (case header_tod line of None \<Rightarrow> td_baseDate p | Some t \<Rightarrow> td_baseDate (td_advance t p))"
  "td_havePrev (feed_state line p) = (header_tod line \<noteq> None \<or> td_havePrev p)"
  "td_prevTOD (feed_state line p) = (case header_tod line of None \<Rightarrow> td_prevTOD p | Some t \<Rightarrow> t)"
  "td_loc (feed_state line p) = td_loc p" "td_resolverIP (feed_state line p) = td_resolverIP p"
  by (auto simp: feed_state_def tcpdump_feed_def header_tod_def Let_def split: option.splits)

lemma feed_state_pending:
  "td_pending (feed_state line p) \<longleftrightarrow>
     (if line = '''' then td_pending p else header_tod line \<noteq> None \<and> udpHeader line)"
  "line \<noteq> '''' \<Longrightarrow> td_pending (feed_state line p) \<Longrightarrow>
     td_pendingTime (feed_state line p) = td_baseDate (feed_state line p) + td_prevTOD (feed_state line p)"
  by (auto simp: feed_state_def tcpdump_feed_def header_tod_def Let_def split: option.splits if_splits)

lemma feed_state_blank [simp]: "feed_state '''' p = p"
  by (simp add: feed_state_def tcpdump_feed_def)

text \<open>After any run a pending header is the last non-empty line, and its time is the clock's.\<close>

lemma pending_run:
  assumes "\<not> td_pending p0" "td_pending (fold feed_state lines p0)"
  shows "\<exists>h tod. filter (\<lambda>l. l \<noteq> '''') lines \<noteq> [] \<and> last (filter (\<lambda>l. l \<noteq> '''') lines) = h
     \<and> header_tod h = Some tod \<and> udpHeader h \<and> td_prevTOD (fold feed_state lines p0) = tod
     \<and> td_pendingTime (fold feed_state lines p0) = td_baseDate (fold feed_state lines p0) + tod"
  using assms
proof (induction lines rule: rev_induct)
  case Nil
  then show ?case by simp
next
  case (snoc l lines)
  show ?case
  proof (cases "l = ''''")
    case True
    then show ?thesis using snoc by simp
  next
    case False
    then show ?thesis
      using snoc.prems feed_state_pending [of l "fold feed_state lines p0"] feed_state_clock(3) [of l "fold feed_state lines p0"]
      by auto
  qed
qed

section \<open>What a payload emits\<close>

lemma no_answer_ok: "q \<noteq> '''' \<Longrightarrow> dns_event_ok (no_answer ts c p q ty)"
  by (simp add: dns_event_ok_def no_answer_def)

lemma tcpdump_answer_ok:
  "tcpdump_answer ts c p q rr = Some e \<Longrightarrow> q \<noteq> '''' \<Longrightarrow> dns_event_ok e \<and> dn_EventTime e = ts
     \<and> dn_ClientIP e = c \<and> dn_ClientPort e = p \<and> dn_QName e = q \<and> dn_TTLUnknown e \<and> dn_AnswerIP e \<noteq> ''''"
  by (auto simp: tcpdump_answer_def dns_event_ok_def parseIP_def split: list.splits option.splits if_splits)

text \<open>The common shape of the events of one payload.\<close>

definition payload_ok :: "time \<Rightarrow> string \<Rightarrow> DnsEvent list \<Rightarrow> bool" where
  "payload_ok ts c evs \<longleftrightarrow>
     (\<exists>p q. \<forall>e\<in>set evs. dn_EventTime e = ts \<and> dn_ClientIP e = c \<and> dn_ClientPort e = p \<and> dn_QName e = q
        \<and> dns_event_ok e \<and> (dn_TTLUnknown e \<longleftrightarrow> dn_AnswerIP e \<noteq> ''''))"

lemma payload_ok_Nil [simp]: "payload_ok ts c []"
  by (simp add: payload_ok_def)

lemma payload_ok_no_answer: "q \<noteq> '''' \<Longrightarrow> payload_ok ts c [no_answer ts c p q ty]"
  using no_answer_ok [of q ts c p ty] by (auto simp: payload_ok_def no_answer_def)

lemma payload_ok_query: "parseTcpdumpQuery pl ts c p = Inr evs \<Longrightarrow> payload_ok ts c evs"
  by (auto simp: parseTcpdumpQuery_def Let_def payload_ok_no_answer split: list.splits if_splits)

lemma payload_ok_response: "parseTcpdumpResponse pl ts c p = Inr evs \<Longrightarrow> payload_ok ts c evs"
proof -
  have "payload_ok ts c (List.map_filter (tcpdump_answer ts c p q) rrs)" if "q \<noteq> ''''" for q rrs
    unfolding payload_ok_def
    by (rule exI [of _ p], rule exI [of _ q]) (auto simp: set_map_filter' dest: tcpdump_answer_ok [OF _ that])
  then show "parseTcpdumpResponse pl ts c p = Inr evs \<Longrightarrow> payload_ok ts c evs"
    by (auto simp: parseTcpdumpResponse_def Let_def payload_ok_no_answer
        split: list.splits option.splits prod.splits if_splits)
qed

lemma parsePayload_ok:
  "parsePayload p s ts = Inr evs \<Longrightarrow> evs \<noteq> [] \<Longrightarrow>
     \<exists>c. payload_ok ts c evs \<and> (td_resolverIP p = '''' \<or> c \<noteq> td_resolverIP p)"
  by (auto simp: parsePayload_def Let_def split: option.splits prod.splits if_splits
      dest!: payload_ok_query payload_ok_response)

text \<open>C29. An event of the \<open>tcpdump\<close> parser comes from one packet of two adjacent lines. A line emits
  events only when it is indented and the last non-empty line before it is the header of a UDP
  packet; the events carry that header's time and no later line can use the header again. All the
  events of the line have one client, which is not the configured resolver, one port and one
  non-empty host name; each is without an answer or answers with an address of its type's family
  and is marked as having no known TTL.\<close>

theorem tcpdump_packet_contract:
  fixes loc base res before line
  defines "p \<equiv> fold feed_state before (newTcpdumpDNSParser loc base res)"
  assumes "tcpdump_feed line p = (Inr evs, p')" and "evs \<noteq> []"
  shows "indented line
    \<and> (\<exists>h tod. filter (\<lambda>l. l \<noteq> '''') before \<noteq> [] \<and> last (filter (\<lambda>l. l \<noteq> '''') before) = h
         \<and> header_tod h = Some tod \<and> udpHeader h
         \<and> (\<exists>c port q. (res = '''' \<or> c \<noteq> res) \<and> (\<forall>e\<in>set evs. dn_EventTime e = td_baseDate p + tod
              \<and> dn_ClientIP e = c \<and> dn_ClientPort e = port \<and> dn_QName e = q \<and> dns_event_ok e
              \<and> (dn_TTLUnknown e \<longleftrightarrow> dn_AnswerIP e \<noteq> ''''))))
    \<and> \<not> td_pending p'"
proof -
  have res: "td_resolverIP p = res"
    unfolding p_def by (induction before rule: rev_induct)
      (simp_all add: newTcpdumpDNSParser_def Let_def feed_state_clock)
  have l: "indented line" "td_pending p" "p' = p\<lparr>td_pending := False\<rparr>"
    and pl: "parsePayload p (trimLeftIf (\<lambda>c. c = CHR '' '' \<or> c = CHR 0x09) line) (td_pendingTime p) = Inr evs"
    using assms(2,3) by (auto simp: tcpdump_feed_def Let_def split: if_splits option.splits)
  obtain h tod where h: "filter (\<lambda>l. l \<noteq> '''') before \<noteq> []" "last (filter (\<lambda>l. l \<noteq> '''') before) = h"
    "header_tod h = Some tod" "udpHeader h" "td_pendingTime p = td_baseDate p + tod"
    using pending_run [of "newTcpdumpDNSParser loc base res" before] l(2)
    unfolding p_def by (auto simp: newTcpdumpDNSParser_def Let_def)
  obtain c where "payload_ok (td_pendingTime p) c evs" "res = '''' \<or> c \<noteq> res"
    using parsePayload_ok [OF pl assms(3)] res by blast
  then show ?thesis using l h unfolding payload_ok_def by auto
qed

definition ex_header :: "string \<Rightarrow> string" where
  "ex_header tod = tod @ '' IP (tos 0x0, ttl 128, proto UDP (17), length 63)''"

definition ex_response :: string where
  "ex_response = ''    10.0.0.3.53 > 10.0.0.66.51578: 31291 1/0/0 Example.com. A 1.2.3.4 (35)''"

lemma tcpdump_packet_contract_witness:
  "\<exists>e. fst (tcpdump_feed ex_response (fold feed_state [ex_header ''15:39:41.068677'']
         (newTcpdumpDNSParser None 0 ''10.0.0.3''))) = Inr [e]
     \<and> indented ex_response \<and> dns_event_ok e \<and> dn_TTLUnknown e \<and> dn_QName e = ''example.com''"
proof -
  let ?p = "fold feed_state [ex_header ''15:39:41.068677''] (newTcpdumpDNSParser None 0 ''10.0.0.3'')"
  let ?e = "\<lparr>dn_EventTime = 56381068677000, dn_ClientIP = ''10.0.0.66'', dn_ClientPort = 51578,
     dn_QName = ''example.com'', dn_QType = ''A'', dn_AnswerIP = ''1.2.3.4'', dn_TTL = 0, dn_TTLUnknown = True\<rparr>"
  have f: "fst (tcpdump_feed ex_response ?p) = Inr [?e]" by code_simp
  then have f': "tcpdump_feed ex_response ?p = (Inr [?e], snd (tcpdump_feed ex_response ?p))"
    by (metis prod.collapse)
  from tcpdump_packet_contract [OF f'] f show ?thesis by (intro exI [of _ ?e]) auto
qed

section \<open>The reconstructed dates\<close>

abbreviation day :: duration where "day \<equiv> 24 * hour"

text \<open>
  The true time of a packet is \<open>w\<close> nanoseconds after the anchor's midnight; its header prints
  \<open>w mod day\<close>. Consecutive packets are within reach of the rollover rule when they are on the same
  day and at most 12 hours backward, or on consecutive days and less than 12 hours apart.
\<close>

definition rollover_ok :: "int \<Rightarrow> int \<Rightarrow> bool" where
  "rollover_ok a b \<longleftrightarrow>
     (b div day = a div day \<and> a - b \<le> 12 * hour) \<or> (b div day = a div day + 1 \<and> b - a < 12 * hour)"

text \<open>No change of the zone's offset in the days of the capture.\<close>

definition plain_days :: "location \<Rightarrow> time \<Rightarrow> bool" where
  "plain_days loc b \<longleftrightarrow> (\<forall>n\<ge>0. addDay loc (b + n * day) = b + (n + 1) * day)"

lemma plain_days_UTC: "plain_days UTC (midnightOf UTC t)"
  by (simp add: plain_days_def addDay_def midnightOf_def wallClock_def unixInLocation_def UTC_def Let_def)

lemma day_split: "(a :: int) mod day = a - a div day * day"
  by (rule minus_div_mult_eq_mod [symmetric])

lemma clock_run:
  assumes "plain_days (td_loc p0) (td_baseDate p0)" "\<not> td_havePrev p0"
    and "ws \<noteq> []" "successively rollover_ok ws" "0 \<le> hd ws" "hd ws < day"
  shows "td_baseDate (fold td_advance (map (\<lambda>w. w mod day) ws) p0) = td_baseDate p0 + last ws div day * day
     \<and> 0 \<le> last ws div day"
  using assms(3-)
proof (induction ws rule: rev_nonempty_induct)
  case (single w)
  then have "w div day = 0" by (simp add: div_pos_pos_trivial)
  then show ?case using assms(2) by (simp add: td_advance_def)
next
  case (snoc w ws)
  let ?p = "fold td_advance (map (\<lambda>w. w mod day) ws) p0"
  let ?a = "last ws"
  have ok: "rollover_ok ?a w" "successively rollover_ok ws" "hd ws = hd (ws @ [w])"
    using snoc.prems(1) snoc.hyps by (auto simp: successively_append_iff)
  have IH: "td_baseDate ?p = td_baseDate p0 + ?a div day * day" "0 \<le> ?a div day"
    using snoc.IH ok snoc.prems by simp_all
  have st: "td_havePrev ?p" "td_prevTOD ?p = ?a mod day" "td_loc ?p = td_loc p0"
  proof -
    obtain us where us: "ws = us @ [?a]" using snoc.hyps by (metis append_butlast_last_id)
    have loc: "td_loc (fold td_advance ts p0) = td_loc p0" for ts
      by (induction ts rule: rev_induct) simp_all
    show "td_havePrev ?p" "td_prevTOD ?p = ?a mod day" "td_loc ?p = td_loc p0"
      by (subst us, simp)+ (rule loc)
  qed
  have b: "0 \<le> w mod day" "w mod day < day" "0 \<le> ?a mod day" "?a mod day < day"
    by (simp_all add: pos_mod_bound)
  show ?case
  proof (cases "w div day = ?a div day")
    case True
    then have "\<not> 12 * hour < ?a mod day - w mod day"
      using ok(1) True unfolding rollover_ok_def day_split by linarith
    then show ?thesis using st IH True by (simp add: td_advance_base)
  next
    case False
    then have n: "w div day = ?a div day + 1" and lt: "w - ?a < 12 * hour"
      using ok(1) by (auto simp: rollover_ok_def)
    have "12 * hour < ?a mod day - w mod day"
      using n lt unfolding day_split by (simp add: algebra_simps)
    then have "td_baseDate (td_advance (w mod day) ?p) = addDay (td_loc p0) (td_baseDate p0 + ?a div day * day)"
      using st IH by (simp add: td_advance_base)
    also have "\<dots> = td_baseDate p0 + w div day * day"
      using assms(1) IH(2) n unfolding plain_days_def by simp
    finally show ?thesis using n IH(2) by simp
  qed
qed

text \<open>The clock of a run of lines only sees the header lines.\<close>

definition same_clock :: "tcpdumpDNSParser \<Rightarrow> tcpdumpDNSParser \<Rightarrow> bool" where
  "same_clock p q \<longleftrightarrow> td_loc p = td_loc q \<and> td_baseDate p = td_baseDate q \<and> td_havePrev p = td_havePrev q
     \<and> td_prevTOD p = td_prevTOD q"

lemma same_clock_advance: "same_clock p q \<Longrightarrow> same_clock (td_advance t p) (td_advance t q)"
  by (simp add: same_clock_def td_advance_def)

lemma same_clock_feed:
  "same_clock (feed_state line p) (case header_tod line of None \<Rightarrow> p | Some t \<Rightarrow> td_advance t p)"
  by (simp add: same_clock_def feed_state_clock split: option.split)

lemma clock_of_lines:
  "same_clock (fold feed_state lines p) (fold td_advance (List.map_filter header_tod lines) p)"
proof (induction lines rule: rev_induct)
  case Nil
  show ?case by (simp add: same_clock_def map_filter_simps)
next
  case (snoc l lines)
  have mf: "List.map_filter header_tod (lines @ [l])
      = List.map_filter header_tod lines @ (case header_tod l of None \<Rightarrow> [] | Some t \<Rightarrow> [t])"
    by (simp add: map_filter_def split: option.split)
  show ?case
    using same_clock_feed [of l "fold feed_state lines p"] snoc.IH
      same_clock_advance [OF snoc.IH] unfolding mf
    by (auto simp: same_clock_def split: option.splits)
qed

text \<open>C30. The dates the parser reconstructs are the true ones as long as consecutive packets are
  either on the same day, at most 12 hours backward, or on consecutive days, less than 12 hours
  apart (and the zone keeps its offset during the capture). Then every event carries the anchor's
  midnight plus the true time of its packet, over any number of midnights.\<close>

theorem tcpdump_dates_exact:
  fixes loc base res before line ws
  defines "m \<equiv> midnightOf loc base"
  assumes "plain_days loc m"
    and "List.map_filter header_tod before = map (\<lambda>w. w mod day) ws"
    and "successively rollover_ok ws" "0 \<le> hd ws" "hd ws < day"
    and "tcpdump_feed line (fold feed_state before (newTcpdumpDNSParser (Some loc) base res)) = (Inr evs, p')"
    and "e \<in> set evs"
  shows "dn_EventTime e = m + last ws"
proof -
  let ?init = "newTcpdumpDNSParser (Some loc) base res"
  let ?p = "fold feed_state before ?init"
  have p0: "td_loc ?init = loc" "td_baseDate ?init = m" "\<not> td_havePrev ?init" "\<not> td_pending ?init"
    by (simp_all add: newTcpdumpDNSParser_def Let_def m_def)
  have ne: "evs \<noteq> []" using assms(8) by auto
  obtain h tod where pend: "filter (\<lambda>l. l \<noteq> '''') before \<noteq> []" "td_prevTOD ?p = tod" "header_tod h = Some tod"
    "last (filter (\<lambda>l. l \<noteq> '''') before) = h" "td_pendingTime ?p = td_baseDate ?p + tod"
    using pending_run [of ?init before] p0(4) assms(7) ne
    by (auto simp: tcpdump_feed_def Let_def split: if_splits option.splits)
  have time: "dn_EventTime e = td_pendingTime ?p"
    using assms(7,8) parsePayload_ok [of ?p _ "td_pendingTime ?p" evs] ne
    by (auto simp: tcpdump_feed_def Let_def payload_ok_def split: if_splits option.splits)
  have "h \<in> set before" using last_in_set [OF pend(1)] pend(4) by simp
  then have "List.map_filter header_tod before \<noteq> []" using pend(3) set_map_filter' [of tod header_tod before] by force
  then have ws: "ws \<noteq> []" using assms(3) by auto
  have sc: "same_clock ?p (fold td_advance (map (\<lambda>w. w mod day) ws) ?init)"
    using clock_of_lines [of before ?init] assms(3) by simp
  have "td_prevTOD (fold td_advance (map (\<lambda>w. w mod day) ws) ?init) = last ws mod day"
    using ws by (cases ws rule: rev_cases) simp_all
  then have tod: "tod = last ws mod day" using sc pend(2) by (simp add: same_clock_def)
  have "td_baseDate ?p = m + last ws div day * day"
    using clock_run [of ?init ws] p0 assms(2,4-6) ws sc by (simp add: same_clock_def)
  then show ?thesis unfolding time pend(5) tod by (simp add: day_split)
qed

lemma tcpdump_dates_exact_witness:
  "\<exists>e p'. tcpdump_feed ex_response (fold feed_state
       [ex_header ''23:59:59.5'', ex_response, ex_header ''00:00:01.25''] (newTcpdumpDNSParser (Some UTC) 0 ''''))
       = (Inr [e], p')
     \<and> dn_EventTime e = midnightOf UTC 0 + (day + 1250000000)"
proof -
  let ?b = "[ex_header ''23:59:59.5'', ex_response, ex_header ''00:00:01.25'']"
  let ?r = "tcpdump_feed ex_response (fold feed_state ?b (newTcpdumpDNSParser (Some UTC) 0 ''''))"
  let ?e = "\<lparr>dn_EventTime = 86401250000000, dn_ClientIP = ''10.0.0.66'', dn_ClientPort = 51578,
     dn_QName = ''example.com'', dn_QType = ''A'', dn_AnswerIP = ''1.2.3.4'', dn_TTL = 0, dn_TTLUnknown = True\<rparr>"
  let ?ws = "[86399500000000, 86401250000000 :: int]"
  have "fst ?r = Inr [?e]" by code_simp
  then have r: "?r = (Inr [?e], snd ?r)" by (metis prod.collapse)
  have h: "List.map_filter header_tod ?b = map (\<lambda>w. w mod day) ?ws" by code_simp
  have "dn_EventTime ?e = midnightOf UTC 0 + last ?ws"
    by (rule tcpdump_dates_exact [OF plain_days_UTC h _ _ _ r]) (simp_all add: rollover_ok_def)
  then show ?thesis using r by (intro exI [of _ ?e] exI [of _ "snd ?r"]) simp
qed

section \<open>Reordering at midnight\<close>

text \<open>
  Backward jitter of half a second is harmless within a day, but not across midnight: the packet
  of the old day that arrives late is dated on the new day, and the next packet looks like
  another midnight, so that it and everything after it is dated one day too late. The comment in
  \<open>feed\<close> says that reordering never corrupts the anchor.
\<close>

lemma tcpdump_reorder_at_midnight:
  "let tods = [23 * hour + 59 * minute + 59 * second, 0, 23 * hour + 59 * minute + 59 * second, second];
       p = fold td_advance tods (newTcpdumpDNSParser (Some UTC) 0 '''')
   in td_baseDate p = midnightOf UTC 0 + 2 * day"
  by (simp add: td_advance_def newTcpdumpDNSParser_def midnightOf_def addDay_def wallClock_def
      unixInLocation_def UTC_def Let_def)

end
