(* ===== verification/DnstapLog.thy ===== *)
theory DnstapLog
  imports DnsStore
begin

text \<open>
  \<open>dnstaplog.go\<close>: the parser of \<open>dnstap-read -y\<close> text. A DNS message is a multi-line document
  between lines that start in column 0; its fields accumulate in the parser and become events
  when the document ends. The parser is line oriented on purpose and is modelled as the state
  machine it is.
\<close>

section \<open>State\<close>

record dnstapAnswer =
  da_qtype :: string
  da_answerIP :: string
  da_ttl :: uint32

datatype dnstapSection = sectNone | sectQuestion | sectAnswer

record dnstapDNSParser =
  ds_inBlock :: bool
  ds_inLiteral :: bool
  ds_kind :: string
  ds_section :: dnstapSection
  ds_eventTime :: time
  ds_clientIP :: string
  ds_clientPort :: uint16
  ds_qname :: string
  ds_qtype :: string
  ds_answers :: "dnstapAnswer list"

text \<open>\<open>begin\<close> and \<open>reset\<close>; \<open>newDnstapDNSParser\<close> is Go's zero value.\<close>

definition dnstap_begin :: "dnstapDNSParser \<Rightarrow> dnstapDNSParser" where
  "dnstap_begin p = p\<lparr>ds_inBlock := True, ds_inLiteral := False, ds_kind := '''',
     ds_section := sectNone, ds_eventTime := zeroTime, ds_clientIP := '''', ds_clientPort := 0,
     ds_qname := '''', ds_qtype := '''', ds_answers := []\<rparr>"

definition dnstap_reset :: "dnstapDNSParser \<Rightarrow> dnstapDNSParser" where
  "dnstap_reset p = (dnstap_begin p)\<lparr>ds_inBlock := False\<rparr>"

definition newDnstapDNSParser :: dnstapDNSParser where
  "newDnstapDNSParser = \<lparr>ds_inBlock = False, ds_inLiteral = False, ds_kind = '''',
     ds_section = sectNone, ds_eventTime = zeroTime, ds_clientIP = '''', ds_clientPort = 0,
     ds_qname = '''', ds_qtype = '''', ds_answers = []\<rparr>"

section \<open>Fields and items\<close>

definition splitDnstapField :: "string \<Rightarrow> string \<times> string" where
  "splitDnstapField s =
     (case indexByte s (CHR '':'') of
        None \<Rightarrow> (s, '''')
      | Some i \<Rightarrow> (take i s, trimSpace (drop (i + 1) s)))"

definition parseTimestamp :: "string \<Rightarrow> dnstapDNSParser \<Rightarrow> dnstapDNSParser" where
  "parseTimestamp val p =
     (let s = trimSpace (trimPrefix val ''!!timestamp'')
      in case parseInLocation RFC3339 s UTC of
          None \<Rightarrow> p
        | Some t \<Rightarrow> p\<lparr>ds_eventTime := t\<rparr>)"

definition parseQuestion :: "string \<Rightarrow> dnstapDNSParser \<Rightarrow> dnstapDNSParser" where
  "parseQuestion item p =
     (let f = GoStrings.fields item
      in if length f < 2 then p
         else p\<lparr>ds_qname := normalizeHost (f ! 0), ds_qtype := f ! (length f - 1)\<rparr>)"

definition parseAnswer :: "string \<Rightarrow> dnstapDNSParser \<Rightarrow> dnstapDNSParser" where
  "parseAnswer item p =
     (let f = GoStrings.fields item
      in if length f < 5 then p
         else let typ = f ! 3
         in if typ \<noteq> ''A'' \<and> typ \<noteq> ''AAAA'' then p
         else case parseUint 32 (f ! 1) of
             None \<Rightarrow> p
           | Some ttl \<Rightarrow> (case parseIP (f ! 4) of
               None \<Rightarrow> p
             | Some ip \<Rightarrow>
                 if typ = ''A'' \<and> To4 ip = None then p
                 else if typ = ''AAAA'' \<and> To4 ip \<noteq> None then p
                 else p\<lparr>ds_answers := ds_answers p @
                   [\<lparr>da_qtype = typ, da_answerIP = f ! 4, da_ttl = word_of_int ttl\<rparr>]\<rparr>))"

text \<open>The \<open>switch\<close> on the key of a field line.\<close>

definition dnstap_field :: "string \<Rightarrow> string \<Rightarrow> dnstapDNSParser \<Rightarrow> dnstapDNSParser" where
  "dnstap_field key val p =
     (if key = ''type'' then p\<lparr>ds_kind := val\<rparr>
      else if key = ''query_time'' \<or> key = ''response_time'' then parseTimestamp val p
      else if key = ''query_address'' then p\<lparr>ds_clientIP := trimIf (\<lambda>c. c = CHR 0x22) val\<rparr>
      else if key = ''query_port'' then p\<lparr>ds_clientPort := parsePort val\<rparr>
      else if key = ''query_message'' \<or> key = ''response_message'' then
        (if val = ''|'' then p\<lparr>ds_inLiteral := True\<rparr> else p)
      else if key = ''QUESTION_SECTION'' then p\<lparr>ds_section := sectQuestion\<rparr>
      else if key = ''ANSWER_SECTION'' then p\<lparr>ds_section := sectAnswer\<rparr>
      else p)"

definition dnstap_item :: "string \<Rightarrow> dnstapDNSParser \<Rightarrow> dnstapDNSParser" where
  "dnstap_item item p =
     (case ds_section p of
        sectQuestion \<Rightarrow> parseQuestion item p
      | sectAnswer \<Rightarrow> parseAnswer item p
      | sectNone \<Rightarrow> p)"

section \<open>The end of a document\<close>

definition answer_event :: "dnstapDNSParser \<Rightarrow> dnstapAnswer \<Rightarrow> DnsEvent" where
  "answer_event p a =
     \<lparr>dn_EventTime = ds_eventTime p, dn_ClientIP = ds_clientIP p, dn_ClientPort = ds_clientPort p,
      dn_QName = ds_qname p, dn_QType = da_qtype a, dn_AnswerIP = da_answerIP a, dn_TTL = da_ttl a,
      dn_TTLUnknown = False\<rparr>"

definition question_event :: "dnstapDNSParser \<Rightarrow> DnsEvent" where
  "question_event p =
     no_answer (ds_eventTime p) (ds_clientIP p) (ds_clientPort p) (ds_qname p) (ds_qtype p)"

text \<open>What the document says, before the deferred reset.\<close>

definition dnstap_events :: "dnstapDNSParser \<Rightarrow> parse_error + DnsEvent list" where
  "dnstap_events p =
     (if ds_kind p \<noteq> ''CLIENT_QUERY'' \<and> ds_kind p \<noteq> ''CLIENT_RESPONSE'' then Inr []
      else if ds_eventTime p = zeroTime \<or> ds_clientIP p = '''' \<or> ds_qname p = '''' then Inl errMalformedDnstapDNS
      else if ds_kind p = ''CLIENT_QUERY'' then Inr [question_event p]
      else let events = map (answer_event p) (ds_answers p)
           in if events = [] then Inr [question_event p] else Inr events)"

definition dnstap_flush :: "dnstapDNSParser \<Rightarrow> (parse_error + DnsEvent list) \<times> dnstapDNSParser" where
  "dnstap_flush p =
     (if \<not> ds_inBlock p then (Inr [], p) else (dnstap_events p, dnstap_reset p))"

section \<open>The feed\<close>

definition dnstap_feed ::
  "string \<Rightarrow> dnstapDNSParser \<Rightarrow> (parse_error + DnsEvent list) \<times> dnstapDNSParser" where
  "dnstap_feed line p =
     (if line = '''' then (Inr [], p)
      else if hd line \<noteq> CHR '' '' \<and> hd line \<noteq> CHR 0x09 then
        let p = p\<lparr>ds_inLiteral := False\<rparr>
        in if line = ''---'' then dnstap_flush p
           else if hasPrefix line ''type:'' then
             (let (r, p) = dnstap_flush p in (r, dnstap_begin p))
           else (Inr [], p)
      else if \<not> ds_inBlock p \<or> ds_inLiteral p then (Inr [], p)
      else let content = trimLeftIf (\<lambda>c. c = CHR '' '' \<or> c = CHR 0x09) line
        in if hasPrefix content ''- '' then
             (Inr [], dnstap_item (trimIf (\<lambda>c. c = CHR 0x27) (trimPrefix content ''- '')) p)
           else let (key, val) = splitDnstapField content
                in (Inr [], dnstap_field key val (p\<lparr>ds_section := sectNone\<rparr>)))"

text \<open>The parser of the store built by \<open>NewDNSStoreDnstap\<close>.\<close>

definition dnstap_parser :: "dnstapDNSParser dns_parser" where
  "dnstap_parser = \<lparr>lp_init = newDnstapDNSParser, lp_feed = dnstap_feed\<rparr>"

section \<open>Every line\<close>

text \<open>The results of the lines of a stream, and the state after them.\<close>

fun dnstap_run :: "string list \<Rightarrow> dnstapDNSParser \<Rightarrow> (parse_error + DnsEvent list) list \<times> dnstapDNSParser" where
  "dnstap_run [] p = ([], p)"
| "dnstap_run (l # ls) p =
     (let (r, p1) = dnstap_feed l p; (rs, p2) = dnstap_run ls p1 in (r # rs, p2))"

lemma dnstap_example:
  "fst (dnstap_run [''type: MESSAGE'', ''identity: Nop'', ''message:'', ''  type: CLIENT_RESPONSE'',
      ''  response_time: !!timestamp 2026-07-15T08:42:54Z'', ''  query_port: 42201'',
      ''  query_address: '' @ [CHR 0x22] @ ''127.0.0.1'' @ [CHR 0x22], ''    QUESTION_SECTION:'',
      ''      - '' @ [CHR 0x27] @ ''google.com. IN A'' @ [CHR 0x27], ''    ANSWER_SECTION:'',
      ''      - '' @ [CHR 0x27] @ ''google.com. 49 IN A 142.250.66.110'' @ [CHR 0x27],
      ''  response_message: |'', ''    google.com. 1 IN A 9.9.9.9'', ''---''] newDnstapDNSParser)
   = replicate 13 (Inr []) @ [Inr [\<lparr>dn_EventTime = 1784104974 * second, dn_ClientIP = ''127.0.0.1'',
        dn_ClientPort = 42201, dn_QName = ''google.com'', dn_QType = ''A'',
        dn_AnswerIP = ''142.250.66.110'', dn_TTL = 49, dn_TTLUnknown = False\<rparr>]]"
  by code_simp

end
