(* ===== verification/DnstapProps.thy ===== *)
theory DnstapProps
  imports DnstapLog DnsScan
begin

text \<open>
  What the \<open>dnstap\<close> parser guarantees: a contract on the events of any stream, and the round
  trip of a document: the lines of a well-formed document give back, from any state of the parser,
  exactly what the document says, with every other line silent.
\<close>

section \<open>Any stream\<close>

definition rr_ok :: "dnstapAnswer \<Rightarrow> bool" where
  "rr_ok a \<longleftrightarrow> (\<exists>ip. parseIP (da_answerIP a) = Some ip
     \<and> (da_qtype a = ''A'' \<and> To4 ip \<noteq> None \<or> da_qtype a = ''AAAA'' \<and> To4 ip = None))"

definition answers_ok :: "dnstapDNSParser \<Rightarrow> bool" where
  "answers_ok p \<longleftrightarrow> list_all rr_ok (ds_answers p)"

lemma answers_ok_begin [simp]: "answers_ok (dnstap_begin p)" "answers_ok (dnstap_reset p)"
  "answers_ok newDnstapDNSParser"
  by (simp_all add: answers_ok_def dnstap_begin_def dnstap_reset_def newDnstapDNSParser_def)

lemma answers_ok_updates [simp]:
  "answers_ok (p\<lparr>ds_inLiteral := b\<rparr>) = answers_ok p" "answers_ok (p\<lparr>ds_section := x\<rparr>) = answers_ok p"
  "answers_ok (p\<lparr>ds_kind := v\<rparr>) = answers_ok p" "answers_ok (p\<lparr>ds_clientIP := v\<rparr>) = answers_ok p"
  "answers_ok (p\<lparr>ds_clientPort := n\<rparr>) = answers_ok p" "answers_ok (p\<lparr>ds_eventTime := t\<rparr>) = answers_ok p"
  "answers_ok (p\<lparr>ds_qname := v, ds_qtype := w\<rparr>) = answers_ok p"
  by (simp_all add: answers_ok_def)

lemma answers_ok_item: "answers_ok p \<Longrightarrow> answers_ok (dnstap_item item p)"
  by (auto simp: dnstap_item_def parseQuestion_def parseAnswer_def Let_def answers_ok_def rr_ok_def
      split: dnstapSection.split option.split)

lemma answers_ok_field: "answers_ok p \<Longrightarrow> answers_ok (dnstap_field key val p)"
  by (auto simp: dnstap_field_def parseTimestamp_def Let_def split: option.split)

lemma answers_ok_feed: "answers_ok p \<Longrightarrow> answers_ok (snd (dnstap_feed line p))"
  by (auto simp: dnstap_feed_def dnstap_flush_def Let_def answers_ok_item answers_ok_field split: prod.split)

lemma dnstap_run_Cons:
  "fst (dnstap_run (l # ls) p) = fst (dnstap_feed l p) # fst (dnstap_run ls (snd (dnstap_feed l p)))"
  "snd (dnstap_run (l # ls) p) = snd (dnstap_run ls (snd (dnstap_feed l p)))"
  by (simp_all add: case_prod_unfold Let_def)

lemma answers_ok_run: "answers_ok p \<Longrightarrow> answers_ok (snd (dnstap_run lines p))"
proof (induction lines arbitrary: p)
  case (Cons l ls)
  then show ?case using Cons.IH [OF answers_ok_feed [OF Cons.prems, of l]] by (simp only: dnstap_run_Cons)
qed simp

text \<open>A line starts in column 0 and ends the document before it.\<close>

definition terminator :: "string \<Rightarrow> bool" where
  "terminator line \<longleftrightarrow> line = ''---'' \<or> hasPrefix line ''type:''"

lemma feed_result:
  "fst (dnstap_feed line p) \<noteq> Inr [] \<Longrightarrow>
     terminator line \<and> ds_inBlock p \<and> fst (dnstap_feed line p) = dnstap_events p"
  by (auto simp: dnstap_feed_def dnstap_flush_def dnstap_events_def terminator_def answer_event_def
      question_event_def Let_def split: prod.splits if_splits)

lemma events_literal [simp]:
  "dnstap_events (p\<lparr>ds_inLiteral := b\<rparr>) = dnstap_events p"
  "dnstap_begin (p\<lparr>ds_inLiteral := b\<rparr>) = dnstap_begin p" "dnstap_reset (p\<lparr>ds_inLiteral := b\<rparr>) = dnstap_reset p"
  "dnstap_begin (dnstap_reset p) = dnstap_begin p"
  by (simp_all add: dnstap_events_def answer_event_def [abs_def] question_event_def dnstap_begin_def dnstap_reset_def)

lemma feed_dashes:
  "dnstap_feed ''---'' p =
     (if ds_inBlock p then (dnstap_events p, dnstap_reset p) else (Inr [], p\<lparr>ds_inLiteral := False\<rparr>))"
  by (simp add: dnstap_feed_def dnstap_flush_def)

lemma feed_type:
  assumes "hasPrefix line ''type:''"
  shows "snd (dnstap_feed line p) = dnstap_begin p"
    "fst (dnstap_feed line p) = (if ds_inBlock p then dnstap_events p else Inr [])"
proof -
  obtain rest where "line = CHR ''t'' # rest" using assms by (cases line) (auto simp: hasPrefix_def)
  with assms show "snd (dnstap_feed line p) = dnstap_begin p"
    "fst (dnstap_feed line p) = (if ds_inBlock p then dnstap_events p else Inr [])"
    by (simp_all add: dnstap_feed_def dnstap_flush_def Let_def)
qed

lemma feed_terminator_state:
  "terminator line \<Longrightarrow> ds_inBlock p \<Longrightarrow> snd (dnstap_feed line p) = dnstap_begin p \<or> snd (dnstap_feed line p) = dnstap_reset p"
  by (auto simp: terminator_def feed_dashes feed_type)

lemma dnstap_events_shape:
  assumes "dnstap_events p = Inr evs" "e \<in> set evs" "answers_ok p"
  shows "ds_kind p \<in> {''CLIENT_QUERY'', ''CLIENT_RESPONSE''} \<and> ds_eventTime p \<noteq> zeroTime
    \<and> ds_clientIP p \<noteq> '''' \<and> dn_EventTime e = ds_eventTime p \<and> dn_ClientIP e = ds_clientIP p
    \<and> dn_ClientPort e = ds_clientPort p \<and> dn_QName e = ds_qname p \<and> dns_event_ok e \<and> \<not> dn_TTLUnknown e"
proof -
  have ok: "ds_kind p \<in> {''CLIENT_QUERY'', ''CLIENT_RESPONSE''}" "ds_eventTime p \<noteq> zeroTime"
    "ds_clientIP p \<noteq> ''''" "ds_qname p \<noteq> ''''"
    using assms(1,2) by (auto simp: dnstap_events_def split: if_splits)
  have "e = question_event p \<or> (\<exists>a\<in>set (ds_answers p). e = answer_event p a)"
    using assms(1,2) by (auto simp: dnstap_events_def Let_def split: if_splits)
  then show ?thesis
    using ok assms(3)
    by (auto simp: question_event_def answer_event_def no_answer_def dns_event_ok_def answers_ok_def
        rr_ok_def list_all_iff)
qed

text \<open>C31. Whatever the stream, the \<open>dnstap\<close> parser reports only at the end of a document and once per
  document. A line that yields an event or an error is \<open>---\<close> or starts with \<open>type:\<close>, and a
  terminator right after it yields nothing. Events come only from documents of the two client-facing
  kinds that carry an instant, a client and a host name; they all have the document's instant,
  client, port and name, a known TTL, and an answer only where it is an address of the family of its
  type.\<close>

theorem dnstap_block_contract:
  fixes lines line
  defines "p \<equiv> snd (dnstap_run lines newDnstapDNSParser)"
  assumes "dnstap_feed line p = (r, p')" and "r \<noteq> Inr []"
  shows "terminator line \<and> fst (dnstap_feed ''---'' p') = Inr []
    \<and> (\<forall>evs e. r = Inr evs \<and> e \<in> set evs \<longrightarrow>
         ds_kind p \<in> {''CLIENT_QUERY'', ''CLIENT_RESPONSE''} \<and> dn_EventTime e = ds_eventTime p
         \<and> dn_EventTime e \<noteq> zeroTime \<and> dn_ClientIP e = ds_clientIP p \<and> dn_ClientIP e \<noteq> ''''
         \<and> dn_ClientPort e = ds_clientPort p \<and> dn_QName e = ds_qname p \<and> dns_event_ok e \<and> \<not> dn_TTLUnknown e)"
proof -
  have t: "terminator line" "ds_inBlock p" "r = dnstap_events p"
    using feed_result [of line p] assms(2,3) by auto
  have "p' = dnstap_begin p \<or> p' = dnstap_reset p"
    using feed_terminator_state [OF t(1,2)] assms(2) by simp
  then have "fst (dnstap_feed ''---'' p') = Inr []"
    by (auto simp: feed_dashes dnstap_events_def dnstap_begin_def dnstap_reset_def)
  moreover have "answers_ok p" unfolding p_def by (rule answers_ok_run) simp
  ultimately show ?thesis using t dnstap_events_shape [of p] by force
qed

section \<open>The round trip of a document\<close>

text \<open>
  A document as \<open>dnstap-read -y\<close> prints one: its fields, the lines of its sections, and the
  literal block that repeats the sections in another format, whose lines are indented.
\<close>

record dnstapDoc =
  dd_kind :: string
  dd_stamp :: string
  dd_addr :: string
  dd_port :: string
  dd_qname :: string
  dd_qtype :: string
  dd_rrs :: "(string \<times> string \<times> string \<times> string) list"
  dd_literal :: "string list"

abbreviation squote :: char where "squote \<equiv> CHR 0x27"
abbreviation dquote :: char where "dquote \<equiv> CHR 0x22"

definition item_line :: "string \<Rightarrow> string" where
  "item_line s = ''      - '' @ squote # s @ [squote]"

definition rr_text :: "string \<times> string \<times> string \<times> string \<Rightarrow> string" where
  "rr_text = (\<lambda>(owner, ttl, typ, rdata). owner @ CHR '' '' # ttl @ CHR '' '' # ''IN'' @ CHR '' '' # typ @ CHR '' '' # rdata)"

definition doc_lines :: "dnstapDoc \<Rightarrow> string list" where
  "doc_lines d =
     [''message:'', ''  type: '' @ dd_kind d, ''  response_time: !!timestamp '' @ dd_stamp d,
      ''  query_address: '' @ dquote # dd_addr d @ [dquote], ''  query_port: '' @ dd_port d,
      ''  response_message_data:'', ''    QUESTION_SECTION:'',
      item_line (dd_qname d @ CHR '' '' # ''IN'' @ CHR '' '' # dd_qtype d), ''    ANSWER_SECTION:'']
     @ map (item_line \<circ> rr_text) (dd_rrs d) @ [''  response_message: |''] @ dd_literal d"

text \<open>Words have no spaces and no quotes; the lines of the literal block are indented.\<close>

definition is_word :: "string \<Rightarrow> bool" where
  "is_word w \<longleftrightarrow> w \<noteq> [] \<and> (\<forall>c\<in>set w. \<not> isSpace c \<and> c \<noteq> squote \<and> c \<noteq> dquote)"

definition doc_ok :: "dnstapDoc \<Rightarrow> bool" where
  "doc_ok d \<longleftrightarrow> list_all is_word [dd_kind d, dd_stamp d, dd_addr d, dd_port d, dd_qname d, dd_qtype d]
     \<and> list_all (\<lambda>(owner, ttl, typ, rdata). list_all is_word [owner, ttl, typ, rdata]) (dd_rrs d)
     \<and> list_all (\<lambda>l. l = [] \<or> hd l = CHR '' '' \<or> hd l = CHR 0x09) (dd_literal d)"

text \<open>
  What the document says, in the terms of the BIND parser: an address record is the answer of a
  response line.
\<close>

definition doc_answer :: "time \<Rightarrow> dnstapDoc \<Rightarrow> string \<times> string \<times> string \<times> string \<Rightarrow> DnsEvent option" where
  "doc_answer t d = (\<lambda>(owner, ttl, typ, rdata).
     if typ = ''A'' \<or> typ = ''AAAA''
     then dns_answer t (dd_addr d) (parsePort (dd_port d)) (normalizeHost (dd_qname d)) [owner, ttl, typ, rdata]
     else None)"

definition doc_events :: "time \<Rightarrow> dnstapDoc \<Rightarrow> DnsEvent list" where
  "doc_events t d =
     (let none = no_answer t (dd_addr d) (parsePort (dd_port d)) (normalizeHost (dd_qname d)) (dd_qtype d);
          evs = List.map_filter (doc_answer t d) (dd_rrs d)
      in if dd_kind d = ''CLIENT_QUERY'' then [none]
         else if dd_kind d = ''CLIENT_RESPONSE'' then (if evs = [] then [none] else evs)
         else [])"

subsection \<open>Words\<close>

lemma is_wordD: "is_word w \<Longrightarrow> w \<noteq> [] \<and> \<not> isSpace (hd w) \<and> \<not> isSpace (last w)
    \<and> hd w \<noteq> squote \<and> last w \<noteq> squote \<and> hd w \<noteq> dquote \<and> last w \<noteq> dquote"
  by (auto simp: is_word_def)

lemma trimSpace_blank [simp]: "trimSpace (CHR '' '' # s) = trimSpace s"
  by (simp add: trimSpace_def trimIf_def trimLeftIf_def isSpace_def)

lemma trimSpace_word: "is_word w \<Longrightarrow> trimSpace w = w"
  by (rule trimSpace_joinWith_id) (auto dest: is_wordD)

lemma trimIf_quoted:
  assumes "w \<noteq> []" "hd w \<noteq> q" "last w \<noteq> q"
  shows "trimIf (\<lambda>c. c = q) (q # w @ [q]) = w"
proof -
  obtain c cs where w: "w = c # cs" "c \<noteq> q" using assms by (cases w) auto
  obtain ds d where w': "w = ds @ [d]" "d \<noteq> q" using assms by (cases w rule: rev_cases) auto
  have "dropWhile (\<lambda>c. c = q) (q # w @ [q]) = w @ [q]" using w by simp
  moreover have "rev (dropWhile (\<lambda>c. c = q) (rev (w @ [q]))) = w" using w' by simp
  ultimately show ?thesis by (simp add: trimIf_def trimLeftIf_def trimRightIf_def)
qed

lemma fields_word:
  assumes "w \<noteq> []" "\<forall>c\<in>set w. \<not> isSpace c" "rest = [] \<or> isSpace (hd rest)"
  shows "GoStrings.fields (w @ rest) = w # GoStrings.fields rest"
proof -
  have d: "dropWhile isSpace (w @ rest) = w @ rest" using assms by (cases w) auto
  have t: "takeWhile (\<lambda>c. \<not> isSpace c) (w @ rest) = w" "dropWhile (\<lambda>c. \<not> isSpace c) (w @ rest) = rest"
    using assms(2,3) by (cases rest; auto simp: takeWhile_append2 dropWhile_append2)+
  show ?thesis by (subst GoStrings.fields.simps) (use d t assms(1) in \<open>simp add: Let_def\<close>)
qed

lemma fields_blank: "GoStrings.fields (CHR '' '' # s) = GoStrings.fields s"
  by (subst (1 2) GoStrings.fields.simps) (simp add: isSpace_def cong: if_cong)

lemma fields_words:
  "list_all is_word ws \<Longrightarrow> GoStrings.fields (joinWith (CHR '' '') ws) = ws"
proof (induction ws rule: induct_list012)
  case 1
  show ?case by (subst GoStrings.fields.simps) simp
next
  case (2 x)
  then have "GoStrings.fields (x @ []) = x # GoStrings.fields []"
    by (intro fields_word) (simp_all add: is_word_def)
  then show ?case by (simp add: GoStrings.fields.simps [of "[]"])
next
  case (3 x y ys)
  have "GoStrings.fields (x @ CHR '' '' # joinWith (CHR '' '') (y # ys))
      = x # GoStrings.fields (CHR '' '' # joinWith (CHR '' '') (y # ys))"
    using "3.prems" by (intro fields_word) (simp_all add: is_word_def isSpace_def)
  also have "\<dots> = x # y # ys"
    unfolding fields_blank using "3.IH"(2) "3.prems" by simp
  finally show ?case by simp
qed

subsection \<open>Line by line\<close>

definition in_doc :: "dnstapDNSParser \<Rightarrow> bool" where
  "in_doc p \<longleftrightarrow> ds_inBlock p \<and> \<not> ds_inLiteral p"

text \<open>An indented line of the document: its text without the indentation.\<close>

lemma feed_field:
  assumes "in_doc p" "hd line = CHR '' ''" "line \<noteq> []"
    and "trimLeftIf (\<lambda>c. c = CHR '' '' \<or> c = CHR 0x09) line = key @ CHR '':'' # val"
    and "CHR '':'' \<notin> set key" "\<not> hasPrefix (key @ CHR '':'' # val) ''- ''"
  shows "dnstap_feed line p = (Inr [], dnstap_field key (trimSpace val) (p\<lparr>ds_section := sectNone\<rparr>))"
  using assms by (simp add: dnstap_feed_def in_doc_def splitDnstapField_def indexByte_append)

lemma feed_item:
  assumes "in_doc p" "s \<noteq> []" "hd s \<noteq> squote" "last s \<noteq> squote"
  shows "dnstap_feed (item_line s) p = (Inr [], dnstap_item s p)"
proof -
  have "trimLeftIf (\<lambda>c. c = CHR '' '' \<or> c = CHR 0x09) (item_line s) = ''- '' @ squote # s @ [squote]"
    by (simp add: item_line_def trimLeftIf_def)
  then show ?thesis
    using assms trimIf_quoted [of s squote]
    by (simp add: dnstap_feed_def in_doc_def hasPrefix_def trimPrefix_def) (simp add: item_line_def)
qed

lemma feed_literal:
  assumes "ds_inBlock p" "ds_inLiteral p" "l = [] \<or> hd l = CHR '' '' \<or> hd l = CHR 0x09"
  shows "dnstap_feed l p = (Inr [], p)"
  using assms by (auto simp: dnstap_feed_def)

lemma run_literal:
  assumes "ds_inBlock p" "ds_inLiteral p" "list_all (\<lambda>l. l = [] \<or> hd l = CHR '' '' \<or> hd l = CHR 0x09) ls"
  shows "dnstap_run ls p = (replicate (length ls) (Inr []), p)"
  using assms(3) by (induction ls) (auto simp: feed_literal [OF assms(1,2)])

lemma dnstap_run_append:
  "dnstap_run xs p = (rs, q) \<Longrightarrow> dnstap_run ys q = (rs', q') \<Longrightarrow> dnstap_run (xs @ ys) p = (rs @ rs', q')"
proof (induction xs arbitrary: p rs)
  case (Cons x xs)
  then show ?case by (auto simp: Let_def split: prod.splits)
qed simp

lemma in_doc_updates [simp]:
  "in_doc (p\<lparr>ds_kind := v\<rparr>) = in_doc p" "in_doc (p\<lparr>ds_section := x\<rparr>) = in_doc p"
  "in_doc (p\<lparr>ds_eventTime := t\<rparr>) = in_doc p" "in_doc (p\<lparr>ds_clientIP := v\<rparr>) = in_doc p"
  "in_doc (p\<lparr>ds_clientPort := n\<rparr>) = in_doc p" "in_doc (p\<lparr>ds_qname := v\<rparr>) = in_doc p"
  "in_doc (p\<lparr>ds_qtype := v\<rparr>) = in_doc p" "in_doc (p\<lparr>ds_answers := as\<rparr>) = in_doc p" "in_doc (dnstap_begin p)"
  by (simp_all add: in_doc_def dnstap_begin_def)

lemma line_message: "in_doc p \<Longrightarrow> dnstap_feed ''message:'' p = (Inr [], p)"
  by (simp add: dnstap_feed_def in_doc_def hasPrefix_def)

lemma line_type:
  "in_doc p \<Longrightarrow> is_word k \<Longrightarrow> dnstap_feed (''  type: '' @ k) p = (Inr [], p\<lparr>ds_section := sectNone, ds_kind := k\<rparr>)"
  by (subst feed_field [where key = "''type''" and val = "CHR '' '' # k"])
    (simp_all add: trimLeftIf_def hasPrefix_def trimSpace_word dnstap_field_def)

lemma line_stamp:
  assumes "in_doc p" "is_word s" "parseInLocation RFC3339 s UTC = Some t"
  shows "dnstap_feed (''  response_time: !!timestamp '' @ s) p = (Inr [], p\<lparr>ds_section := sectNone, ds_eventTime := t\<rparr>)"
proof -
  have ts: "trimSpace (''!!timestamp '' @ s) = ''!!timestamp '' @ s"
    by (rule trimSpace_joinWith_id) (use is_wordD [OF assms(2)] in \<open>simp_all add: isSpace_def\<close>)
  have "dnstap_feed (''  response_time: !!timestamp '' @ s) p
      = (Inr [], dnstap_field ''response_time'' (trimSpace (CHR '' '' # ''!!timestamp '' @ s)) (p\<lparr>ds_section := sectNone\<rparr>))"
    by (rule feed_field) (use assms(1) in \<open>simp_all add: trimLeftIf_def hasPrefix_def\<close>)
  also have "trimSpace (CHR '' '' # ''!!timestamp '' @ s) = ''!!timestamp'' @ CHR '' '' # s"
    unfolding trimSpace_blank ts by simp
  also have "dnstap_field ''response_time'' (''!!timestamp'' @ CHR '' '' # s) (p\<lparr>ds_section := sectNone\<rparr>)
      = p\<lparr>ds_section := sectNone, ds_eventTime := t\<rparr>"
    using assms(2,3) by (simp add: dnstap_field_def parseTimestamp_def trimPrefix_def hasPrefix_def trimSpace_word Let_def)
  finally show ?thesis .
qed

lemma line_address:
  assumes "in_doc p" "is_word a"
  shows "dnstap_feed (''  query_address: '' @ dquote # a @ [dquote]) p
    = (Inr [], p\<lparr>ds_section := sectNone, ds_clientIP := a\<rparr>)"
proof -
  have ts: "trimSpace (dquote # a @ [dquote]) = dquote # a @ [dquote]"
    by (rule trimSpace_joinWith_id) (simp_all add: isSpace_def)
  have "trimIf (\<lambda>c. c = dquote) (dquote # a @ [dquote]) = a"
    by (rule trimIf_quoted) (use is_wordD [OF assms(2)] in simp_all)
  then show ?thesis
    by (subst feed_field [where key = "''query_address''" and val = "CHR '' '' # dquote # a @ [dquote]"])
      (use assms(1) ts in \<open>simp_all add: trimLeftIf_def hasPrefix_def dnstap_field_def\<close>)
qed

lemma line_port:
  "in_doc p \<Longrightarrow> is_word n \<Longrightarrow> dnstap_feed (''  query_port: '' @ n) p
    = (Inr [], p\<lparr>ds_section := sectNone, ds_clientPort := parsePort n\<rparr>)"
  by (subst feed_field [where key = "''query_port''" and val = "CHR '' '' # n"])
    (simp_all add: trimLeftIf_def hasPrefix_def trimSpace_word dnstap_field_def)

lemma lines_headers:
  "in_doc p \<Longrightarrow> dnstap_feed ''  response_message_data:'' p = (Inr [], p\<lparr>ds_section := sectNone\<rparr>)"
  "in_doc p \<Longrightarrow> dnstap_feed ''    QUESTION_SECTION:'' p = (Inr [], p\<lparr>ds_section := sectQuestion\<rparr>)"
  "in_doc p \<Longrightarrow> dnstap_feed ''    ANSWER_SECTION:'' p = (Inr [], p\<lparr>ds_section := sectAnswer\<rparr>)"
  "in_doc p \<Longrightarrow> dnstap_feed ''  response_message: |'' p = (Inr [], p\<lparr>ds_section := sectNone, ds_inLiteral := True\<rparr>)"
  by (simp_all add: dnstap_feed_def in_doc_def trimLeftIf_def hasPrefix_def splitDnstapField_def dnstap_field_def
      trimSpace_def trimIf_def trimRightIf_def isSpace_def)

subsection \<open>Items\<close>

lemma line_question:
  assumes "in_doc p" "ds_section p = sectQuestion" "is_word q" "is_word ty"
  shows "dnstap_feed (item_line (q @ CHR '' '' # ''IN'' @ CHR '' '' # ty)) p
    = (Inr [], p\<lparr>ds_qname := normalizeHost q, ds_qtype := ty\<rparr>)"
proof -
  let ?s = "q @ CHR '' '' # ''IN'' @ CHR '' '' # ty"
  have "GoStrings.fields (joinWith (CHR '' '') [q, ''IN'', ty]) = [q, ''IN'', ty]"
    by (rule fields_words) (use assms in \<open>simp add: is_word_def isSpace_def\<close>)
  then have f: "GoStrings.fields ?s = [q, ''IN'', ty]" by simp
  have "dnstap_feed (item_line ?s) p = (Inr [], dnstap_item ?s p)"
    by (rule feed_item) (use assms is_wordD [OF assms(3)] is_wordD [OF assms(4)] in simp_all)
  then show ?thesis using assms(2) by (simp add: dnstap_item_def parseQuestion_def f [simplified] Let_def)
qed

definition rr_answer :: "string \<times> string \<times> string \<times> string \<Rightarrow> dnstapAnswer option" where
  "rr_answer = (\<lambda>(owner, ttl, typ, rdata).
     if typ \<noteq> ''A'' \<and> typ \<noteq> ''AAAA'' then None
     else case (parseUint 32 ttl, parseIP rdata) of
         (Some n, Some ip) \<Rightarrow>
           if typ = ''A'' \<and> To4 ip = None \<or> typ = ''AAAA'' \<and> To4 ip \<noteq> None then None
           else Some \<lparr>da_qtype = typ, da_answerIP = rdata, da_ttl = word_of_int n\<rparr>
       | _ \<Rightarrow> None)"

lemma line_answer:
  assumes "in_doc p" "ds_section p = sectAnswer" "list_all is_word [owner, ttl, typ, rdata]"
  shows "dnstap_feed (item_line (rr_text (owner, ttl, typ, rdata))) p
    = (Inr [], p\<lparr>ds_answers := ds_answers p @ List.map_filter rr_answer [(owner, ttl, typ, rdata)]\<rparr>)"
proof -
  let ?s = "rr_text (owner, ttl, typ, rdata)"
  have "GoStrings.fields (joinWith (CHR '' '') [owner, ttl, ''IN'', typ, rdata]) = [owner, ttl, ''IN'', typ, rdata]"
    by (rule fields_words) (use assms(3) in \<open>simp add: is_word_def isSpace_def\<close>)
  then have f: "GoStrings.fields ?s = [owner, ttl, ''IN'', typ, rdata]" by (simp add: rr_text_def)
  have w: "is_word owner" "is_word rdata" using assms(3) by simp_all
  have "dnstap_feed (item_line ?s) p = (Inr [], dnstap_item ?s p)"
    by (rule feed_item) (use assms(1) is_wordD [OF w(1)] is_wordD [OF w(2)] in \<open>simp_all add: rr_text_def\<close>)
  then show ?thesis
    using assms(2) by (simp add: dnstap_item_def parseAnswer_def f Let_def rr_answer_def map_filter_simps split: option.split)
qed

lemma run_answers:
  assumes "list_all (\<lambda>(owner, ttl, typ, rdata). list_all is_word [owner, ttl, typ, rdata]) rrs"
    "in_doc p" "ds_section p = sectAnswer"
  shows "dnstap_run (map (item_line \<circ> rr_text) rrs) p
    = (replicate (length rrs) (Inr []), p\<lparr>ds_answers := ds_answers p @ List.map_filter rr_answer rrs\<rparr>)"
  using assms
proof (induction rrs arbitrary: p)
  case Nil
  then show ?case by (simp add: map_filter_simps)
next
  case (Cons rr rrs)
  obtain owner ttl ty rdata where rr: "rr = (owner, ttl, ty, rdata)" by (metis prod_cases4)
  let ?q = "p\<lparr>ds_answers := ds_answers p @ List.map_filter rr_answer [rr]\<rparr>"
  have l: "dnstap_feed (item_line (rr_text rr)) p = (Inr [], ?q)"
    unfolding rr using Cons.prems rr by (intro line_answer) simp_all
  have "dnstap_run (map (item_line \<circ> rr_text) rrs) ?q
      = (replicate (length rrs) (Inr []), ?q\<lparr>ds_answers := ds_answers ?q @ List.map_filter rr_answer rrs\<rparr>)"
    by (rule Cons.IH) (use Cons.prems in simp_all)
  moreover have "List.map_filter rr_answer (rr # rrs) = List.map_filter rr_answer [rr] @ List.map_filter rr_answer rrs"
    by (simp add: map_filter_simps split: option.split)
  ultimately show ?case
    using l by (simp add: comp_def)
qed

lemma rr_answer_event:
  assumes "ds_eventTime p = t" "ds_clientIP p = dd_addr d" "ds_clientPort p = parsePort (dd_port d)"
    "ds_qname p = normalizeHost (dd_qname d)"
  shows "map_option (answer_event p) (rr_answer rr) = doc_answer t d rr"
  using assms by (cases rr) (auto simp: rr_answer_def doc_answer_def dns_answer_def answer_event_def
      eval_nat_numeral split: option.split)

lemma map_map_filter: "map g (List.map_filter f xs) = List.map_filter (\<lambda>x. map_option g (f x)) xs"
  by (induction xs) (auto simp: map_filter_simps split: option.split)

text \<open>The state when the terminator arrives.\<close>

definition doc_state :: "time \<Rightarrow> dnstapDoc \<Rightarrow> dnstapDNSParser \<Rightarrow> bool" where
  "doc_state t d p \<longleftrightarrow> ds_inBlock p \<and> ds_kind p = dd_kind d \<and> ds_eventTime p = t \<and> ds_clientIP p = dd_addr d
     \<and> ds_clientPort p = parsePort (dd_port d) \<and> ds_qname p = normalizeHost (dd_qname d)
     \<and> ds_qtype p = dd_qtype d \<and> ds_answers p = List.map_filter rr_answer (dd_rrs d)"

lemma doc_state_events:
  assumes "doc_state t d p" "t \<noteq> zeroTime" "dd_addr d \<noteq> ''''" "normalizeHost (dd_qname d) \<noteq> ''''"
  shows "dnstap_events p = Inr (doc_events t d)"
proof -
  have st: "ds_eventTime p = t" "ds_clientIP p = dd_addr d" "ds_clientPort p = parsePort (dd_port d)"
    "ds_qname p = normalizeHost (dd_qname d)" using assms(1) by (simp_all add: doc_state_def)
  have "map (answer_event p) (ds_answers p) = List.map_filter (doc_answer t d) (dd_rrs d)"
    using assms(1) by (simp add: doc_state_def map_map_filter rr_answer_event [OF st])
  moreover have "question_event p = no_answer t (dd_addr d) (parsePort (dd_port d)) (normalizeHost (dd_qname d)) (dd_qtype d)"
    using assms(1) by (simp add: doc_state_def question_event_def)
  ultimately show ?thesis
    using assms by (auto simp: dnstap_events_def doc_events_def doc_state_def Let_def)
qed

lemma run_doc:
  assumes "doc_ok d" "parseInLocation RFC3339 (dd_stamp d) UTC = Some t"
  shows "\<exists>p'. dnstap_run (doc_lines d) (dnstap_begin p) = (replicate (length (doc_lines d)) (Inr []), p')
           \<and> doc_state t d p'"
proof -
  let ?b = "dnstap_begin p"
  let ?s1 = "?b\<lparr>ds_section := sectNone, ds_kind := dd_kind d\<rparr>"
  let ?s2 = "?s1\<lparr>ds_section := sectNone, ds_eventTime := t\<rparr>"
  let ?s3 = "?s2\<lparr>ds_section := sectNone, ds_clientIP := dd_addr d\<rparr>"
  let ?s4 = "?s3\<lparr>ds_section := sectNone, ds_clientPort := parsePort (dd_port d)\<rparr>"
  let ?s5 = "?s4\<lparr>ds_section := sectNone\<rparr>\<lparr>ds_section := sectQuestion\<rparr>"
  let ?s6 = "?s5\<lparr>ds_qname := normalizeHost (dd_qname d), ds_qtype := dd_qtype d\<rparr>\<lparr>ds_section := sectAnswer\<rparr>"
  let ?s7 = "?s6\<lparr>ds_answers := ds_answers ?s6 @ List.map_filter rr_answer (dd_rrs d)\<rparr>"
  let ?s8 = "?s7\<lparr>ds_section := sectNone, ds_inLiteral := True\<rparr>"
  let ?head = "[''message:'', ''  type: '' @ dd_kind d, ''  response_time: !!timestamp '' @ dd_stamp d,
      ''  query_address: '' @ dquote # dd_addr d @ [dquote], ''  query_port: '' @ dd_port d,
      ''  response_message_data:'', ''    QUESTION_SECTION:'',
      item_line (dd_qname d @ CHR '' '' # ''IN'' @ CHR '' '' # dd_qtype d), ''    ANSWER_SECTION:'']"
  have w: "is_word (dd_kind d)" "is_word (dd_stamp d)" "is_word (dd_addr d)" "is_word (dd_port d)"
    "is_word (dd_qname d)" "is_word (dd_qtype d)"
    and rrs: "list_all (\<lambda>(owner, ttl, typ, rdata). list_all is_word [owner, ttl, typ, rdata]) (dd_rrs d)"
    and lit: "list_all (\<lambda>l. l = [] \<or> hd l = CHR '' '' \<or> hd l = CHR 0x09) (dd_literal d)"
    using assms(1) by (simp_all add: doc_ok_def)
  have l: "dnstap_feed ''message:'' ?b = (Inr [], ?b)"
    "dnstap_feed (''  type: '' @ dd_kind d) ?b = (Inr [], ?s1)"
    "dnstap_feed (''  response_time: !!timestamp '' @ dd_stamp d) ?s1 = (Inr [], ?s2)"
    "dnstap_feed (''  query_address: '' @ dquote # dd_addr d @ [dquote]) ?s2 = (Inr [], ?s3)"
    "dnstap_feed (''  query_port: '' @ dd_port d) ?s3 = (Inr [], ?s4)"
    "dnstap_feed ''  response_message_data:'' ?s4 = (Inr [], ?s4\<lparr>ds_section := sectNone\<rparr>)"
    "dnstap_feed ''    QUESTION_SECTION:'' (?s4\<lparr>ds_section := sectNone\<rparr>) = (Inr [], ?s5)"
    "dnstap_feed (item_line (dd_qname d @ CHR '' '' # ''IN'' @ CHR '' '' # dd_qtype d)) ?s5
       = (Inr [], ?s5\<lparr>ds_qname := normalizeHost (dd_qname d), ds_qtype := dd_qtype d\<rparr>)"
    "dnstap_feed ''    ANSWER_SECTION:'' (?s5\<lparr>ds_qname := normalizeHost (dd_qname d), ds_qtype := dd_qtype d\<rparr>)
       = (Inr [], ?s6)"
    by (rule line_message line_type line_stamp line_address line_port lines_headers line_question; use w assms(2) in simp)+
  have h: "dnstap_run ?head ?b = (replicate 9 (Inr []), ?s6)"
    by (simp only: dnstap_run.simps l Let_def prod.case) (simp add: eval_nat_numeral)
  have a: "dnstap_run (map (item_line \<circ> rr_text) (dd_rrs d)) ?s6 = (replicate (length (dd_rrs d)) (Inr []), ?s7)"
    by (rule run_answers [OF rrs]) simp_all
  have m: "dnstap_feed ''  response_message: |'' ?s7 = (Inr [], ?s8)"
    by (rule lines_headers) simp
  have j: "dnstap_run (dd_literal d) ?s8 = (replicate (length (dd_literal d)) (Inr []), ?s8)"
    by (rule run_literal [OF _ _ lit]) (simp_all add: dnstap_begin_def)
  have "dnstap_run [''  response_message: |''] ?s7 = ([Inr []], ?s8)"
    by (simp only: dnstap_run.simps m Let_def prod.case)
  note dnstap_run_append [OF h dnstap_run_append [OF a dnstap_run_append [OF this j]]]
  then have "dnstap_run (doc_lines d) ?b
      = (replicate 9 (Inr []) @ replicate (length (dd_rrs d)) (Inr []) @ [Inr []]
          @ replicate (length (dd_literal d)) (Inr []), ?s8)"
    by (simp only: doc_lines_def)
  also have "replicate 9 (Inr []) @ replicate (length (dd_rrs d)) (Inr []) @ [Inr []]
      @ replicate (length (dd_literal d)) (Inr []) = replicate (length (doc_lines d)) (Inr [])"
    by (rule nth_equalityI) (auto simp: doc_lines_def nth_append nth_Cons split: nat.split)
  finally have "dnstap_run (doc_lines d) ?b = (replicate (length (doc_lines d)) (Inr []), ?s8)" .
  moreover have "doc_state t d ?s8"
    by (simp add: doc_state_def dnstap_begin_def)
  ultimately show ?thesis by blast
qed

text \<open>C32. A document survives the round trip through its text. Whatever state the parser is in when
  the document starts (even in the middle of a document that was cut off), the lines of a well-formed
  document give, on its terminator and not before, exactly the events the document says: for a query
  its question, for a response one event per address record with that record's TTL, exactly as the
  BIND parser reads the record, or the bare question when there is none; the lines of the literal
  block, which repeat the records, count for nothing. The only other thing reported is what the
  document before it had pending.\<close>

theorem dnstap_roundtrip:
  assumes "doc_ok d" and "parseInLocation RFC3339 (dd_stamp d) UTC = Some t" "t \<noteq> zeroTime"
    and "normalizeHost (dd_qname d) \<noteq> ''''"
  shows "fst (dnstap_run (''type: MESSAGE'' # doc_lines d @ [''---'']) p)
    = fst (dnstap_feed ''type: MESSAGE'' p) # replicate (length (doc_lines d)) (Inr []) @ [Inr (doc_events t d)]"
proof -
  obtain q where q: "dnstap_run (doc_lines d) (dnstap_begin p) = (replicate (length (doc_lines d)) (Inr []), q)"
    "doc_state t d q" using run_doc [OF assms(1,2)] by blast
  have b: "snd (dnstap_feed ''type: MESSAGE'' p) = dnstap_begin p"
    by (rule feed_type) (simp add: hasPrefix_def)
  have "dd_addr d \<noteq> ''''" using assms(1) by (auto simp: doc_ok_def is_word_def)
  then have e: "dnstap_run [''---''] q = ([Inr (doc_events t d)], dnstap_reset q)"
    using q(2) doc_state_events [OF q(2) assms(3) _ assms(4)] by (simp add: feed_dashes doc_state_def)
  have "dnstap_run (doc_lines d @ [''---'']) (dnstap_begin p)
      = (replicate (length (doc_lines d)) (Inr []) @ [Inr (doc_events t d)], dnstap_reset q)"
    by (rule dnstap_run_append [OF q(1) e])
  then show ?thesis unfolding dnstap_run_Cons b by simp
qed

definition ex_doc :: dnstapDoc where
  "ex_doc = \<lparr>dd_kind = ''CLIENT_RESPONSE'', dd_stamp = ''2026-07-15T08:42:54Z'', dd_addr = ''10.0.0.7'',
     dd_port = ''42201'', dd_qname = ''Google.com.'', dd_qtype = ''A'',
     dd_rrs = [(''google.com.'', ''49'', ''A'', ''142.250.66.110''), (''g.'', ''5'', ''CNAME'', ''h.'')],
     dd_literal = [''    google.com. 1 IN A 9.9.9.9'']\<rparr>"

lemma dnstap_roundtrip_witness:
  "last (fst (dnstap_run (''type: MESSAGE'' # doc_lines ex_doc @ [''---'']) newDnstapDNSParser))
     = Inr [\<lparr>dn_EventTime = 1784104974 * second, dn_ClientIP = ''10.0.0.7'', dn_ClientPort = 42201,
         dn_QName = ''google.com'', dn_QType = ''A'', dn_AnswerIP = ''142.250.66.110'', dn_TTL = 49,
         dn_TTLUnknown = False\<rparr>]"
proof -
  have ok: "doc_ok ex_doc" by code_simp
  have t: "parseInLocation RFC3339 (dd_stamp ex_doc) UTC = Some (1784104974 * second)" by code_simp
  have z: "1784104974 * second \<noteq> zeroTime" by (simp add: zeroTime_def)
  have n: "normalizeHost (dd_qname ex_doc) \<noteq> ''''" by code_simp
  have "doc_events (1784104974 * second) ex_doc = [\<lparr>dn_EventTime = 1784104974 * second,
      dn_ClientIP = ''10.0.0.7'', dn_ClientPort = 42201, dn_QName = ''google.com'', dn_QType = ''A'',
      dn_AnswerIP = ''142.250.66.110'', dn_TTL = 49, dn_TTLUnknown = False\<rparr>]" by code_simp
  with dnstap_roundtrip [OF ok t z n, of newDnstapDNSParser] show ?thesis by simp
qed

lemma dnstap_block_contract_witness:
  "\<exists>e. fst (dnstap_feed ''---'' (snd (dnstap_run (''type: MESSAGE'' # doc_lines ex_doc) newDnstapDNSParser))) = Inr [e]
     \<and> terminator ''---'' \<and> dns_event_ok e \<and> dn_EventTime e \<noteq> zeroTime"
proof -
  let ?p = "snd (dnstap_run (''type: MESSAGE'' # doc_lines ex_doc) newDnstapDNSParser)"
  let ?e = "\<lparr>dn_EventTime = 1784104974 * second, dn_ClientIP = ''10.0.0.7'', dn_ClientPort = 42201,
         dn_QName = ''google.com'', dn_QType = ''A'', dn_AnswerIP = ''142.250.66.110'', dn_TTL = 49,
         dn_TTLUnknown = False\<rparr>"
  have f: "fst (dnstap_feed ''---'' ?p) = Inr [?e]" by code_simp
  then have f': "dnstap_feed ''---'' ?p = (Inr [?e], snd (dnstap_feed ''---'' ?p))" by (metis prod.collapse)
  from dnstap_block_contract [OF f'] f show ?thesis by (intro exI [of _ ?e]) auto
qed

end
