(* ===== verification/Dedup.thy ===== *)
theory Dedup
  imports Flow
begin

unbundle bit_operations_syntax

text \<open>
  \<open>dedup.go\<close>: the sharded memory of recently seen flows. The expirable LRU is a third-party
  package: a record of its three operations over an arbitrary type, and \<open>lru_ok\<close> is what its
  documentation says of them. Looking a key up and recording it are two calls of the library, so
  concurrent workers interleave between them; the machine of the theory takes them as separate
  steps.
\<close>

record dedupKey =
  dk_SrcAddr :: string
  dk_DstAddr :: string
  dk_SrcPort :: uint32
  dk_DstPort :: uint32
  dk_Proto :: string
  dk_Exporter :: string
  dk_Type :: string

record 'l lru =
  lru_New :: "int \<Rightarrow> duration \<Rightarrow> 'l"
  lru_Get :: "time \<Rightarrow> dedupKey \<Rightarrow> 'l \<Rightarrow> bool \<times> 'l"
  lru_Add :: "time \<Rightarrow> dedupKey \<Rightarrow> 'l \<Rightarrow> 'l"

record 'l DedupStore =
  ds_shards :: "'l list"

abbreviation dedupShards :: nat where "dedupShards \<equiv> 16"

text \<open>Both are at least 1, so the truncating division of Go and \<open>div\<close> agree under the \<open>max\<close>.\<close>

definition perShard :: "int \<Rightarrow> int" where
  "perShard sz = max (sz div 16) 1"

definition NewDedupStore :: "'l lru \<Rightarrow> int \<Rightarrow> duration \<Rightarrow> 'l DedupStore" where
  "NewDedupStore L sz ttl = \<lparr>ds_shards = map (\<lambda>i. lru_New L (perShard sz) ttl) [0..<dedupShards]\<rparr>"

section \<open>Hashing\<close>

definition prime64 :: uint64 where "prime64 = 1099511628211"
definition offset64 :: uint64 where "offset64 = 14695981039346656037"

fun fnvString :: "uint64 \<Rightarrow> string \<Rightarrow> uint64" where
  "fnvString h [] = h"
| "fnvString h (c # s) = fnvString ((h XOR of_char c) * prime64) s"

definition shardIndex :: "dedupKey \<Rightarrow> uint64" where
  "shardIndex k =
     (let h = offset64;
          h = fnvString h (dk_SrcAddr k);
          h = fnvString h (dk_DstAddr k);
          h = fnvString h (dk_Proto k);
          h = fnvString h (dk_Exporter k);
          h = fnvString h (dk_Type k);
          h = (h XOR ucast (dk_SrcPort k)) * prime64;
          h = (h XOR ucast (dk_DstPort k)) * prime64
      in h)"

definition flow_key :: "FlowMessage \<Rightarrow> dedupKey" where
  "flow_key f =
     \<lparr>dk_SrcAddr = fm_SrcAddr f, dk_DstAddr = fm_DstAddr f, dk_SrcPort = fm_SrcPort f,
      dk_DstPort = fm_DstPort f, dk_Proto = fm_Proto f, dk_Exporter = fm_SamplerAddress f,
      dk_Type = fm_Type f\<rparr>"

definition shard_of :: "dedupKey \<Rightarrow> nat" where
  "shard_of k = unat (shardIndex k AND 15)"

section \<open>Operations\<close>

definition dedup_probe :: "'l lru \<Rightarrow> time \<Rightarrow> FlowMessage \<Rightarrow> 'l DedupStore \<Rightarrow> bool \<times> 'l DedupStore" where
  "dedup_probe L now flow d =
     (let key = flow_key flow; i = shard_of key;
          (ok, l) = lru_Get L now key (ds_shards d ! i)
      in (ok, d\<lparr>ds_shards := (ds_shards d)[i := l]\<rparr>))"

definition dedup_record :: "'l lru \<Rightarrow> time \<Rightarrow> FlowMessage \<Rightarrow> 'l DedupStore \<Rightarrow> 'l DedupStore" where
  "dedup_record L now flow d =
     (let key = flow_key flow; i = shard_of key
      in d\<lparr>ds_shards := (ds_shards d)[i := lru_Add L now key (ds_shards d ! i)]\<rparr>)"

text \<open>\<open>IsDuplicate\<close>; the library reads its clock in each call.\<close>

definition IsDuplicate :: "'l lru \<Rightarrow> time \<Rightarrow> time \<Rightarrow> FlowMessage \<Rightarrow> 'l DedupStore \<Rightarrow> bool \<times> 'l DedupStore" where
  "IsDuplicate L t1 t2 flow d =
     (let (ok, d1) = dedup_probe L t1 flow d
      in if ok then (True, d1) else (False, dedup_record L t2 flow d1))"

section \<open>What the library promises\<close>

datatype lru_op = LGet time dedupKey | LAdd time dedupKey

primrec lru_step :: "'l lru \<Rightarrow> lru_op \<Rightarrow> 'l \<Rightarrow> 'l" where
  "lru_step L (LGet t k) l = snd (lru_Get L t k l)"
| "lru_step L (LAdd t k) l = lru_Add L t k l"

primrec lru_time :: "lru_op \<Rightarrow> time" where
  "lru_time (LGet t k) = t"
| "lru_time (LAdd t k) = t"

text \<open>
  A cache of size \<open>n\<close> whose entries expire \<open>ttl\<close> after they were added: a key is found only if it
  was added, and not longer ago than that; and, on a clock that does not go back, it is found if it
  was added not longer ago than that and fewer than \<open>n\<close> operations were made since, none of them
  adding it again.
\<close>

definition lru_ok :: "'l lru \<Rightarrow> int \<Rightarrow> duration \<Rightarrow> bool" where
  "lru_ok L n ttl \<longleftrightarrow>
     (\<forall>ops now k. fst (lru_Get L now k (fold (lru_step L) ops (lru_New L n ttl))) \<longrightarrow>
        (\<exists>t. LAdd t k \<in> set ops \<and> now \<le> t + ttl))
     \<and> (\<forall>ops1 t k ops2 now. sorted (map lru_time (ops1 @ LAdd t k # ops2) @ [now]) \<and> now \<le> t + ttl \<and> int (length ops2) < n \<and> (\<forall>t'. LAdd t' k \<notin> set ops2) \<longrightarrow>
        fst (lru_Get L now k (fold (lru_step L) (ops1 @ LAdd t k # ops2) (lru_New L n ttl))))"

section \<open>The store as a machine\<close>

datatype dedup_op = Probe time FlowMessage | Record time FlowMessage

primrec dedup_step :: "'l lru \<Rightarrow> dedup_op \<Rightarrow> 'l DedupStore \<Rightarrow> 'l DedupStore" where
  "dedup_step L (Probe t f) d = snd (dedup_probe L t f d)"
| "dedup_step L (Record t f) d = dedup_record L t f d"

primrec op_lru :: "dedup_op \<Rightarrow> lru_op" where
  "op_lru (Probe t f) = LGet t (flow_key f)"
| "op_lru (Record t f) = LAdd t (flow_key f)"

primrec op_time :: "dedup_op \<Rightarrow> time" where
  "op_time (Probe t f) = t"
| "op_time (Record t f) = t"

lemma lru_time_op: "lru_time (op_lru p) = op_time p"
  by (cases p) simp_all

primrec op_shard :: "dedup_op \<Rightarrow> nat" where
  "op_shard (Probe t f) = shard_of (flow_key f)"
| "op_shard (Record t f) = shard_of (flow_key f)"

lemma shard_of_lt: "shard_of k < dedupShards"
proof -
  have "shardIndex k AND 15 \<le> 15" by (rule word_and_le1)
  then have "unat (shardIndex k AND 15) \<le> unat (15 :: uint64)" by (simp only: word_le_nat_alt)
  then show ?thesis by (simp add: shard_of_def)
qed

text \<open>Each shard sees exactly the operations on its own keys, in order.\<close>

lemma dedup_step_shards:
  "ds_shards (dedup_step L p d) = (ds_shards d)[op_shard p := lru_step L (op_lru p) (ds_shards d ! op_shard p)]"
  by (cases p) (simp_all add: dedup_probe_def dedup_record_def Let_def split: prod.splits)

lemma op_shard_lt: "op_shard p < dedupShards"
  by (cases p) (simp_all only: op_shard.simps shard_of_lt)

lemma shards_run:
  "i < dedupShards \<Longrightarrow>
     ds_shards (fold (dedup_step L) ops (NewDedupStore L sz ttl)) ! i
       = fold (lru_step L) (map op_lru (filter (\<lambda>p. op_shard p = i) ops)) (lru_New L (perShard sz) ttl)
   \<and> length (ds_shards (fold (dedup_step L) ops (NewDedupStore L sz ttl))) = dedupShards"
proof (induction ops rule: rev_induct)
  case Nil
  then show ?case by (simp add: NewDedupStore_def)
next
  case (snoc p ops)
  then show ?case using op_shard_lt [of p] by (simp add: dedup_step_shards nth_list_update)
qed

lemma probe_shard:
  "fst (dedup_probe L now f d) = fst (lru_Get L now (flow_key f) (ds_shards d ! shard_of (flow_key f)))"
  by (simp add: dedup_probe_def Let_def split: prod.splits)

lemma add_op: "op_lru p = LAdd t k \<longleftrightarrow> (\<exists>g. p = Record t g \<and> flow_key g = k)"
  by (cases p) auto

lemma add_in_ops: "LAdd t k \<in> set (map op_lru ops) \<longleftrightarrow> (\<exists>g. Record t g \<in> set ops \<and> flow_key g = k)"
proof (induction ops)
  case (Cons p ops)
  have "LAdd t k \<in> set (map op_lru (p # ops)) \<longleftrightarrow> op_lru p = LAdd t k \<or> LAdd t k \<in> set (map op_lru ops)"
    by (metis list.set_intros(1) list.simps(9) set_ConsD list.set_intros(2))
  also have "\<dots> \<longleftrightarrow> (\<exists>g. p = Record t g \<and> flow_key g = k) \<or> (\<exists>g. Record t g \<in> set ops \<and> flow_key g = k)"
    unfolding add_op Cons.IH ..
  also have "\<dots> \<longleftrightarrow> (\<exists>g. Record t g \<in> set (p # ops) \<and> flow_key g = k)"
    unfolding list.set(2) insert_iff by metis
  finally show ?case .
qed simp

lemma sorted_mine:
  "sorted (map op_time ops @ [now]) \<Longrightarrow> sorted (map lru_time (map op_lru (filter P ops)) @ [now])"
  by (auto simp: sorted_append lru_time_op comp_def intro: sorted_filter)

lemma dedup_probe_run:
  "fst (dedup_probe L now f (fold (dedup_step L) ops (NewDedupStore L sz ttl)))
     = fst (lru_Get L now (flow_key f)
         (fold (lru_step L) (map op_lru (filter (\<lambda>p. op_shard p = shard_of (flow_key f)) ops))
           (lru_New L (perShard sz) ttl)))"
  unfolding probe_shard shards_run [OF shard_of_lt, THEN conjunct1] ..

lemma dedup_only_repeats:
  assumes "lru_ok L (perShard sz) ttl"
    and "fst (dedup_probe L now f (fold (dedup_step L) ops (NewDedupStore L sz ttl)))"
  shows "\<exists>t g. Record t g \<in> set ops \<and> flow_key g = flow_key f \<and> now \<le> t + ttl"
proof -
  let ?os = "map op_lru (filter (\<lambda>p. op_shard p = shard_of (flow_key f)) ops)"
  have "\<exists>t. LAdd t (flow_key f) \<in> set ?os \<and> now \<le> t + ttl"
    using assms(1) [unfolded lru_ok_def, THEN conjunct1, rule_format, OF assms(2) [unfolded dedup_probe_run]] .
  then show ?thesis unfolding add_in_ops by auto
qed

lemma dedup_drops_repeats:
  assumes ok: "lru_ok L (perShard sz) ttl"
    and clock: "sorted (map op_time (ops1 @ Record t g # ops2) @ [now])"
    and g: "flow_key g = flow_key f" "now \<le> t + ttl"
    and last: "\<forall>t' g'. Record t' g' \<in> set ops2 \<longrightarrow> flow_key g' \<noteq> flow_key f"
    and room: "int (length (filter (\<lambda>p. op_shard p = shard_of (flow_key f)) ops2)) < perShard sz"
  shows "fst (dedup_probe L now f (fold (dedup_step L) (ops1 @ Record t g # ops2) (NewDedupStore L sz ttl)))"
proof -
  let ?k = "flow_key f" let ?F = "\<lambda>os. map op_lru (filter (\<lambda>p. op_shard p = shard_of ?k) os)"
  have split: "?F (ops1 @ Record t g # ops2) = ?F ops1 @ LAdd t ?k # ?F ops2" using g(1) by simp
  have "\<forall>t'. LAdd t' ?k \<notin> set (?F ops2)" using last unfolding add_in_ops by auto
  moreover have "sorted (map lru_time (?F ops1 @ LAdd t ?k # ?F ops2) @ [now])"
    using sorted_mine [OF clock, of "\<lambda>p. op_shard p = shard_of ?k"] unfolding split .
  moreover have "int (length (?F ops2)) < perShard sz" using room by simp
  ultimately show ?thesis
    unfolding dedup_probe_run split
    using ok [unfolded lru_ok_def, THEN conjunct2, rule_format, of "?F ops1" t ?k "?F ops2" now] g(2)
    by simp
qed

text \<open>C19. The memory only drops repeats, and drops them. Whatever the interleaving of the workers'
  look-ups and recordings, a flow is reported as a duplicate only if a flow with the same 7-tuple was
  recorded, not longer ago than the TTL, so no flow is dropped at first sight. Conversely a flow whose
  7-tuple was last recorded not longer ago than the TTL is reported, on a clock that does not go back,
  as long as fewer operations have reached its shard since than the shard has room for. The cache
  library is assumed to do what it documents.\<close>

theorem dedup_window:
  fixes L :: "'l lru" and ops now f sz ttl
  defines "hit \<equiv> \<lambda>os. fst (dedup_probe L now f (fold (dedup_step L) os (NewDedupStore L sz ttl)))"
  assumes "lru_ok L (perShard sz) ttl"
  shows "(hit ops \<longrightarrow> (\<exists>t g. Record t g \<in> set ops \<and> flow_key g = flow_key f \<and> now \<le> t + ttl))
     \<and> (\<forall>ops1 t g ops2. sorted (map op_time (ops1 @ Record t g # ops2) @ [now])
           \<and> flow_key g = flow_key f \<and> now \<le> t + ttl
           \<and> (\<forall>t' g'. Record t' g' \<in> set ops2 \<longrightarrow> flow_key g' \<noteq> flow_key f)
           \<and> int (length (filter (\<lambda>p. op_shard p = shard_of (flow_key f)) ops2)) < perShard sz
         \<longrightarrow> hit (ops1 @ Record t g # ops2))"
  unfolding hit_def
proof (intro conjI impI allI, goal_cases)
  case 1
  then show ?case by (rule dedup_only_repeats [OF assms(2)])
next
  case (2 ops1 t g ops2)
  then show ?case by (elim conjE) (rule dedup_drops_repeats [OF assms(2)])
qed

section \<open>An instance of the library\<close>

text \<open>The cache as the list of its entries, most recent first, with their times.\<close>

type_synonym list_cache = "int \<times> duration \<times> (dedupKey \<times> time) list"

definition cache_get :: "time \<Rightarrow> dedupKey \<Rightarrow> list_cache \<Rightarrow> bool \<times> list_cache" where
  "cache_get now k c = (case c of (n, ttl, l) \<Rightarrow>
     (case map_of l k of
        None \<Rightarrow> (False, c)
      | Some t \<Rightarrow> if t + ttl < now then (False, c)
                  else (True, (n, ttl, (k, t) # filter (\<lambda>e. fst e \<noteq> k) l))))"

definition cache_add :: "time \<Rightarrow> dedupKey \<Rightarrow> list_cache \<Rightarrow> list_cache" where
  "cache_add now k c = (case c of (n, ttl, l) \<Rightarrow>
     (n, ttl, take (nat n) ((k, now) # filter (\<lambda>e. fst e \<noteq> k) l)))"

definition list_lru :: "list_cache lru" where
  "list_lru = \<lparr>lru_New = (\<lambda>n ttl. (n, ttl, [])), lru_Get = cache_get, lru_Add = cache_add\<rparr>"

lemma list_lru_simps [simp]:
  "lru_New list_lru n ttl = (n, ttl, [])" "lru_Get list_lru = cache_get" "lru_Add list_lru = cache_add"
  by (simp_all add: list_lru_def)

lemma cache_sound:
  "\<exists>l. fold (lru_step list_lru) ops (n, ttl, []) = (n, ttl, l) \<and> (\<forall>k t. (k, t) \<in> set l \<longrightarrow> LAdd t k \<in> set ops)"
proof (induction ops rule: rev_induct)
  case Nil
  show ?case by simp
next
  case (snoc p ops)
  then obtain l where l: "fold (lru_step list_lru) ops (n, ttl, []) = (n, ttl, l)"
    "\<And>k t. (k, t) \<in> set l \<Longrightarrow> LAdd t k \<in> set ops" by blast
  show ?case
  proof (cases p)
    case (LGet t k)
    then show ?thesis using l by (auto simp: cache_get_def dest: map_of_SomeD split: option.splits)
  next
    case (LAdd t k)
    then show ?thesis using l by (auto simp: cache_add_def dest!: in_set_takeD)
  qed
qed

text \<open>A key stays within reach of the front: each operation moves it back by one place at most.\<close>

definition near :: "nat \<Rightarrow> dedupKey \<Rightarrow> time \<Rightarrow> (dedupKey \<times> time) list \<Rightarrow> bool" where
  "near m k t l \<longleftrightarrow> (\<exists>xs ys. l = xs @ (k, t) # ys \<and> length xs \<le> m \<and> k \<notin> fst ` set xs)"

lemma near_map_of: "near m k t l \<Longrightarrow> map_of l k = Some t"
  by (auto simp: near_def map_add_def map_of_eq_None_iff [THEN iffD2])

lemma near_front:
  assumes "near m k t l" "q \<noteq> k"
  shows "near (Suc m) k t ((q, u) # filter (\<lambda>e. fst e \<noteq> q) l)"
proof -
  let ?P = "\<lambda>e. fst e \<noteq> q"
  obtain xs ys where l: "l = xs @ (k, t) # ys" "length xs \<le> m" "k \<notin> fst ` set xs"
    using assms(1) by (auto simp: near_def)
  have "(q, u) # filter ?P l = ((q, u) # filter ?P xs) @ (k, t) # filter ?P ys" using l(1) assms(2) by simp
  moreover have "length ((q, u) # filter ?P xs) \<le> Suc m"
    using order.trans [OF length_filter_le l(2), of ?P] by simp
  moreover have "k \<notin> fst ` set ((q, u) # filter ?P xs)" using l(3) assms(2) by auto
  ultimately show ?thesis unfolding near_def by blast
qed

lemma near_take:
  assumes "near m k t l" "m < n"
  shows "near m k t (take n l)"
proof -
  obtain xs ys where l: "l = xs @ (k, t) # ys" "length xs \<le> m" "k \<notin> fst ` set xs"
    using assms(1) by (auto simp: near_def)
  obtain j where j: "n - length xs = Suc j" using l(2) assms(2) by (cases "n - length xs") auto
  have "take n l = xs @ (k, t) # take j ys" using l(1,2) assms(2) j by simp
  then show ?thesis unfolding near_def using l(2,3) by blast
qed

lemma near_here: "near m k t ((k, t) # l)"
  unfolding near_def by (rule exI [of _ "[]"]) simp

lemma near_mono: "near m k t l \<Longrightarrow> m \<le> m' \<Longrightarrow> near m' k t l"
  by (auto simp: near_def)

lemma cache_keeps:
  "near 0 k t l \<Longrightarrow> int (length ops) < n \<Longrightarrow> \<forall>t'. LAdd t' k \<notin> set ops \<Longrightarrow>
     \<exists>l'. fold (lru_step list_lru) ops (n, ttl, l) = (n, ttl, l') \<and> near (length ops) k t l'"
proof (induction ops rule: rev_induct)
  case Nil
  then show ?case by simp
next
  case (snoc p ops)
  then obtain l' where l': "fold (lru_step list_lru) ops (n, ttl, l) = (n, ttl, l')" "near (length ops) k t l'"
    by auto
  show ?case
  proof (cases p)
    case (LGet u q)
    show ?thesis
    proof (cases "q = k")
      case True
      then show ?thesis using l' LGet near_map_of [OF l'(2)] near_here near_mono [OF l'(2), of "Suc (length ops)"]
        by (auto simp: cache_get_def)
    next
      case False
      then show ?thesis using l' LGet near_front [OF l'(2) False] near_mono [OF l'(2), of "Suc (length ops)"]
        by (auto simp: cache_get_def split: option.splits)
    qed
  next
    case (LAdd u q)
    then have "q \<noteq> k" using snoc.prems(3) by auto
    then show ?thesis using l' LAdd near_take [OF near_front [OF l'(2), of q u], of "nat n"] snoc.prems(2)
      by (auto simp: cache_add_def)
  qed
qed

lemma list_lru_ok:
  assumes "0 < n"
  shows "lru_ok list_lru n ttl"
proof -
  have "\<exists>t. LAdd t k \<in> set ops \<and> now \<le> t + ttl"
    if h: "fst (cache_get now k (fold (lru_step list_lru) ops (n, ttl, [])))" for ops now k
  proof -
    obtain l where l: "fold (lru_step list_lru) ops (n, ttl, []) = (n, ttl, l)"
      "\<forall>k t. (k, t) \<in> set l \<longrightarrow> LAdd t k \<in> set ops" using cache_sound by blast
    obtain t where t: "map_of l k = Some t" "now \<le> t + ttl"
      using h l(1) by (auto simp: cache_get_def split: option.splits if_splits)
    have "LAdd t k \<in> set ops" using l(2) map_of_SomeD [OF t(1)] by blast
    then show ?thesis using t(2) by blast
  qed
  moreover have "fst (cache_get now k (fold (lru_step list_lru) (ops1 @ LAdd t k # ops2) (n, ttl, [])))"
    if h: "now \<le> t + ttl" "int (length ops2) < n" "\<forall>t'. LAdd t' k \<notin> set ops2" for ops1 t k ops2 now
  proof -
    obtain l where l: "fold (lru_step list_lru) ops1 (n, ttl, []) = (n, ttl, l)" using cache_sound by blast
    let ?l = "take (nat n) ((k, t) # filter (\<lambda>e. fst e \<noteq> k) l)"
    have "near 0 k t ?l"
      using assms by (cases "nat n") (simp_all add: near_here)
    then obtain l' where "fold (lru_step list_lru) ops2 (n, ttl, ?l) = (n, ttl, l')" "near (length ops2) k t l'"
      using cache_keeps h(2,3) by blast
    then show ?thesis using l h(1) near_map_of by (simp add: cache_add_def cache_get_def)
  qed
  ultimately show ?thesis unfolding lru_ok_def by simp
qed

definition flow_a :: FlowMessage where
  "flow_a = noFlow\<lparr>fm_SrcAddr := ''10.0.0.1'', fm_DstAddr := ''9.9.9.9''\<rparr>"

theorem dedup_window_witness:
  "fst (dedup_probe list_lru 5 flow_a
     (fold (dedup_step list_lru) ([Probe 0 flow_a] @ Record 1 flow_a # []) (NewDedupStore list_lru 160 10)))"
  using dedup_window [of list_lru 160 10 5 flow_a, OF list_lru_ok, THEN conjunct2, rule_format,
    of "[Probe 0 flow_a]" 1 flow_a "[]"]
  by (simp add: perShard_def)

end
