(* ===== verification/GoScanner.thy ===== *)
theory GoScanner
  imports GoStrings
begin

text \<open>
  \<open>bufio.Scanner\<close> with its default split function. A reader is the bytes it delivers and the
  error it ends with, if any. A line that does not fit the buffer stops the scan with
  \<open>ErrTooLong\<close>; the lines before it have been delivered.
\<close>

datatype scan_error = ErrTooLong | ReadError string

definition dropCR :: "string \<Rightarrow> string" where
  "dropCR l = (if l \<noteq> [] \<and> last l = CHR 0x0D then butlast l else l)"

text \<open>The buffer holds \<open>mx\<close> bytes, the newline included; at the end of the input the rest is a line.\<close>

function scanLines :: "int \<Rightarrow> string \<Rightarrow> string list \<times> bool" where
  "scanLines mx data =
     (if data = [] then ([], False)
      else case indexByte data (CHR 0x0A) of
        None \<Rightarrow> if int (length data) < mx then ([dropCR data], False) else ([], True)
      | Some i \<Rightarrow>
          if int i < mx then
            (let (ts, long) = scanLines mx (drop (Suc i) data) in (dropCR (take i data) # ts, long))
          else ([], True))"
  by pat_completeness auto
termination
  by (relation "measure (length \<circ> snd)") (auto dest: indexByte_Some)

declare scanLines.simps [simp del]

text \<open>All tokens, and what \<open>Err()\<close> returns after the loop.\<close>

definition scanner :: "int \<Rightarrow> string \<Rightarrow> string option \<Rightarrow> string list \<times> scan_error option" where
  "scanner mx data rerr =
     (let (ts, long) = scanLines mx data
      in (ts, if long then Some ErrTooLong else map_option ReadError rerr))"

definition maxScanTokenSize :: int where "maxScanTokenSize = 65536"

lemma scanLines_Nil [simp]: "scanLines mx [] = ([], False)"
  by (simp add: scanLines.simps)

lemma scanLines_line:
  "CHR 0x0A \<notin> set l \<Longrightarrow> int (length l) < mx \<Longrightarrow>
     scanLines mx (l @ CHR 0x0A # rest) =
       (dropCR l # fst (scanLines mx rest), snd (scanLines mx rest))"
  by (subst scanLines.simps) (simp add: indexByte_append split: prod.splits)

lemma scanLines_last:
  "CHR 0x0A \<notin> set l \<Longrightarrow> l \<noteq> [] \<Longrightarrow> int (length l) < mx \<Longrightarrow> scanLines mx l = ([dropCR l], False)"
  by (subst scanLines.simps) (simp add: indexByte_None [THEN iffD2])

lemma scanLines_long:
  "CHR 0x0A \<notin> set l \<Longrightarrow> mx \<le> int (length l) \<Longrightarrow> l \<noteq> [] \<Longrightarrow> scanLines mx (l @ CHR 0x0A # rest) = ([], True)"
  by (subst scanLines.simps) (simp add: indexByte_append)

text \<open>Lines that fit come back as they are.\<close>

definition unlines :: "string list \<Rightarrow> string" where
  "unlines ls = concat (map (\<lambda>l. l @ [CHR 0x0A]) ls)"

lemma dropCR_id: "l = [] \<or> last l \<noteq> CHR 0x0D \<Longrightarrow> dropCR l = l"
  by (auto simp: dropCR_def)

lemma scanLines_unlines:
  "(\<And>l. l \<in> set ls \<Longrightarrow> CHR 0x0A \<notin> set l \<and> int (length l) < mx \<and> (l = [] \<or> last l \<noteq> CHR 0x0D)) \<Longrightarrow>
     scanLines mx (unlines ls) = (ls, False)"
proof (induction ls)
  case Nil
  show ?case by (simp add: unlines_def)
next
  case (Cons l ls)
  then have "scanLines mx (l @ CHR 0x0A # unlines ls) = (dropCR l # ls, False)"
    by (subst scanLines_line) simp_all
  moreover have "dropCR l = l" using Cons.prems [of l] by (intro dropCR_id) simp
  ultimately show ?case by (simp add: unlines_def)
qed

end
