(* ===== verification/Threat.thy ===== *)
theory Threat
  imports GoScanner
begin

text \<open>
  \<open>threat.go\<close>: the block list of known botnet addresses, downloaded over HTTP. The HTTP client is
  a library: a request is an error or a response, which is a status code, the bytes of the body
  and the error the body ends with, if any.
\<close>

record http_response =
  resp_StatusCode :: int
  resp_Body :: string
  resp_err :: "string option"

record ThreatStore =
  th_ips :: "string \<rightharpoonup> string"

text \<open>\<open>strings.SplitN\<close> with a single-byte separator and \<open>n\<close> at least 1.\<close>

fun splitN :: "nat \<Rightarrow> string \<Rightarrow> char \<Rightarrow> string list" where
  "splitN 0 s c = []"
| "splitN (Suc 0) s c = [s]"
| "splitN (Suc (Suc n)) s c =
     (case indexByte s c of None \<Rightarrow> [s] | Some i \<Rightarrow> take i s # splitN (Suc n) (drop (Suc i) s) c)"

text \<open>
  The body of the loop: the pair put in the map, or nothing. The guard on an empty split of the
  code cannot fire, a split has a first field.
\<close>

definition threat_line :: "string \<Rightarrow> (string \<times> string) option" where
  "threat_line text =
     (let line = trimSpace text
      in if line = '''' \<or> hasPrefix line ''#'' then None
         else let fs = splitN 5 line (CHR '','');
                  ip = trimSpace (fs ! 0);
                  label = (if 4 \<le> length fs then trimSpace (fs ! 3) else ''botnet_c2'')
              in Some (ip, label))"

definition threat_add :: "string \<Rightarrow> (string \<rightharpoonup> string) \<Rightarrow> (string \<rightharpoonup> string)" where
  "threat_add text ips = (case threat_line text of None \<Rightarrow> ips | Some (ip, label) \<Rightarrow> ips(ip \<mapsto> label))"

text \<open>\<open>refresh\<close>: the flag is the absence of an error.\<close>

definition threat_refresh :: "http_response option \<Rightarrow> ThreatStore \<Rightarrow> bool \<times> ThreatStore" where
  "threat_refresh got s =
     (case got of
        None \<Rightarrow> (False, s)
      | Some resp \<Rightarrow>
          let (tokens, err) = scanner maxScanTokenSize (resp_Body resp) (resp_err resp);
              ips = fold threat_add tokens Map.empty
          in (case err of Some e \<Rightarrow> (False, s) | None \<Rightarrow> (True, s\<lparr>th_ips := ips\<rparr>)))"

definition NewThreatStore :: "http_response option \<Rightarrow> ThreatStore option" where
  "NewThreatStore got =
     (case threat_refresh got \<lparr>th_ips = Map.empty\<rparr> of (ok, s) \<Rightarrow> if ok then Some s else None)"

definition threat_Lookup :: "ThreatStore \<Rightarrow> string \<Rightarrow> bool \<times> string" where
  "threat_Lookup s ip = (case th_ips s ip of None \<Rightarrow> (False, '''') | Some label \<Rightarrow> (True, label))"

section \<open>What a refresh loads\<close>

lemma splitN_nonempty: "splitN (Suc n) s c \<noteq> []"
  by (cases n) (auto split: option.splits)

lemma threat_fold: "fold threat_add ls m = m ++ map_of (rev (List.map_filter threat_line ls))"
proof (induction ls arbitrary: m)
  case Nil
  show ?case by simp
next
  case (Cons l ls)
  then show ?case by (simp add: threat_add_def split: option.splits)
qed

text \<open>The last row of an address counts, and nothing of the table before the refresh does.\<close>

lemma threat_refresh_loads:
  "threat_refresh (Some \<lparr>resp_StatusCode = st, resp_Body = body, resp_err = None\<rparr>) s = (True, s') \<Longrightarrow>
     th_ips s' = map_of (rev (List.map_filter threat_line (fst (scanLines maxScanTokenSize body))))"
  by (auto simp: threat_refresh_def scanner_def threat_fold split: prod.splits if_splits)

lemma threat_refresh_fails: "threat_refresh got s = (False, s') \<Longrightarrow> s' = s"
  by (auto simp: threat_refresh_def Let_def split: option.splits prod.splits)

text \<open>An over-long line or a body cut short keeps the whole table that is there.\<close>

lemma threat_partial_keeps:
  "resp_err resp \<noteq> None \<or> snd (scanLines maxScanTokenSize (resp_Body resp)) \<Longrightarrow>
     threat_refresh (Some resp) s = (False, s)"
  by (auto simp: threat_refresh_def scanner_def split: prod.splits)

text \<open>The status code is not looked at, so an error page of the server empties the table.\<close>

theorem threat_error_page_replaces_feed:
  "let r = threat_refresh (Some \<lparr>resp_StatusCode = 503, resp_Body = ''Service Unavailable'', resp_err = None\<rparr>)
             \<lparr>th_ips = [''185.220.101.1'' \<mapsto> ''Dridex'']\<rparr>
   in fst r \<and> threat_Lookup (snd r) ''185.220.101.1'' = (False, '''')
      \<and> threat_Lookup (snd r) ''Service Unavailable'' = (True, ''botnet_c2'')"
  by code_simp

end
