(* ===== verification/Wiring.thy ===== *)
theory Wiring
  imports IdentityScan TcpdumpLog DnstapLog
begin

text \<open>
  The start-up decisions of \<open>main.go\<close>, \<open>identity_config.go\<close> and \<open>logtz.go\<close>: which stores are
  built, with which tokenizer, time zones and parsers. The environment is a function (\<open>os.Getenv\<close>
  gives the empty text for an unset variable); the zone database, \<open>time.ParseDuration\<close> and the
  contents of the key file are arguments.
\<close>

type_synonym environ = "string \<Rightarrow> string"

section \<open>Reading the environment\<close>

definition getenv :: "environ \<Rightarrow> string \<Rightarrow> string \<Rightarrow> string" where
  "getenv env key fallback = (let v = env key in if v \<noteq> '''' then v else fallback)"

definition intEnv :: "environ \<Rightarrow> string \<Rightarrow> int \<Rightarrow> int" where
  "intEnv env key fallback =
     (let v = env key in
      if v \<noteq> '''' then (case atoi v of Some n \<Rightarrow> n | None \<Rightarrow> fallback) else fallback)"

definition parseBool :: "string \<Rightarrow> bool option" where
  "parseBool s =
     (if s \<in> {''1'', ''t'', ''T'', ''TRUE'', ''true'', ''True''} then Some True
      else if s \<in> {''0'', ''f'', ''F'', ''FALSE'', ''false'', ''False''} then Some False
      else None)"

definition boolEnv :: "environ \<Rightarrow> string \<Rightarrow> bool \<Rightarrow> bool" where
  "boolEnv env key fallback =
     (let v = env key in
      if v \<noteq> '''' then (case parseBool v of Some b \<Rightarrow> b | None \<Rightarrow> fallback) else fallback)"

definition durEnv :: "(string \<Rightarrow> duration option) \<Rightarrow> environ \<Rightarrow> string \<Rightarrow> duration \<Rightarrow> duration" where
  "durEnv parseDuration env key fallback =
     (let v = env key in
      if v \<noteq> '''' then (case parseDuration v of Some d \<Rightarrow> d | None \<Rightarrow> fallback) else fallback)"

definition logLocation :: "(string \<Rightarrow> location option) \<Rightarrow> environ \<Rightarrow> string \<Rightarrow> location option" where
  "logLocation zones env sourceEnv =
     (let name = env sourceEnv;
          name = (if name = '''' then getenv env ''LOG_TZ'' ''UTC'' else name)
      in zones name)"

section \<open>The identity decision\<close>

datatype identityMode = identityOff | identityHashed | identityPassthrough

definition decideIdentityMode :: "bool \<Rightarrow> bool \<Rightarrow> bool \<Rightarrow> identityMode \<times> bool" where
  "decideIdentityMode upstreamAnon keyFileSet anyLogDir =
     (if \<not> anyLogDir then (identityOff, False)
      else if upstreamAnon \<and> keyFileSet then (identityOff, True)
      else if upstreamAnon then (identityPassthrough, False)
      else if keyFileSet then (identityHashed, False)
      else (identityOff, False))"

definition absPathForLog :: "(string \<Rightarrow> string option) \<Rightarrow> string \<Rightarrow> string" where
  "absPathForLog filepathAbs dir =
     (if dir = '''' then ''(unset)''
      else case filepathAbs dir of Some p \<Rightarrow> p | None \<Rightarrow> dir)"

text \<open>What a wiring block does: it ends the process, leaves the store off, or builds one.\<close>

datatype 'a wiring = Exit | Disabled | Enabled 'a

text \<open>\<open>conn\<close> says whether the ClickHouse writer is up; \<open>readFile\<close> is \<open>os.ReadFile\<close>.\<close>

definition identity_wiring ::
  "(string \<Rightarrow> string \<Rightarrow> byte list) \<Rightarrow> (string \<Rightarrow> duration option) \<Rightarrow> (string \<Rightarrow> location option)
     \<Rightarrow> (string \<Rightarrow> string option) \<Rightarrow> environ \<Rightarrow> bool \<Rightarrow> IdentityStore wiring" where
  "identity_wiring hmac parseDuration zones readFile env conn =
     (let keyFile = env ''IDENTITY_TOKEN_KEY_FILE'';
          nps = env ''IDENTITY_NPS_DIR'';
          dhcp = env ''IDENTITY_DHCP_DIR'';
          upstreamAnon = (env ''IDENTITY_UPSTREAM_ANONYMIZED'' = ''true'');
          (mode, fatal) = decideIdentityMode upstreamAnon (keyFile \<noteq> '''') (nps \<noteq> '''' \<or> dhcp \<noteq> '''')
      in if fatal then Exit
         else if mode = identityOff then Disabled
         else
           let tok = (case mode of
                 identityPassthrough \<Rightarrow> Some UpstreamPseudonymTokenizer
               | identityHashed \<Rightarrow> (case NewTokenizer (readFile keyFile) of
                     Inl terr \<Rightarrow> None
                   | Inr t \<Rightarrow> Some (saltedTokenizer hmac t))
               | identityOff \<Rightarrow> None)
           in case tok of
               None \<Rightarrow> Disabled
             | Some tok \<Rightarrow>
                 (case logLocation zones env ''NPS_LOG_TZ'' of
                    None \<Rightarrow> Exit
                  | Some npsL \<Rightarrow> (case logLocation zones env ''DHCP_LOG_TZ'' of
                      None \<Rightarrow> Exit
                    | Some dhcpL \<Rightarrow> Enabled
                        (NewIdentityStore tok nps dhcp (Some npsL) (Some dhcpL)
                          (durEnv parseDuration env ''IDENTITY_MAX_LEASE'' (24 * hour))
                          (durEnv parseDuration env ''IDENTITY_MAX_SESSION'' (24 * hour)) conn))))"

section \<open>The DNS decision\<close>

text \<open>The store and the parser of its files.\<close>

datatype dns_built =
    BindDNS "unit DNSStore" "unit dns_parser"
  | TcpdumpDNS "tcpdumpDNSParser DNSStore" "tcpdumpDNSParser dns_parser"
  | DnstapDNS "dnstapDNSParser DNSStore" "dnstapDNSParser dns_parser"

definition dateLayout :: "chunk list" where
  "dateLayout = [Year4, Lit ''-'', Month2, Lit ''-'', Day2]"

definition dns_wiring ::
  "(string \<Rightarrow> location option) \<Rightarrow> time \<Rightarrow> environ \<Rightarrow> bool \<Rightarrow> dns_built wiring" where
  "dns_wiring zones now env conn =
     (let dir = env ''DNS_LOG_DIR'' in
      if dir = '''' then Disabled
      else case logLocation zones env ''DNS_LOG_TZ'' of
        None \<Rightarrow> Exit
      | Some loc \<Rightarrow>
          let format = getenv env ''DNS_LOG_FORMAT'' ''bind''
          in if format = ''bind'' then Enabled (BindDNS (NewDNSStore dir (Some loc) conn) (bind_parser loc))
             else if format = ''tcpdump'' then
               (let resolverIP = env ''DNS_TCPDUMP_RESOLVER_IP'';
                    ds = env ''DNS_TCPDUMP_DATE'';
                    baseDate = (if ds \<noteq> '''' then parseInLocation dateLayout ds loc else Some now)
                in case baseDate of
                    None \<Rightarrow> Exit
                  | Some d \<Rightarrow> Enabled (TcpdumpDNS (NewDNSStore dir (Some loc) conn)
                                        (tcpdump_parser loc d resolverIP)))
             else if format = ''dnstap'' then Enabled (DnstapDNS (NewDNSStore dir (Some loc) conn) dnstap_parser)
             else Exit)"

section \<open>The duplicate memory and the worker pool\<close>

text \<open>The multiplication of the TTL wraps at 64 bits.\<close>

definition dedup_config :: "environ \<Rightarrow> int \<times> duration" where
  "dedup_config env =
     (intEnv env ''DEDUP_SIZE'' 1000000,
      sint (word_of_int (intEnv env ''DEDUP_TTL_SECONDS'' 60 * second) :: 64 word))"

definition dedup_enabled :: "environ \<Rightarrow> bool" where
  "dedup_enabled env \<longleftrightarrow> \<not> boolEnv env ''DEDUP_DISABLE'' False"

text \<open>
  The number of workers and the capacity of the channel that feeds them. \<open>make(chan []byte, n)\<close>
  panics on a negative size (and on one beyond the address space, which is left out here); with no
  worker nothing is ever received.
\<close>

definition worker_pool :: "environ \<Rightarrow> int \<Rightarrow> (nat \<times> nat) option" where
  "worker_pool env numCPU =
     (let n = intEnv env ''ENRICH_WORKERS'' numCPU
      in if n * 100 < 0 then None else Some (nat n, nat (n * 100)))"

lemma worker_pool_unchecked:
  "worker_pool ((\<lambda>_. '''')(''ENRICH_WORKERS'' := ''0'')) 8 = Some (0, 0)"
  "worker_pool ((\<lambda>_. '''')(''ENRICH_WORKERS'' := ''-1'')) 8 = None"
  by code_simp+

section \<open>What the decisions promise\<close>

lemma identity_mode_table:
  "snd (decideIdentityMode u k d) \<longleftrightarrow> u \<and> k \<and> d"
  "fst (decideIdentityMode u k d) = identityPassthrough \<longleftrightarrow> u \<and> \<not> k \<and> d"
  "fst (decideIdentityMode u k d) = identityHashed \<longleftrightarrow> \<not> u \<and> k \<and> d"
  by (simp_all add: decideIdentityMode_def)

text \<open>A zone that does not load, an unknown format and a bad date end the process.\<close>

lemma dns_wiring_fails_loud:
  assumes "env ''DNS_LOG_DIR'' \<noteq> ''''"
    and "logLocation zones env ''DNS_LOG_TZ'' = None
       \<or> getenv env ''DNS_LOG_FORMAT'' ''bind'' \<notin> {''bind'', ''tcpdump'', ''dnstap''}"
  shows "dns_wiring zones now env conn = Exit"
  using assms by (auto simp: dns_wiring_def Let_def split: option.splits)

lemma logLocation_order:
  "env src \<noteq> '''' \<Longrightarrow> logLocation zones env src = zones (env src)"
  "env src = '''' \<Longrightarrow> env ''LOG_TZ'' \<noteq> '''' \<Longrightarrow> logLocation zones env src = zones (env ''LOG_TZ'')"
  "env src = '''' \<Longrightarrow> env ''LOG_TZ'' = '''' \<Longrightarrow> logLocation zones env src = zones ''UTC''"
  by (simp_all add: logLocation_def getenv_def)

text \<open>Without the flag a store is built only on a key, and with the tokenizer of that key.\<close>

lemma identity_wiring_salted:
  assumes flag: "env ''IDENTITY_UPSTREAM_ANONYMIZED'' \<noteq> ''true''"
    and on: "identity_wiring hmac parseDuration zones readFile env conn = Enabled s"
  obtains data npsL dhcpL lease session where
    "env ''IDENTITY_TOKEN_KEY_FILE'' \<noteq> ''''" "readFile (env ''IDENTITY_TOKEN_KEY_FILE'') = Some data"
    "trimSpace data \<noteq> ''''"
    "s = NewIdentityStore (saltedTokenizer hmac \<lparr>tok_key = trimSpace data\<rparr>) (env ''IDENTITY_NPS_DIR'')
           (env ''IDENTITY_DHCP_DIR'') npsL dhcpL lease session conn"
proof -
  have mode: "env ''IDENTITY_TOKEN_KEY_FILE'' \<noteq> ''''"
    and tok: "\<exists>t. NewTokenizer (readFile (env ''IDENTITY_TOKEN_KEY_FILE'')) = Inr t
      \<and> (\<exists>npsL dhcpL lease session. s = NewIdentityStore (saltedTokenizer hmac t) (env ''IDENTITY_NPS_DIR'')
           (env ''IDENTITY_DHCP_DIR'') npsL dhcpL lease session conn)"
    using on flag
    by (auto simp: identity_wiring_def decideIdentityMode_def Let_def split: if_splits sum.splits option.splits)
  then obtain t npsL dhcpL lease session where
    t: "NewTokenizer (readFile (env ''IDENTITY_TOKEN_KEY_FILE'')) = Inr t"
      "s = NewIdentityStore (saltedTokenizer hmac t) (env ''IDENTITY_NPS_DIR'')
           (env ''IDENTITY_DHCP_DIR'') npsL dhcpL lease session conn" by blast
  obtain data where "readFile (env ''IDENTITY_TOKEN_KEY_FILE'') = Some data" "trimSpace data \<noteq> ''''"
    "t = \<lparr>tok_key = trimSpace data\<rparr>"
    using t(1) by (auto simp: NewTokenizer_def Let_def split: option.splits if_splits)
  with that mode t(2) show thesis by blast
qed

end
