(* ===== verification/FailClosed.thy ===== *)
theory FailClosed
  imports Wiring
begin

text \<open>
  The fail-closed rule of the identity subsystem, from the environment to the rows of ClickHouse:
  unless the pass-through flag is set, every token the store ever holds, answers or hands to the
  driver is a digest keyed with the contents of the key file.
\<close>

section \<open>Reachable stores\<close>

text \<open>
  What happens to a store after the wiring built it, one call of \<open>scan\<close> or \<open>FinalFlush\<close> at a
  time, so that the state each flush starts from is a state of the relation.
\<close>

inductive identity_reach ::
  "xml_decoder \<Rightarrow> ('c, DhcpEvent) sender \<Rightarrow> ('c, RadiusEvent) sender \<Rightarrow> IdentityStore \<Rightarrow> IdentityStore \<Rightarrow> bool"
  for xmlFields sendD sendR s0 where
  built: "identity_reach xmlFields sendD sendR s0 s0"
| scanned: "identity_reach xmlFields sendD sendR s0 s \<Longrightarrow>
    identity_reach xmlFields sendD sendR s0 (scanDir xmlFields dir source listing s)"
| flushed: "identity_reach xmlFields sendD sendR s0 s \<Longrightarrow> id_flush sendD sendR (s, c) = (s', c') \<Longrightarrow>
    identity_reach xmlFields sendD sendR s0 s'"
| swept: "identity_reach xmlFields sendD sendR s0 s \<Longrightarrow> identity_reach xmlFields sendD sendR s0 (evictExpired now s)"

lemma scan_reach: "identity_reach xmlFields sendD sendR s0 s \<Longrightarrow>
    identity_reach xmlFields sendD sendR s0 (fst (scan xmlFields sendD sendR listNPS listDHCP now (s, c)))"
proof -
  let ?s1 = "scanDir xmlFields (npsDir s) sourceNPS listNPS s"
  let ?s2 = "scanDir xmlFields (dhcpDir ?s1) sourceDHCP listDHCP ?s1"
  obtain s3 c3 where f: "id_flush sendD sendR (?s2, c) = (s3, c3)" by fastforce
  assume "identity_reach xmlFields sendD sendR s0 s"
  then have "identity_reach xmlFields sendD sendR s0 (evictExpired now s3)"
    by (intro swept flushed [OF _ f] scanned)
  then show ?thesis by (simp add: scan_def f)
qed

section \<open>Keyed stores\<close>

definition keyed :: "(string \<Rightarrow> string \<Rightarrow> byte list) \<Rightarrow> string \<Rightarrow> string \<Rightarrow> bool" where
  "keyed hmac key x \<longleftrightarrow> x = '''' \<or> (\<exists>n. n \<noteq> '''' \<and> x = take 32 (hexEncode (hmac key n)))"

definition keyed_rows :: "(string \<Rightarrow> string \<Rightarrow> byte list) \<Rightarrow> string \<Rightarrow> chEventWriter \<Rightarrow> bool" where
  "keyed_rows hmac key w \<longleftrightarrow>
     (\<forall>e\<in>set (ew_dhcp w). keyed hmac key (dh_MACToken e) \<and> keyed hmac key (dh_HostToken e))
     \<and> (\<forall>e\<in>set (ew_radius w). keyed hmac key (ra_MACToken e) \<and> keyed hmac key (ra_UserToken e))"

definition keyed_store :: "(string \<Rightarrow> string \<Rightarrow> byte list) \<Rightarrow> string \<Rightarrow> IdentityStore \<Rightarrow> bool" where
  "keyed_store hmac key s \<longleftrightarrow>
     is_tok s = saltedTokenizer hmac \<lparr>tok_key = key\<rparr>
     \<and> (\<forall>b\<in>ran (ipState s). keyed hmac key (ib_macToken b))
     \<and> (\<forall>b\<in>ran (macState s). keyed hmac key (mb_userToken b))
     \<and> (\<forall>w\<in>set_option (is_ch s). keyed_rows hmac key w)"

lemma salted_keyed:
  "keyed hmac key (MACToken (saltedTokenizer hmac \<lparr>tok_key = key\<rparr>) x)"
  "keyed hmac key (UserToken (saltedTokenizer hmac \<lparr>tok_key = key\<rparr>) x)"
  "keyed hmac key (HostToken (saltedTokenizer hmac \<lparr>tok_key = key\<rparr>) x)"
  by (auto simp: saltedTokenizer_def Tokenizer_MACToken_def Tokenizer_UserToken_def Tokenizer_HostToken_def
      token_def keyed_def Let_def)

lemma applyDHCP_token:
  "ipState (applyDHCP e s) k = Some b \<Longrightarrow> ipState s k = Some b \<or> ib_macToken b = dh_MACToken e"
  by (auto simp: applyDHCP_def Let_def split: option.splits if_splits)

lemma applyRADIUS_token:
  "macState (applyRADIUS e s) k = Some b \<Longrightarrow> macState s k = Some b \<or> mb_userToken b = ra_UserToken e"
  by (auto simp: applyRADIUS_def Let_def split: option.splits if_splits)

lemma apply_tok [simp]: "is_tok (applyDHCP e s) = is_tok s" "is_tok (applyRADIUS f s) = is_tok s"
  by (simp_all add: applyDHCP_def applyRADIUS_def Let_def split: option.split)

lemma keyed_applyDHCP:
  assumes "keyed_store hmac key s" "keyed hmac key (dh_MACToken e)"
  shows "keyed_store hmac key (applyDHCP e s)"
proof -
  have "keyed hmac key (ib_macToken b)" if "b \<in> ran (ipState (applyDHCP e s))" for b
    using that assms applyDHCP_token unfolding keyed_store_def ran_def by fastforce
  then show ?thesis using assms(1) by (simp add: keyed_store_def)
qed

lemma keyed_applyRADIUS:
  assumes "keyed_store hmac key s" "keyed hmac key (ra_UserToken e)"
  shows "keyed_store hmac key (applyRADIUS e s)"
proof -
  have "keyed hmac key (mb_userToken b)" if "b \<in> ran (macState (applyRADIUS e s))" for b
    using that assms applyRADIUS_token unfolding keyed_store_def ran_def by fastforce
  then show ?thesis using assms(1) by (simp add: keyed_store_def)
qed

lemma ran_evict: "(\<forall>b\<in>ran m. P b) \<Longrightarrow> \<forall>b\<in>ran (evict_map d now m). P b"
  by (auto simp: ran_def evict_map_Some)

lemma keyed_counters [simp]:
  "keyed_store hmac key (s\<lparr>identityEventsParsed := f\<rparr>) = keyed_store hmac key s"
  "keyed_store hmac key (s\<lparr>identityParseErrors := f\<rparr>) = keyed_store hmac key s"
  "keyed_store hmac key (s\<lparr>is_offsets := offs\<rparr>) = keyed_store hmac key s"
  by (simp_all add: keyed_store_def)

lemma keyed_ch:
  "keyed_store hmac key s \<Longrightarrow> keyed_rows hmac key w \<Longrightarrow> keyed_store hmac key (s\<lparr>is_ch := Some w\<rparr>)"
  by (simp add: keyed_store_def)

lemma keyed_store_rows: "keyed_store hmac key s \<Longrightarrow> is_ch s = Some w \<Longrightarrow> keyed_rows hmac key w"
  by (simp add: keyed_store_def)

lemma keyed_ingestDHCP:
  assumes "keyed_store hmac key s"
  shows "keyed_store hmac key (ingestDHCP line s)"
proof (cases "parseDHCPLine line (is_tok s) (dhcpLoc s)")
  case (Inl e)
  then show ?thesis using assms by (simp add: ingestDHCP_def)
next
  case (Inr r)
  show ?thesis
  proof (cases r)
    case None
    then show ?thesis using assms Inr by (simp add: ingestDHCP_def)
  next
    case (Some ev)
    let ?s = "applyDHCP ev (s\<lparr>identityEventsParsed := bump sourceDHCP (identityEventsParsed s)\<rparr>)"
    have tok: "is_tok s = saltedTokenizer hmac \<lparr>tok_key = key\<rparr>" using assms by (simp add: keyed_store_def)
    have ev: "keyed hmac key (dh_MACToken ev)" "keyed hmac key (dh_HostToken ev)"
      using parseDHCPLine_event(4,5) [OF Inr [unfolded Some]] salted_keyed unfolding tok by auto
    have s1: "keyed_store hmac key ?s" using keyed_applyDHCP ev(1) assms by simp
    have "keyed_rows hmac key (addDHCP ev w)" if "is_ch ?s = Some w" for w
      using keyed_store_rows [OF s1 that] ev by (auto simp: keyed_rows_def)
    then show ?thesis
      using Inr Some s1 by (auto simp: ingestDHCP_def Let_def keyed_ch split: option.splits)
  qed
qed

lemma keyed_ingestNPS:
  assumes "keyed_store hmac key s"
  shows "keyed_store hmac key (ingestNPS xmlFields line s)"
proof (cases "parseNPSLine xmlFields line (is_tok s) (npsLoc s)")
  case (Inl e)
  then show ?thesis using assms by (simp add: ingestNPS_def)
next
  case (Inr r)
  show ?thesis
  proof (cases r)
    case None
    then show ?thesis using assms Inr by (simp add: ingestNPS_def)
  next
    case (Some ev)
    let ?s = "applyRADIUS ev (s\<lparr>identityEventsParsed := bump sourceNPS (identityEventsParsed s)\<rparr>)"
    have tok: "is_tok s = saltedTokenizer hmac \<lparr>tok_key = key\<rparr>" using assms by (simp add: keyed_store_def)
    have ev: "keyed hmac key (ra_MACToken ev)" "keyed hmac key (ra_UserToken ev)"
      using parseNPSLine_event(3,4) [OF Inr [unfolded Some]] salted_keyed unfolding tok by auto
    have s1: "keyed_store hmac key ?s" using keyed_applyRADIUS ev(2) assms by simp
    have "keyed_rows hmac key (addRadius ev w)" if "is_ch ?s = Some w" for w
      using keyed_store_rows [OF s1 that] ev by (auto simp: keyed_rows_def)
    then show ?thesis
      using Inr Some s1 by (auto simp: ingestNPS_def Let_def keyed_ch split: option.splits)
  qed
qed

lemma fold_keeps: "(\<And>x s. P s \<Longrightarrow> P (f x s)) \<Longrightarrow> P s \<Longrightarrow> P (fold f xs s)"
  by (induction xs arbitrary: s) auto

lemma keyed_scanDir:
  assumes "keyed_store hmac key s"
  shows "keyed_store hmac key (scanDir xmlFields dir source listing s)"
proof -
  let ?hl = "\<lambda>_ line s. if source = sourceNPS then ingestNPS xmlFields line s else ingestDHCP line s"
  have "keyed_store hmac key (apply_feed ?hl (\<lambda>_ s. s) f s)" if "keyed_store hmac key s" for f s
    using that keyed_ingestDHCP keyed_ingestNPS by (cases f) simp_all
  then have "keyed_store hmac key (fold (apply_feed ?hl (\<lambda>_ s. s)) fs s)" for fs
    using assms by (rule fold_keeps)
  then show ?thesis by (simp add: scanDir_def scanAppendedDir_log)
qed

lemma set_flush_buffer: "set (fst (flush_buffer send cap b c)) \<subseteq> set b"
  using set_mono_suffix [OF capTail_suffix, of b cap]
  by (auto simp: flush_buffer_def split: prod.splits)

lemma keyed_flush: "keyed_rows hmac key w \<Longrightarrow> keyed_rows hmac key (fst (ew_flush sendD sendR w c))"
  unfolding keyed_rows_def ew_flush_dhcp ew_flush_radius by (meson set_flush_buffer subsetD)

lemma keyed_id_flush:
  assumes "keyed_store hmac key s" "id_flush sendD sendR (s, c) = (s', c')"
  shows "keyed_store hmac key s'"
proof (cases "is_ch s")
  case None
  then show ?thesis using assms by (simp add: id_flush_def)
next
  case (Some w)
  then have "s' = s\<lparr>is_ch := Some (fst (ew_flush sendD sendR w c))\<rparr>"
    using assms(2) by (auto simp: id_flush_def split: prod.splits)
  then show ?thesis using assms(1) keyed_flush keyed_store_rows [OF assms(1) Some] keyed_ch by metis
qed

lemma keyed_evict: "keyed_store hmac key s \<Longrightarrow> keyed_store hmac key (evictExpired now s)"
  by (auto simp: keyed_store_def evictExpired_def intro: ran_evict [THEN bspec])

lemma keyed_reach: "identity_reach xmlFields sendD sendR s0 s \<Longrightarrow> keyed_store hmac key s0 \<Longrightarrow> keyed_store hmac key s"
  by (induction rule: identity_reach.induct)
    (auto intro: keyed_scanDir keyed_id_flush keyed_evict)

lemma keyed_new:
  "keyed_store hmac key (NewIdentityStore (saltedTokenizer hmac \<lparr>tok_key = key\<rparr>) nd dd nl dl ml ms conn)"
  by (simp add: keyed_store_def NewIdentityStore_def keyed_rows_def)

lemma keyed_Lookup:
  "keyed_store hmac key s \<Longrightarrow> keyed hmac key (fst (Lookup now s ip)) \<and> keyed hmac key (snd (Lookup now s ip))"
  by (auto simp: keyed_store_def Lookup_def ran_def keyed_def split: option.splits)

section \<open>The property\<close>

text \<open>C4. Fail closed. Whatever the logs contain and however often they are scanned, unless the
  pass-through flag is exactly \<open>true\<close> the identity subsystem runs only when a key file is named and
  has a key in it, and then every device and user token it answers, and every device, user and host
  token of the rows waiting for ClickHouse, is either empty or the first 32 digits of a digest keyed
  with that key. No raw MAC address, user name or host name is in any of them.\<close>

theorem identity_fail_closed:
  assumes "env ''IDENTITY_UPSTREAM_ANONYMIZED'' \<noteq> ''true''"
    and "identity_wiring hmac parseDuration zones readFile env conn = Enabled s0"
    and "identity_reach xmlFields sendD sendR s0 s"
  shows "\<exists>data. readFile (env ''IDENTITY_TOKEN_KEY_FILE'') = Some data \<and> trimSpace data \<noteq> ''''
     \<and> (\<forall>now ip. keyed hmac (trimSpace data) (fst (Lookup now s ip))
                \<and> keyed hmac (trimSpace data) (snd (Lookup now s ip)))
     \<and> (\<forall>w. is_ch s = Some w \<longrightarrow> keyed_rows hmac (trimSpace data) w)"
proof -
  obtain data npsL dhcpL lease session where w:
    "readFile (env ''IDENTITY_TOKEN_KEY_FILE'') = Some data" "trimSpace data \<noteq> ''''"
    "s0 = NewIdentityStore (saltedTokenizer hmac \<lparr>tok_key = trimSpace data\<rparr>) (env ''IDENTITY_NPS_DIR'')
           (env ''IDENTITY_DHCP_DIR'') npsL dhcpL lease session conn"
    by (rule identity_wiring_salted [OF assms(1,2)])
  have "keyed_store hmac (trimSpace data) s"
    using keyed_reach [OF assms(3)] keyed_new unfolding w(3) by blast
  then show ?thesis using w(1,2) keyed_Lookup keyed_store_rows by blast
qed

definition demo_env :: environ where
  "demo_env = (\<lambda>_. '''')(''IDENTITY_TOKEN_KEY_FILE'' := ''/key'', ''IDENTITY_DHCP_DIR'' := ''/dhcp'')"

theorem identity_fail_closed_witness:
  "keyed (\<lambda>k m. replicate 32 7) ''s3cret''
     (fst (Lookup 0 (evictExpired 5 (NewIdentityStore
        (saltedTokenizer (\<lambda>k m. replicate 32 7) \<lparr>tok_key = ''s3cret''\<rparr>) '''' ''/dhcp''
        (Some UTC) (Some UTC) (24 * hour) (24 * hour) True)) ''10.0.0.1''))"
proof -
  let ?h = "\<lambda>k m. replicate 32 (7 :: byte)"
  let ?s = "NewIdentityStore (saltedTokenizer ?h \<lparr>tok_key = ''s3cret''\<rparr>) '''' ''/dhcp''
        (Some UTC) (Some UTC) (24 * hour) (24 * hour) True"
  have trim: "trimSpace ''s3cret'' = ''s3cret''" by code_simp
  have "identity_wiring ?h (\<lambda>_. None) (\<lambda>_. Some UTC) (\<lambda>_. Some ''s3cret'') demo_env True = Enabled ?s"
    by (simp add: identity_wiring_def decideIdentityMode_def demo_env_def logLocation_def getenv_def durEnv_def
        NewTokenizer_def trim)
  moreover have "identity_reach (\<lambda>_. Inr []) (\<lambda>_ c. (True, c)) (\<lambda>_ c. (True, c :: nat)) ?s (evictExpired 5 ?s)"
    by (rule swept [OF built])
  ultimately show ?thesis
    using identity_fail_closed [of demo_env ?h "\<lambda>_. None" "\<lambda>_. Some UTC" "\<lambda>_. Some ''s3cret''" True ?s]
    by (fastforce simp: demo_env_def trim)
qed

end
