(* ===== verification/Enrich.thy ===== *)
theory Enrich
  imports Geo Tenant Threat IdentityScan DnsStore
begin

text \<open>
  \<open>enrich\<close> of \<open>main.go\<close>: what the worker adds to a decoded flow. A store that is not configured is
  \<open>None\<close> (a nil pointer). The stores read their own clock in each look-up, so the clock readings
  are an argument: \<open>clk i\<close> is that of the \<open>i\<close>-th look-up. The counters a flow moves are returned as
  the list of the increments.
\<close>

datatype metric =
    FlowsReceived | FlowsDeduplicated | FlowsWritten | ThreatHits string
  | IdentityTagHits | IdentityTagMisses | DnsTagHits | DnsTagMisses

section \<open>The stages\<close>

text \<open>\<open>EnrichedFlow{FlowMessage: flow}\<close>.\<close>

definition enriched_flow :: "FlowMessage \<Rightarrow> EnrichedFlow" where
  "enriched_flow flow = FlowMessage.extend flow
     \<lparr>ef_SrcGeo = noGeo, ef_DstGeo = noGeo, ef_TenantID = 0, ef_TenantName = '''',
      ef_DstTenantID = 0, ef_DstTenantName = '''', ef_SrcMACToken = '''', ef_SrcUserToken = '''',
      ef_DstMACToken = '''', ef_DstUserToken = '''', ef_SrcHostname = '''', ef_DstHostname = '''',
      ef_IsThreatSrc = False, ef_IsThreatDst = False, ef_ThreatLabel = '''', ef_IsSampled = False,
      ef_ExpandedBytes = 0, ef_ExpandedPackets = 0\<rparr>"

definition enrich_geo :: "GeoStore option \<Rightarrow> FlowMessage \<Rightarrow> EnrichedFlow \<Rightarrow> EnrichedFlow" where
  "enrich_geo geo flow e =
     (case geo of None \<Rightarrow> e
      | Some g \<Rightarrow> e\<lparr>ef_SrcGeo := geo_Lookup g (parseIP (fm_SrcAddr flow)),
                    ef_DstGeo := geo_Lookup g (parseIP (fm_DstAddr flow))\<rparr>)"

definition enrich_tenant :: "'r ranger \<Rightarrow> 'r TenantStore option \<Rightarrow> FlowMessage \<Rightarrow> EnrichedFlow \<Rightarrow> EnrichedFlow" where
  "enrich_tenant rg tenant flow e =
     (case tenant of None \<Rightarrow> e
      | Some t \<Rightarrow>
          let (i, n) = tenant_Lookup rg t (parseIP (fm_SrcAddr flow));
              (di, dn) = tenant_Lookup rg t (parseIP (fm_DstAddr flow))
          in e\<lparr>ef_TenantID := i, ef_TenantName := n, ef_DstTenantID := di, ef_DstTenantName := dn\<rparr>)"

definition enrich_identity ::
  "time \<Rightarrow> time \<Rightarrow> IdentityStore option \<Rightarrow> FlowMessage \<Rightarrow> EnrichedFlow \<Rightarrow> EnrichedFlow \<times> metric list" where
  "enrich_identity t1 t2 identity flow e =
     (case identity of None \<Rightarrow> (e, [])
      | Some s \<Rightarrow>
          let (m, u) = Identity.Lookup t1 s (fm_SrcAddr flow);
              (dm, du) = Identity.Lookup t2 s (fm_DstAddr flow)
          in (e\<lparr>ef_SrcMACToken := m, ef_SrcUserToken := u, ef_DstMACToken := dm, ef_DstUserToken := du\<rparr>,
              [if m \<noteq> '''' \<or> dm \<noteq> '''' then IdentityTagHits else IdentityTagMisses]))"

definition enrich_dns ::
  "time \<Rightarrow> time \<Rightarrow> 'p DNSStore option \<Rightarrow> FlowMessage \<Rightarrow> EnrichedFlow \<Rightarrow> EnrichedFlow \<times> metric list" where
  "enrich_dns t1 t2 dns flow e =
     (case dns of None \<Rightarrow> (e, [])
      | Some s \<Rightarrow>
          let dh = dns_Lookup t1 s (fm_SrcAddr flow) (fm_DstAddr flow);
              sh = dns_Lookup t2 s (fm_DstAddr flow) (fm_SrcAddr flow)
          in (e\<lparr>ef_DstHostname := dh, ef_SrcHostname := sh\<rparr>,
              [if sh \<noteq> '''' \<or> dh \<noteq> '''' then DnsTagHits else DnsTagMisses]))"

definition enrich_threat :: "ThreatStore option \<Rightarrow> FlowMessage \<Rightarrow> EnrichedFlow \<Rightarrow> EnrichedFlow" where
  "enrich_threat threat flow e =
     (case threat of None \<Rightarrow> e
      | Some s \<Rightarrow>
          let (ok, label) = threat_Lookup s (fm_SrcAddr flow);
              e = (if ok then e\<lparr>ef_IsThreatSrc := True, ef_ThreatLabel := label\<rparr> else e);
              (ok', label') = threat_Lookup s (fm_DstAddr flow)
          in if ok' then
               let e = e\<lparr>ef_IsThreatDst := True\<rparr>
               in if ef_ThreatLabel e = '''' then e\<lparr>ef_ThreatLabel := label'\<rparr> else e
             else e)"

text \<open>The products wrap at 64 bits.\<close>

definition enrich_sampling :: "FlowMessage \<Rightarrow> EnrichedFlow \<Rightarrow> EnrichedFlow" where
  "enrich_sampling flow e =
     (if 1 < fm_SamplingRate flow
      then e\<lparr>ef_IsSampled := True,
             ef_ExpandedBytes := fm_Bytes flow * fm_SamplingRate flow,
             ef_ExpandedPackets := fm_Packets flow * fm_SamplingRate flow\<rparr>
      else e)"

definition enrich ::
  "'r ranger \<Rightarrow> (nat \<Rightarrow> time) \<Rightarrow> FlowMessage \<Rightarrow> GeoStore option \<Rightarrow> 'r TenantStore option \<Rightarrow> ThreatStore option
     \<Rightarrow> IdentityStore option \<Rightarrow> 'p DNSStore option \<Rightarrow> EnrichedFlow \<times> metric list" where
  "enrich rg clk flow geo tenant threat identity dns =
     (let e = enriched_flow flow;
          e = enrich_geo geo flow e;
          e = enrich_tenant rg tenant flow e;
          (e, ms) = enrich_identity (clk 0) (clk 1) identity flow e;
          (e, ms') = enrich_dns (clk 2) (clk 3) dns flow e;
          e = enrich_threat threat flow e;
          e = enrich_sampling flow e
      in (e, ms @ ms'))"

section \<open>What a stage writes\<close>

abbreviation raw :: "('a) FlowMessage_scheme \<Rightarrow> FlowMessage" where "raw e \<equiv> FlowMessage.truncate e"

lemma raw_start [frame_simps]: "raw (enriched_flow flow) = flow"
  by (simp add: enriched_flow_def FlowMessage.defs)

lemma raw_stage [frame_simps]:
  "raw (enrich_geo geo flow e) = raw e" "raw (enrich_tenant rg tenant flow e) = raw e"
  "raw (fst (enrich_identity t1 t2 identity flow e)) = raw e"
  "raw (fst (enrich_dns t1 t2 dns flow e)) = raw e"
  "raw (enrich_threat threat flow e) = raw e" "raw (enrich_sampling flow e) = raw e"
  by (auto simp: enrich_geo_def enrich_tenant_def enrich_identity_def enrich_dns_def enrich_threat_def
      enrich_sampling_def FlowMessage.defs Let_def split: option.splits prod.splits)

lemma raw_enrich [frame_simps]: "raw (fst (enrich rg clk flow geo tenant threat identity dns)) = flow"
  by (simp add: enrich_def Let_def case_prod_unfold frame_simps)

lemma raw_fields:
  "raw e = flow \<Longrightarrow> fm_SrcAddr e = fm_SrcAddr flow \<and> fm_DstAddr e = fm_DstAddr flow
     \<and> fm_SrcPort e = fm_SrcPort flow \<and> fm_DstPort e = fm_DstPort flow \<and> fm_Proto e = fm_Proto flow
     \<and> fm_SamplerAddress e = fm_SamplerAddress flow \<and> fm_Type e = fm_Type flow
     \<and> fm_Bytes e = fm_Bytes flow \<and> fm_Packets e = fm_Packets flow"
  by (auto simp: FlowMessage.defs)

section \<open>What a stage leaves alone\<close>

lemma geo_frame [frame_simps]:
  "ef_TenantID (enrich_geo geo flow e) = ef_TenantID e"
  "ef_TenantName (enrich_geo geo flow e) = ef_TenantName e"
  "ef_DstTenantID (enrich_geo geo flow e) = ef_DstTenantID e"
  "ef_DstTenantName (enrich_geo geo flow e) = ef_DstTenantName e"
  "ef_SrcMACToken (enrich_geo geo flow e) = ef_SrcMACToken e"
  "ef_SrcUserToken (enrich_geo geo flow e) = ef_SrcUserToken e"
  "ef_DstMACToken (enrich_geo geo flow e) = ef_DstMACToken e"
  "ef_DstUserToken (enrich_geo geo flow e) = ef_DstUserToken e"
  "ef_SrcHostname (enrich_geo geo flow e) = ef_SrcHostname e"
  "ef_DstHostname (enrich_geo geo flow e) = ef_DstHostname e"
  "ef_IsThreatSrc (enrich_geo geo flow e) = ef_IsThreatSrc e"
  "ef_IsThreatDst (enrich_geo geo flow e) = ef_IsThreatDst e"
  "ef_ThreatLabel (enrich_geo geo flow e) = ef_ThreatLabel e"
  "ef_IsSampled (enrich_geo geo flow e) = ef_IsSampled e"
  "ef_ExpandedBytes (enrich_geo geo flow e) = ef_ExpandedBytes e"
  "ef_ExpandedPackets (enrich_geo geo flow e) = ef_ExpandedPackets e"
  by (cases geo; simp add: enrich_geo_def case_prod_unfold Let_def)+

lemma tenant_frame [frame_simps]:
  "ef_SrcGeo (enrich_tenant rg tenant flow e) = ef_SrcGeo e"
  "ef_DstGeo (enrich_tenant rg tenant flow e) = ef_DstGeo e"
  "ef_SrcMACToken (enrich_tenant rg tenant flow e) = ef_SrcMACToken e"
  "ef_SrcUserToken (enrich_tenant rg tenant flow e) = ef_SrcUserToken e"
  "ef_DstMACToken (enrich_tenant rg tenant flow e) = ef_DstMACToken e"
  "ef_DstUserToken (enrich_tenant rg tenant flow e) = ef_DstUserToken e"
  "ef_SrcHostname (enrich_tenant rg tenant flow e) = ef_SrcHostname e"
  "ef_DstHostname (enrich_tenant rg tenant flow e) = ef_DstHostname e"
  "ef_IsThreatSrc (enrich_tenant rg tenant flow e) = ef_IsThreatSrc e"
  "ef_IsThreatDst (enrich_tenant rg tenant flow e) = ef_IsThreatDst e"
  "ef_ThreatLabel (enrich_tenant rg tenant flow e) = ef_ThreatLabel e"
  "ef_IsSampled (enrich_tenant rg tenant flow e) = ef_IsSampled e"
  "ef_ExpandedBytes (enrich_tenant rg tenant flow e) = ef_ExpandedBytes e"
  "ef_ExpandedPackets (enrich_tenant rg tenant flow e) = ef_ExpandedPackets e"
  by (cases tenant; simp add: enrich_tenant_def case_prod_unfold Let_def)+

lemma identity_frame [frame_simps]:
  "ef_SrcGeo (fst (enrich_identity t1 t2 identity flow e)) = ef_SrcGeo e"
  "ef_DstGeo (fst (enrich_identity t1 t2 identity flow e)) = ef_DstGeo e"
  "ef_TenantID (fst (enrich_identity t1 t2 identity flow e)) = ef_TenantID e"
  "ef_TenantName (fst (enrich_identity t1 t2 identity flow e)) = ef_TenantName e"
  "ef_DstTenantID (fst (enrich_identity t1 t2 identity flow e)) = ef_DstTenantID e"
  "ef_DstTenantName (fst (enrich_identity t1 t2 identity flow e)) = ef_DstTenantName e"
  "ef_SrcHostname (fst (enrich_identity t1 t2 identity flow e)) = ef_SrcHostname e"
  "ef_DstHostname (fst (enrich_identity t1 t2 identity flow e)) = ef_DstHostname e"
  "ef_IsThreatSrc (fst (enrich_identity t1 t2 identity flow e)) = ef_IsThreatSrc e"
  "ef_IsThreatDst (fst (enrich_identity t1 t2 identity flow e)) = ef_IsThreatDst e"
  "ef_ThreatLabel (fst (enrich_identity t1 t2 identity flow e)) = ef_ThreatLabel e"
  "ef_IsSampled (fst (enrich_identity t1 t2 identity flow e)) = ef_IsSampled e"
  "ef_ExpandedBytes (fst (enrich_identity t1 t2 identity flow e)) = ef_ExpandedBytes e"
  "ef_ExpandedPackets (fst (enrich_identity t1 t2 identity flow e)) = ef_ExpandedPackets e"
  by (cases identity; simp add: enrich_identity_def case_prod_unfold Let_def)+

lemma dns_frame [frame_simps]:
  "ef_SrcGeo (fst (enrich_dns t1 t2 dns flow e)) = ef_SrcGeo e"
  "ef_DstGeo (fst (enrich_dns t1 t2 dns flow e)) = ef_DstGeo e"
  "ef_TenantID (fst (enrich_dns t1 t2 dns flow e)) = ef_TenantID e"
  "ef_TenantName (fst (enrich_dns t1 t2 dns flow e)) = ef_TenantName e"
  "ef_DstTenantID (fst (enrich_dns t1 t2 dns flow e)) = ef_DstTenantID e"
  "ef_DstTenantName (fst (enrich_dns t1 t2 dns flow e)) = ef_DstTenantName e"
  "ef_SrcMACToken (fst (enrich_dns t1 t2 dns flow e)) = ef_SrcMACToken e"
  "ef_SrcUserToken (fst (enrich_dns t1 t2 dns flow e)) = ef_SrcUserToken e"
  "ef_DstMACToken (fst (enrich_dns t1 t2 dns flow e)) = ef_DstMACToken e"
  "ef_DstUserToken (fst (enrich_dns t1 t2 dns flow e)) = ef_DstUserToken e"
  "ef_IsThreatSrc (fst (enrich_dns t1 t2 dns flow e)) = ef_IsThreatSrc e"
  "ef_IsThreatDst (fst (enrich_dns t1 t2 dns flow e)) = ef_IsThreatDst e"
  "ef_ThreatLabel (fst (enrich_dns t1 t2 dns flow e)) = ef_ThreatLabel e"
  "ef_IsSampled (fst (enrich_dns t1 t2 dns flow e)) = ef_IsSampled e"
  "ef_ExpandedBytes (fst (enrich_dns t1 t2 dns flow e)) = ef_ExpandedBytes e"
  "ef_ExpandedPackets (fst (enrich_dns t1 t2 dns flow e)) = ef_ExpandedPackets e"
  by (cases dns; simp add: enrich_dns_def case_prod_unfold Let_def)+

lemma threat_frame [frame_simps]:
  "ef_SrcGeo (enrich_threat threat flow e) = ef_SrcGeo e"
  "ef_DstGeo (enrich_threat threat flow e) = ef_DstGeo e"
  "ef_TenantID (enrich_threat threat flow e) = ef_TenantID e"
  "ef_TenantName (enrich_threat threat flow e) = ef_TenantName e"
  "ef_DstTenantID (enrich_threat threat flow e) = ef_DstTenantID e"
  "ef_DstTenantName (enrich_threat threat flow e) = ef_DstTenantName e"
  "ef_SrcMACToken (enrich_threat threat flow e) = ef_SrcMACToken e"
  "ef_SrcUserToken (enrich_threat threat flow e) = ef_SrcUserToken e"
  "ef_DstMACToken (enrich_threat threat flow e) = ef_DstMACToken e"
  "ef_DstUserToken (enrich_threat threat flow e) = ef_DstUserToken e"
  "ef_SrcHostname (enrich_threat threat flow e) = ef_SrcHostname e"
  "ef_DstHostname (enrich_threat threat flow e) = ef_DstHostname e"
  "ef_IsSampled (enrich_threat threat flow e) = ef_IsSampled e"
  "ef_ExpandedBytes (enrich_threat threat flow e) = ef_ExpandedBytes e"
  "ef_ExpandedPackets (enrich_threat threat flow e) = ef_ExpandedPackets e"
  by (cases threat; simp add: enrich_threat_def case_prod_unfold Let_def)+

lemma sampling_frame [frame_simps]:
  "ef_SrcGeo (enrich_sampling flow e) = ef_SrcGeo e" "ef_DstGeo (enrich_sampling flow e) = ef_DstGeo e"
  "ef_TenantID (enrich_sampling flow e) = ef_TenantID e"
  "ef_TenantName (enrich_sampling flow e) = ef_TenantName e"
  "ef_DstTenantID (enrich_sampling flow e) = ef_DstTenantID e"
  "ef_DstTenantName (enrich_sampling flow e) = ef_DstTenantName e"
  "ef_SrcMACToken (enrich_sampling flow e) = ef_SrcMACToken e"
  "ef_SrcUserToken (enrich_sampling flow e) = ef_SrcUserToken e"
  "ef_DstMACToken (enrich_sampling flow e) = ef_DstMACToken e"
  "ef_DstUserToken (enrich_sampling flow e) = ef_DstUserToken e"
  "ef_SrcHostname (enrich_sampling flow e) = ef_SrcHostname e"
  "ef_DstHostname (enrich_sampling flow e) = ef_DstHostname e"
  "ef_IsThreatSrc (enrich_sampling flow e) = ef_IsThreatSrc e"
  "ef_IsThreatDst (enrich_sampling flow e) = ef_IsThreatDst e"
  "ef_ThreatLabel (enrich_sampling flow e) = ef_ThreatLabel e"
  by (simp_all add: enrich_sampling_def)

section \<open>Each field comes from one store\<close>

definition the_geo :: "GeoStore option \<Rightarrow> string \<Rightarrow> GeoData" where
  "the_geo geo addr = (case geo of None \<Rightarrow> noGeo | Some g \<Rightarrow> geo_Lookup g (parseIP addr))"

definition the_tenant :: "'r ranger \<Rightarrow> 'r TenantStore option \<Rightarrow> string \<Rightarrow> uint32 \<times> string" where
  "the_tenant rg tenant addr = (case tenant of None \<Rightarrow> (0, '''') | Some t \<Rightarrow> tenant_Lookup rg t (parseIP addr))"

definition the_tokens :: "time \<Rightarrow> IdentityStore option \<Rightarrow> string \<Rightarrow> string \<times> string" where
  "the_tokens t identity addr = (case identity of None \<Rightarrow> ('''', '''') | Some s \<Rightarrow> Identity.Lookup t s addr)"

definition the_host :: "time \<Rightarrow> 'p DNSStore option \<Rightarrow> string \<Rightarrow> string \<Rightarrow> string" where
  "the_host t dns client addr = (case dns of None \<Rightarrow> '''' | Some s \<Rightarrow> dns_Lookup t s client addr)"

definition the_threat :: "ThreatStore option \<Rightarrow> string \<Rightarrow> bool \<times> string" where
  "the_threat threat addr = (case threat of None \<Rightarrow> (False, '''') | Some s \<Rightarrow> threat_Lookup s addr)"

definition the_label :: "bool \<times> string \<Rightarrow> bool \<times> string \<Rightarrow> string" where
  "the_label s d = (if fst s \<and> snd s \<noteq> '''' then snd s else if fst d then snd d else '''')"

text \<open>The flow before the stages have run.\<close>

lemma start_fields [frame_simps]:
  "ef_SrcGeo (enriched_flow f) = noGeo" "ef_DstGeo (enriched_flow f) = noGeo"
  "ef_TenantID (enriched_flow f) = 0" "ef_TenantName (enriched_flow f) = ''''"
  "ef_DstTenantID (enriched_flow f) = 0" "ef_DstTenantName (enriched_flow f) = ''''"
  "ef_SrcMACToken (enriched_flow f) = ''''" "ef_SrcUserToken (enriched_flow f) = ''''"
  "ef_DstMACToken (enriched_flow f) = ''''" "ef_DstUserToken (enriched_flow f) = ''''"
  "ef_SrcHostname (enriched_flow f) = ''''" "ef_DstHostname (enriched_flow f) = ''''"
  "ef_IsThreatSrc (enriched_flow f) = False" "ef_IsThreatDst (enriched_flow f) = False"
  "ef_ThreatLabel (enriched_flow f) = ''''" "ef_IsSampled (enriched_flow f) = False"
  "ef_ExpandedBytes (enriched_flow f) = 0" "ef_ExpandedPackets (enriched_flow f) = 0"
  by (simp_all add: enriched_flow_def FlowMessage.defs)

text \<open>What each stage writes, over a flow it has not written before.\<close>

lemma geo_writes:
  "ef_SrcGeo e = noGeo \<Longrightarrow> ef_SrcGeo (enrich_geo geo flow e) = the_geo geo (fm_SrcAddr flow)"
  "ef_DstGeo e = noGeo \<Longrightarrow> ef_DstGeo (enrich_geo geo flow e) = the_geo geo (fm_DstAddr flow)"
  by (cases geo; simp add: enrich_geo_def the_geo_def)+

lemma tenant_writes:
  "ef_TenantID e = 0 \<Longrightarrow> ef_TenantID (enrich_tenant rg tenant flow e) = fst (the_tenant rg tenant (fm_SrcAddr flow))"
  "ef_TenantName e = '''' \<Longrightarrow> ef_TenantName (enrich_tenant rg tenant flow e) = snd (the_tenant rg tenant (fm_SrcAddr flow))"
  "ef_DstTenantID e = 0 \<Longrightarrow> ef_DstTenantID (enrich_tenant rg tenant flow e) = fst (the_tenant rg tenant (fm_DstAddr flow))"
  "ef_DstTenantName e = '''' \<Longrightarrow> ef_DstTenantName (enrich_tenant rg tenant flow e) = snd (the_tenant rg tenant (fm_DstAddr flow))"
  by (cases tenant; simp add: enrich_tenant_def the_tenant_def case_prod_unfold Let_def)+

lemma identity_writes:
  "ef_SrcMACToken e = '''' \<Longrightarrow> ef_SrcMACToken (fst (enrich_identity t1 t2 identity flow e)) = fst (the_tokens t1 identity (fm_SrcAddr flow))"
  "ef_SrcUserToken e = '''' \<Longrightarrow> ef_SrcUserToken (fst (enrich_identity t1 t2 identity flow e)) = snd (the_tokens t1 identity (fm_SrcAddr flow))"
  "ef_DstMACToken e = '''' \<Longrightarrow> ef_DstMACToken (fst (enrich_identity t1 t2 identity flow e)) = fst (the_tokens t2 identity (fm_DstAddr flow))"
  "ef_DstUserToken e = '''' \<Longrightarrow> ef_DstUserToken (fst (enrich_identity t1 t2 identity flow e)) = snd (the_tokens t2 identity (fm_DstAddr flow))"
  by (cases identity; simp add: enrich_identity_def the_tokens_def case_prod_unfold Let_def)+

lemma dns_writes:
  "ef_DstHostname e = '''' \<Longrightarrow>
     ef_DstHostname (fst (enrich_dns t1 t2 dns flow e)) = the_host t1 dns (fm_SrcAddr flow) (fm_DstAddr flow)"
  "ef_SrcHostname e = '''' \<Longrightarrow>
     ef_SrcHostname (fst (enrich_dns t1 t2 dns flow e)) = the_host t2 dns (fm_DstAddr flow) (fm_SrcAddr flow)"
  by (cases dns; simp only: enrich_dns_def the_host_def Let_def option.case fst_conv; simp)+

lemma enrich_threat_Some:
  "enrich_threat (Some s) flow e =
     (let ts = threat_Lookup s (fm_SrcAddr flow); td = threat_Lookup s (fm_DstAddr flow);
          e1 = (if fst ts then e\<lparr>ef_IsThreatSrc := True, ef_ThreatLabel := snd ts\<rparr> else e)
      in if \<not> fst td then e1
         else if ef_ThreatLabel e1 = '''' then e1\<lparr>ef_IsThreatDst := True, ef_ThreatLabel := snd td\<rparr>
         else e1\<lparr>ef_IsThreatDst := True\<rparr>)"
  unfolding enrich_threat_def option.case Let_def case_prod_unfold by simp

lemma threat_writes:
  "\<not> ef_IsThreatSrc e \<Longrightarrow> ef_IsThreatSrc (enrich_threat threat flow e) = fst (the_threat threat (fm_SrcAddr flow))"
  "\<not> ef_IsThreatDst e \<Longrightarrow> ef_IsThreatDst (enrich_threat threat flow e) = fst (the_threat threat (fm_DstAddr flow))"
  "ef_ThreatLabel e = '''' \<Longrightarrow> ef_ThreatLabel (enrich_threat threat flow e)
     = the_label (the_threat threat (fm_SrcAddr flow)) (the_threat threat (fm_DstAddr flow))"
proof -
  obtain ts where ts: "\<And>s. threat = Some s \<Longrightarrow> threat_Lookup s (fm_SrcAddr flow) = ts" by (cases threat) auto
  obtain td where td: "\<And>s. threat = Some s \<Longrightarrow> threat_Lookup s (fm_DstAddr flow) = td" by (cases threat) auto
  note d = enrich_threat_Some the_threat_def the_label_def Let_def
  show "ef_IsThreatSrc (enrich_threat threat flow e) = fst (the_threat threat (fm_SrcAddr flow))" if "\<not> ef_IsThreatSrc e"
    using that ts td by (cases threat) (simp_all add: d enrich_threat_def [of None])
  show "ef_IsThreatDst (enrich_threat threat flow e) = fst (the_threat threat (fm_DstAddr flow))" if "\<not> ef_IsThreatDst e"
    using that ts td by (cases threat) (simp_all add: d enrich_threat_def [of None])
  show "ef_ThreatLabel (enrich_threat threat flow e)
     = the_label (the_threat threat (fm_SrcAddr flow)) (the_threat threat (fm_DstAddr flow))" if "ef_ThreatLabel e = ''''"
    using that ts td by (cases threat) (simp_all add: d enrich_threat_def [of None])
qed

lemma sampling_writes:
  "\<not> ef_IsSampled e \<Longrightarrow> ef_IsSampled (enrich_sampling flow e) = (1 < fm_SamplingRate flow)"
  "ef_ExpandedBytes e = 0 \<Longrightarrow> ef_ExpandedBytes (enrich_sampling flow e)
     = (if 1 < fm_SamplingRate flow then fm_Bytes flow * fm_SamplingRate flow else 0)"
  "ef_ExpandedPackets e = 0 \<Longrightarrow> ef_ExpandedPackets (enrich_sampling flow e)
     = (if 1 < fm_SamplingRate flow then fm_Packets flow * fm_SamplingRate flow else 0)"
  by (simp_all add: enrich_sampling_def)

lemma fst_enrich:
  "fst (enrich rg clk flow geo tenant threat identity dns) =
     enrich_sampling flow (enrich_threat threat flow (fst (enrich_dns (clk 2) (clk 3) dns flow
       (fst (enrich_identity (clk 0) (clk 1) identity flow
         (enrich_tenant rg tenant flow (enrich_geo geo flow (enriched_flow flow))))))))"
  by (simp add: enrich_def Let_def case_prod_unfold)

lemmas stage_writes = geo_writes tenant_writes identity_writes dns_writes threat_writes sampling_writes

text \<open>Each enrichment is what its store says of the address, and its zero value without the store.\<close>

lemma enrich_source:
  fixes flow :: FlowMessage and clk :: "nat \<Rightarrow> time" and rg :: "'r ranger" and geo tenant threat identity
    and dns :: "'p DNSStore option"
  defines "s \<equiv> fm_SrcAddr flow" and "d \<equiv> fm_DstAddr flow"
    and "e \<equiv> fst (enrich rg clk flow geo tenant threat identity dns)"
  shows "ef_SrcGeo e = the_geo geo s" "ef_DstGeo e = the_geo geo d"
    "ef_TenantID e = fst (the_tenant rg tenant s)" "ef_TenantName e = snd (the_tenant rg tenant s)"
    "ef_DstTenantID e = fst (the_tenant rg tenant d)" "ef_DstTenantName e = snd (the_tenant rg tenant d)"
    "ef_SrcMACToken e = fst (the_tokens (clk 0) identity s)" "ef_SrcUserToken e = snd (the_tokens (clk 0) identity s)"
    "ef_DstMACToken e = fst (the_tokens (clk 1) identity d)" "ef_DstUserToken e = snd (the_tokens (clk 1) identity d)"
    "ef_DstHostname e = the_host (clk 2) dns s d" "ef_SrcHostname e = the_host (clk 3) dns d s"
    "ef_IsThreatSrc e = fst (the_threat threat s)" "ef_IsThreatDst e = fst (the_threat threat d)"
    "ef_ThreatLabel e = the_label (the_threat threat s) (the_threat threat d)"
    "ef_IsSampled e = (1 < fm_SamplingRate flow)"
    "ef_ExpandedBytes e = (if 1 < fm_SamplingRate flow then fm_Bytes flow * fm_SamplingRate flow else 0)"
    "ef_ExpandedPackets e = (if 1 < fm_SamplingRate flow then fm_Packets flow * fm_SamplingRate flow else 0)"
  unfolding e_def s_def d_def fst_enrich by (simp_all only: frame_simps stage_writes simp_thms)

text \<open>
  The counters: identity and DNS each count a hit or a miss of a configured store. A hit of the
  identity counter is a device token on either side.
\<close>

lemma snd_enrich:
  "snd (enrich rg clk flow geo tenant threat identity dns) =
     (if identity = None then []
      else [if fst (the_tokens (clk 0) identity (fm_SrcAddr flow)) \<noteq> ''''
               \<or> fst (the_tokens (clk 1) identity (fm_DstAddr flow)) \<noteq> ''''
            then IdentityTagHits else IdentityTagMisses])
     @ (if dns = None then []
        else [if the_host (clk 3) dns (fm_DstAddr flow) (fm_SrcAddr flow) \<noteq> ''''
                 \<or> the_host (clk 2) dns (fm_SrcAddr flow) (fm_DstAddr flow) \<noteq> ''''
              then DnsTagHits else DnsTagMisses])"
  unfolding enrich_def Let_def case_prod_unfold snd_conv
  by (cases identity; cases dns;
      simp add: enrich_identity_def enrich_dns_def the_tokens_def the_host_def case_prod_unfold Let_def)

section \<open>The two halves of a conversation\<close>

text \<open>The return half: the addresses swapped.\<close>

definition mirrored :: "FlowMessage \<Rightarrow> FlowMessage" where
  "mirrored f = f\<lparr>fm_SrcAddr := fm_DstAddr f, fm_DstAddr := fm_SrcAddr f\<rparr>"

text \<open>C33. A conversation is attributed the same from both of its halves: the return half of a flow
  carries at its destination exactly what the outbound half carries at its source (location, tenant,
  device, user, host name and threat flag), and the other way round, moves the same counters, and is a
  threat with a label exactly when the outbound half is one. The stores are any stores, and are the
  same for both halves, read at one instant.\<close>

theorem enrich_mirror:
  fixes f :: FlowMessage and t :: time and rg :: "'r ranger" and geo tenant threat identity
    and dns :: "'p DNSStore option"
  defines "out \<equiv> enrich rg (\<lambda>_. t) f geo tenant threat identity dns"
    and "back \<equiv> enrich rg (\<lambda>_. t) (mirrored f) geo tenant threat identity dns"
  shows "ef_SrcGeo (fst back) = ef_DstGeo (fst out) \<and> ef_DstGeo (fst back) = ef_SrcGeo (fst out)
     \<and> (ef_TenantID (fst back), ef_TenantName (fst back)) = (ef_DstTenantID (fst out), ef_DstTenantName (fst out))
     \<and> (ef_DstTenantID (fst back), ef_DstTenantName (fst back)) = (ef_TenantID (fst out), ef_TenantName (fst out))
     \<and> (ef_SrcMACToken (fst back), ef_SrcUserToken (fst back)) = (ef_DstMACToken (fst out), ef_DstUserToken (fst out))
     \<and> (ef_DstMACToken (fst back), ef_DstUserToken (fst back)) = (ef_SrcMACToken (fst out), ef_SrcUserToken (fst out))
     \<and> ef_SrcHostname (fst back) = ef_DstHostname (fst out) \<and> ef_DstHostname (fst back) = ef_SrcHostname (fst out)
     \<and> ef_IsThreatSrc (fst back) = ef_IsThreatDst (fst out) \<and> ef_IsThreatDst (fst back) = ef_IsThreatSrc (fst out)
     \<and> (ef_ThreatLabel (fst back) = '''' \<longleftrightarrow> ef_ThreatLabel (fst out) = '''')
     \<and> snd back = snd out"
proof -
  have m: "fm_SrcAddr (mirrored f) = fm_DstAddr f" "fm_DstAddr (mirrored f) = fm_SrcAddr f"
    by (simp_all add: mirrored_def)
  have l: "the_label a b = '''' \<longleftrightarrow> the_label b a = ''''" for a b by (auto simp: the_label_def)
  show ?thesis
    unfolding out_def back_def by (simp add: enrich_source snd_enrich m l)
qed


end
