(* ===== verification/Pipeline.thy ===== *)
theory Pipeline
  imports Enrich Dedup
begin

text \<open>
  The worker pool of \<open>main.go\<close>. The readers put raw payloads on a channel; any number of workers
  take them, decode, drop repeats, enrich, and hand a row to the batch writer. The workers share the
  duplicate memory, whose look-up and recording are two calls, so the machine interleaves the workers
  between them; the stores change under the workers, so a step enriches with any contents of them.
  The JSON decoder is third-party code and an argument.
\<close>

section \<open>One worker\<close>

text \<open>Where a worker stands in the body of its loop.\<close>

datatype worker =
    Idle
  | Decoded FlowMessage
  | Unseen FlowMessage
  | Passed FlowMessage

text \<open>
  The pool: the channel, the workers, the duplicate memory, the counters and the rows handed to
  \<open>writer.Add\<close>. The ghost fields remember the flows that were decoded, those that were dropped as
  repeats and those that went through.
\<close>

record 'l pool =
  po_chan :: "string list"
  po_workers :: "worker list"
  po_dedup :: "'l DedupStore"
  po_count :: "metric \<Rightarrow> nat"
  po_rows :: "FlowRow list"
  po_decoded :: "FlowMessage list"
  po_dropped :: "FlowMessage list"
  po_out :: "FlowMessage list"

definition count :: "metric list \<Rightarrow> (metric \<Rightarrow> nat) \<Rightarrow> metric \<Rightarrow> nat" where
  "count ms c m = c m + length (filter (\<lambda>x. x = m) ms)"

text \<open>What one flow that passed does: \<open>enrich\<close>, the threat counters, the row, the counter.\<close>

definition emit_metrics :: "EnrichedFlow \<Rightarrow> metric list" where
  "emit_metrics e =
     (if ef_IsThreatSrc e then [ThreatHits ''src''] else []) @
     (if ef_IsThreatDst e then [ThreatHits ''dst''] else []) @ [FlowsWritten]"

definition worker_emit ::
  "bool \<Rightarrow> FlowMessage \<Rightarrow> EnrichedFlow \<times> metric list \<Rightarrow> 'l pool \<Rightarrow> 'l pool" where
  "worker_emit writer flow enriched p =
     p\<lparr>po_count := count (snd enriched @ emit_metrics (fst enriched)) (po_count p),
       po_rows := (if writer then po_rows p @ [toFlowRow (fst enriched)] else po_rows p),
       po_out := po_out p @ [flow]\<rparr>"

text \<open>
  The steps: the reader, and the body of the loop of worker \<open>i\<close>. \<open>writer\<close> says whether there is a
  batch writer, \<open>enabled\<close> whether duplicates are dropped.
\<close>

inductive pool_step ::
  "'l lru \<Rightarrow> (string \<Rightarrow> FlowMessage option) \<Rightarrow> 'r ranger \<Rightarrow> 'p itself \<Rightarrow> bool \<Rightarrow> bool \<Rightarrow> 'l pool \<Rightarrow> 'l pool \<Rightarrow> bool"
  for L unmarshal rg ty enabled writer where
  read: "pool_step L unmarshal rg ty enabled writer p (p\<lparr>po_chan := po_chan p @ [msg]\<rparr>)"
| bad: "po_chan p = msg # rest \<Longrightarrow> i < length (po_workers p) \<Longrightarrow> po_workers p ! i = Idle \<Longrightarrow>
    unmarshal msg = None \<Longrightarrow>
    pool_step L unmarshal rg ty enabled writer p (p\<lparr>po_chan := rest\<rparr>)"
| decode: "po_chan p = msg # rest \<Longrightarrow> i < length (po_workers p) \<Longrightarrow> po_workers p ! i = Idle \<Longrightarrow>
    unmarshal msg = Some f \<Longrightarrow>
    pool_step L unmarshal rg ty enabled writer p
      (p\<lparr>po_chan := rest, po_count := count [FlowsReceived] (po_count p),
         po_workers := (po_workers p)[i := if enabled then Decoded f else Passed f],
         po_decoded := po_decoded p @ [f]\<rparr>)"
| probe: "i < length (po_workers p) \<Longrightarrow> po_workers p ! i = Decoded f \<Longrightarrow>
    dedup_probe L t f (po_dedup p) = (False, d) \<Longrightarrow>
    pool_step L unmarshal rg ty enabled writer p
      (p\<lparr>po_dedup := d, po_workers := (po_workers p)[i := Unseen f]\<rparr>)"
| repeated: "i < length (po_workers p) \<Longrightarrow> po_workers p ! i = Decoded f \<Longrightarrow>
    dedup_probe L t f (po_dedup p) = (True, d) \<Longrightarrow>
    pool_step L unmarshal rg ty enabled writer p
      (p\<lparr>po_dedup := d, po_workers := (po_workers p)[i := Idle],
         po_count := count [FlowsDeduplicated] (po_count p), po_dropped := po_dropped p @ [f]\<rparr>)"
| remember: "i < length (po_workers p) \<Longrightarrow> po_workers p ! i = Unseen f \<Longrightarrow>
    pool_step L unmarshal rg ty enabled writer p
      (p\<lparr>po_dedup := dedup_record L t f (po_dedup p), po_workers := (po_workers p)[i := Passed f]\<rparr>)"
| emit: "i < length (po_workers p) \<Longrightarrow> po_workers p ! i = Passed f \<Longrightarrow>
    pool_step L unmarshal rg ty enabled writer p
      (worker_emit writer f (enrich rg clk f geo tenant threat identity (dns :: 'p DNSStore option))
        (p\<lparr>po_workers := (po_workers p)[i := Idle]\<rparr>))"

definition pool_start :: "'l DedupStore \<Rightarrow> nat \<Rightarrow> 'l pool" where
  "pool_start d n = \<lparr>po_chan = [], po_workers = replicate n Idle, po_dedup = d, po_count = (\<lambda>_. 0),
     po_rows = [], po_decoded = [], po_dropped = [], po_out = []\<rparr>"

section \<open>Where the flows are\<close>

primrec in_hand :: "worker \<Rightarrow> FlowMessage multiset" where
  "in_hand Idle = {#}"
| "in_hand (Decoded f) = {#f#}"
| "in_hand (Unseen f) = {#f#}"
| "in_hand (Passed f) = {#f#}"

primrec cleared :: "worker \<Rightarrow> FlowMessage set" where
  "cleared Idle = {}"
| "cleared (Decoded f) = {}"
| "cleared (Unseen f) = {}"
| "cleared (Passed f) = {f}"

definition held :: "worker list \<Rightarrow> FlowMessage multiset" where
  "held ws = sum_list (map in_hand ws)"

definition passing :: "worker list \<Rightarrow> FlowMessage set" where
  "passing ws = (\<Union>w\<in>set ws. cleared w)"

lemma held_update: "i < length ws \<Longrightarrow> held (ws[i := w]) + in_hand (ws ! i) = held ws + in_hand w"
proof (induction ws arbitrary: i)
  case Nil
  then show ?case by simp
next
  case (Cons v ws)
  then show ?case by (cases i) (simp_all add: held_def union_ac)
qed

lemma passing_update:
  assumes "i < length ws"
  shows "passing ws \<subseteq> passing (ws[i := w]) \<union> cleared (ws ! i)"
proof
  fix x assume "x \<in> passing ws"
  then obtain j where j: "j < length ws" "x \<in> cleared (ws ! j)" unfolding passing_def by (auto simp: in_set_conv_nth)
  show "x \<in> passing (ws[i := w]) \<union> cleared (ws ! i)"
  proof (cases "j = i")
    case True
    then show ?thesis using j by simp
  next
    case False
    then have "ws ! j \<in> set (ws[i := w])" using j(1) by (metis length_list_update nth_list_update_neq nth_mem)
    then show ?thesis using j(2) unfolding passing_def by blast
  qed
qed

lemma passing_new: "i < length ws \<Longrightarrow> cleared w \<subseteq> passing (ws[i := w])"
  unfolding passing_def using set_update_memI [of i ws w] by blast

lemma passing_grows:
  "i < length ws \<Longrightarrow> cleared (ws ! i) = {} \<Longrightarrow> passing ws \<subseteq> passing (ws[i := w])"
  using passing_update [of i ws w] by simp

section \<open>The invariant\<close>

definition row_key :: "FlowRow \<Rightarrow> dedupKey" where
  "row_key r =
     \<lparr>dk_SrcAddr = fr_SrcIP r, dk_DstAddr = fr_DstIP r, dk_SrcPort = fr_SrcPort r, dk_DstPort = fr_DstPort r,
      dk_Proto = fr_Protocol r, dk_Exporter = fr_ExporterIP r, dk_Type = fr_FlowType r\<rparr>"

lemma row_key_enrich: "row_key (toFlowRow (fst (enrich rg clk f geo tenant threat identity dns))) = flow_key f"
  using raw_fields [OF raw_enrich, of rg clk f geo tenant threat identity dns]
  by (simp add: row_key_def flow_key_def toFlowRow_def Let_def)

text \<open>
  The accounting: every decoded flow is dropped, out or in the hands of a worker, the counters agree,
  and the rows are those of the flows that went out.
\<close>

definition pool_counts :: "bool \<Rightarrow> 'l pool \<Rightarrow> bool" where
  "pool_counts writer p \<longleftrightarrow>
     mset (po_decoded p) = mset (po_dropped p) + mset (po_out p) + held (po_workers p)
     \<and> po_count p FlowsReceived = length (po_decoded p)
     \<and> po_count p FlowsDeduplicated = length (po_dropped p)
     \<and> po_count p FlowsWritten = length (po_out p)
     \<and> map row_key (po_rows p) = (if writer then map flow_key (po_out p) else [])"

text \<open>
  The memory is that of a run of look-ups and recordings; whatever it has recorded, and whatever was
  dropped as a repeat, has a flow of the same key that passed.
\<close>

definition passed :: "'l pool \<Rightarrow> FlowMessage set" where
  "passed p = set (po_out p) \<union> passing (po_workers p)"

definition pool_memory :: "'l lru \<Rightarrow> int \<Rightarrow> duration \<Rightarrow> 'l pool \<Rightarrow> bool" where
  "pool_memory L sz ttl p \<longleftrightarrow>
     (\<exists>ops. po_dedup p = fold (dedup_step L) ops (NewDedupStore L sz ttl)
        \<and> (\<forall>t g. Record t g \<in> set ops \<longrightarrow> g \<in> passed p))
     \<and> flow_key ` set (po_dropped p) \<subseteq> flow_key ` passed p"

lemma count_simps [simp]:
  "count [m] c = c(m := Suc (c m))" "count [] c = c" "count (ms @ ms') c m = count ms' (count ms c) m"
  by (auto simp: count_def)

lemma emit_counts:
  "m \<notin> {FlowsWritten, ThreatHits ''src'', ThreatHits ''dst''} \<Longrightarrow> count (emit_metrics e) c m = c m"
  "count (emit_metrics e) c FlowsWritten = Suc (c FlowsWritten)"
  by (auto simp: emit_metrics_def)

lemma enrich_counts:
  "m \<in> {FlowsReceived, FlowsDeduplicated, FlowsWritten} \<Longrightarrow>
     count (snd (enrich rg clk f geo tenant threat identity dns)) c m = c m"
  unfolding snd_enrich by (auto simp: count_def)

lemma counts_start: "pool_counts writer (pool_start d n)"
proof -
  have "held (replicate n Idle) = {#}" unfolding held_def by (induction n) simp_all
  then show ?thesis by (simp add: pool_counts_def pool_start_def)
qed

lemma counts_step:
  assumes "pool_step L unmarshal rg ty enabled writer p q" "pool_counts writer p"
  shows "pool_counts writer q"
  using assms(1)
proof cases
  case (read msg)
  then show ?thesis using assms(2) by (simp add: pool_counts_def)
next
  case (bad msg rest i)
  then show ?thesis using assms(2) by (simp add: pool_counts_def)
next
  case (decode msg rest i f)
  let ?w = "if enabled then Decoded f else Passed f"
  have "held ((po_workers p)[i := ?w]) = held (po_workers p) + {#f#}"
    using held_update [OF decode(3), of ?w] decode(4) by (cases enabled) simp_all
  then show ?thesis using assms(2) decode(1) by (simp add: pool_counts_def)
next
  case (probe i f t d)
  have "held ((po_workers p)[i := Unseen f]) = held (po_workers p)"
    using held_update [OF probe(2), of "Unseen f"] probe(3) by simp
  then show ?thesis using assms(2) probe(1) by (simp add: pool_counts_def)
next
  case (repeated i f t d)
  have "held ((po_workers p)[i := Idle]) + {#f#} = held (po_workers p)"
    using held_update [OF repeated(2), of Idle] repeated(3) by simp
  then show ?thesis using assms(2) repeated(1) by (simp add: pool_counts_def)
next
  case (remember i f t)
  have "held ((po_workers p)[i := Passed f]) = held (po_workers p)"
    using held_update [OF remember(2), of "Passed f"] remember(3) by simp
  then show ?thesis using assms(2) remember(1) by (simp add: pool_counts_def)
next
  case (emit i f clk geo tenant threat identity dns)
  have "held ((po_workers p)[i := Idle]) + {#f#} = held (po_workers p)"
    using held_update [OF emit(2), of Idle] emit(3) by simp
  then show ?thesis
    using assms(2) emit(1) by (simp add: pool_counts_def worker_emit_def emit_counts enrich_counts row_key_enrich)
qed

lemma memory_start: "pool_memory L sz ttl (pool_start (NewDedupStore L sz ttl) n)"
  unfolding pool_memory_def pool_start_def by (auto intro: exI [of _ "[]"])

text \<open>A step that only looks keeps the memory; what has passed never shrinks.\<close>

lemma memory_dropped:
  assumes "pool_memory L sz ttl p" "passed p \<subseteq> passed q" "set (po_dropped q) \<subseteq> set (po_dropped p)"
  shows "flow_key ` set (po_dropped q) \<subseteq> flow_key ` passed q"
proof -
  have "flow_key ` set (po_dropped q) \<subseteq> flow_key ` set (po_dropped p)" using assms(3) by (rule image_mono)
  also have "\<dots> \<subseteq> flow_key ` passed p" using assms(1) unfolding pool_memory_def by (rule conjunct2)
  also have "\<dots> \<subseteq> flow_key ` passed q" using assms(2) by (rule image_mono)
  finally show ?thesis .
qed

lemma memory_ops:
  assumes "pool_memory L sz ttl p"
  obtains ops where "po_dedup p = fold (dedup_step L) ops (NewDedupStore L sz ttl)"
    "\<And>t g. Record t g \<in> set ops \<Longrightarrow> g \<in> passed p"
  using assms unfolding pool_memory_def by metis

lemma memory_intro:
  "po_dedup q = fold (dedup_step L) ops (NewDedupStore L sz ttl) \<Longrightarrow>
     (\<And>t g. Record t g \<in> set ops \<Longrightarrow> g \<in> passed q) \<Longrightarrow>
     flow_key ` set (po_dropped q) \<subseteq> flow_key ` passed q \<Longrightarrow> pool_memory L sz ttl q"
  unfolding pool_memory_def by metis

lemma memory_keeps:
  assumes "pool_memory L sz ttl p" "po_dedup q = po_dedup p" "passed p \<subseteq> passed q"
    "set (po_dropped q) = set (po_dropped p)"
  shows "pool_memory L sz ttl q"
proof (rule memory_ops [OF assms(1)])
  fix ops assume ops: "po_dedup p = fold (dedup_step L) ops (NewDedupStore L sz ttl)"
    "\<And>t g. Record t g \<in> set ops \<Longrightarrow> g \<in> passed p"
  have dropped: "flow_key ` set (po_dropped q) \<subseteq> flow_key ` passed q"
    using assms(4) by (intro memory_dropped [OF assms(1,3)]) simp
  have rec: "g \<in> passed q" if "Record t g \<in> set ops" for t g using ops(2) [OF that] assms(3) by blast
  show ?thesis by (rule memory_intro [OF trans [OF assms(2) ops(1)] rec dropped])
qed

lemma memory_op:
  assumes "pool_memory L sz ttl p" "po_dedup q = dedup_step L x (po_dedup p)" "passed p \<subseteq> passed q"
    "\<And>t g. x = Record t g \<Longrightarrow> g \<in> passed q" "flow_key ` set (po_dropped q) \<subseteq> flow_key ` passed q"
  shows "pool_memory L sz ttl q"
proof (rule memory_ops [OF assms(1)])
  fix ops assume ops: "po_dedup p = fold (dedup_step L) ops (NewDedupStore L sz ttl)"
    "\<And>t g. Record t g \<in> set ops \<Longrightarrow> g \<in> passed p"
  have run: "po_dedup q = fold (dedup_step L) (ops @ [x]) (NewDedupStore L sz ttl)" using assms(2) ops(1) by simp
  have rec: "g \<in> passed q" if "Record t g \<in> set (ops @ [x])" for t g
    using that ops(2) [of t g] assms(3) assms(4) [of t g] by auto
  show ?thesis by (rule memory_intro [OF run rec assms(5)])
qed

lemma memory_step:
  assumes ok: "lru_ok L (perShard sz) ttl"
    and "pool_step L unmarshal rg ty enabled writer p q" "pool_memory L sz ttl p"
  shows "pool_memory L sz ttl q"
  using assms(2)
proof cases
  case (read msg)
  then show ?thesis by (intro memory_keeps [OF assms(3)]) (simp_all add: passed_def)
next
  case (bad msg rest i)
  then show ?thesis by (intro memory_keeps [OF assms(3)]) (simp_all add: passed_def)
next
  case (decode msg rest i f)
  have "passing (po_workers p) \<subseteq> passing ((po_workers p)[i := if enabled then Decoded f else Passed f])"
    using decode(4) by (intro passing_grows [OF decode(3)]) simp
  then show ?thesis using decode(1) by (intro memory_keeps [OF assms(3)]) (auto simp: passed_def)
next
  case (probe i f t d)
  have sub: "passed p \<subseteq> passed q" using passing_grows [OF probe(2), of "Unseen f"] probe(1,3) by (auto simp: passed_def)
  have op: "po_dedup q = dedup_step L (Probe t f) (po_dedup p)" using probe(1,4) by simp
  have "flow_key ` set (po_dropped q) \<subseteq> flow_key ` passed q"
    using probe(1) by (intro memory_dropped [OF assms(3) sub]) simp
  then show ?thesis by (rule memory_op [OF assms(3) op sub, rotated]) simp
next
  case (repeated i f t d)
  have sub: "passed p \<subseteq> passed q" using passing_grows [OF repeated(2), of Idle] repeated(1,3) by (auto simp: passed_def)
  have op: "po_dedup q = dedup_step L (Probe t f) (po_dedup p)" using repeated(1,4) by simp
  obtain ops where ops: "po_dedup p = fold (dedup_step L) ops (NewDedupStore L sz ttl)"
    "\<forall>t g. Record t g \<in> set ops \<longrightarrow> g \<in> passed p" using assms(3) unfolding pool_memory_def by blast
  have "\<exists>u g. Record u g \<in> set ops \<and> flow_key g = flow_key f \<and> t \<le> u + ttl"
    using repeated(4) unfolding ops(1) by (intro dedup_only_repeats [OF ok]) simp
  then have "flow_key f \<in> flow_key ` passed q" using ops(2) sub by (metis imageI subsetD)
  moreover have "flow_key ` set (po_dropped p) \<subseteq> flow_key ` passed q"
    using assms(3) image_mono [OF sub, of flow_key] unfolding pool_memory_def by blast
  ultimately have "flow_key ` set (po_dropped q) \<subseteq> flow_key ` passed q" using repeated(1) by simp
  then show ?thesis by (rule memory_op [OF assms(3) op sub, rotated]) simp
next
  case (remember i f t)
  have sub: "passed p \<subseteq> passed q"
    using passing_grows [OF remember(2), of "Passed f"] remember(1,3) by (auto simp: passed_def)
  have f: "f \<in> passed q" using passing_new [OF remember(2), of "Passed f"] remember(1) by (simp add: passed_def)
  have op: "po_dedup q = dedup_step L (Record t f) (po_dedup p)" using remember(1) by simp
  have "flow_key ` set (po_dropped q) \<subseteq> flow_key ` passed q"
    using remember(1) by (intro memory_dropped [OF assms(3) sub]) simp
  then show ?thesis by (rule memory_op [OF assms(3) op sub, rotated]) (use f in simp)
next
  case (emit i f clk geo tenant threat identity dns)
  have "passing (po_workers p) \<subseteq> passing ((po_workers p)[i := Idle]) \<union> {f}"
    using passing_update [OF emit(2), of Idle] emit(3) by simp
  then show ?thesis
    using emit(1) by (intro memory_keeps [OF assms(3)]) (auto simp: passed_def worker_emit_def)
qed

section \<open>The property\<close>

text \<open>At rest every decoded flow has a row with its key: its own, or that of the flow it repeats.\<close>

lemma pool_at_rest:
  assumes c: "pool_counts True p" and m: "pool_memory L sz ttl p" and idle: "set (po_workers p) \<subseteq> {Idle}"
  shows "row_key ` set (po_rows p) = flow_key ` set (po_decoded p) \<and> size (held (po_workers p)) = 0
     \<and> length (po_rows p) = length (po_out p)"
proof -
  have "held ws = {#}" if "set ws \<subseteq> {Idle}" for ws using that by (induction ws) (auto simp: held_def)
  then have h: "held (po_workers p) = {#}" using idle .
  have pass: "passed p = set (po_out p)" using idle by (auto simp: passed_def passing_def)
  have rows: "map row_key (po_rows p) = map flow_key (po_out p)" using c by (simp add: pool_counts_def)
  have "set (po_decoded p) = set (po_dropped p) \<union> set (po_out p)"
    using c h unfolding pool_counts_def by (metis add_0_right set_mset_mset set_mset_union)
  moreover have "flow_key ` set (po_dropped p) \<subseteq> flow_key ` set (po_out p)"
    using m pass by (simp add: pool_memory_def)
  moreover have "row_key ` set (po_rows p) = flow_key ` set (po_out p)" using rows by (metis set_map)
  ultimately show ?thesis using h rows by (auto dest: map_eq_imp_length_eq)
qed

lemma pool_run:
  assumes "lru_ok L (perShard sz) ttl"
    and "(pool_step L unmarshal rg ty enabled True)\<^sup>*\<^sup>* (pool_start (NewDedupStore L sz ttl) n) p"
  shows "pool_counts True p" "pool_memory L sz ttl p"
  using assms(2) by (induction rule: rtranclp_induct)
    (auto intro: counts_start counts_step memory_start memory_step [OF assms(1)])

text \<open>C14. No conversation disappears in the pipeline. However the readers and any number of workers are
  interleaved and whatever the stores contain, each decoded flow is dropped as a repeat, written, or in
  the hands of a worker; the counters of received, dropped and written flows are exactly these, and each
  written flow gives one row with its 7-tuple. When the workers have come to rest, the 7-tuples of the
  rows are those of all flows received: a flow is only dropped when another one with its 7-tuple was
  written. The cache library is assumed to do what it documents.\<close>

theorem pipeline_no_conversation_lost:
  assumes "lru_ok L (perShard sz) ttl"
    and "(pool_step L unmarshal rg ty enabled True)\<^sup>*\<^sup>* (pool_start (NewDedupStore L sz ttl) n) p"
  shows "mset (po_decoded p) = mset (po_dropped p) + mset (po_out p) + held (po_workers p)
     \<and> po_count p FlowsReceived = po_count p FlowsDeduplicated + po_count p FlowsWritten + size (held (po_workers p))
     \<and> map row_key (po_rows p) = map flow_key (po_out p)
     \<and> (set (po_workers p) \<subseteq> {Idle} \<longrightarrow>
          row_key ` set (po_rows p) = flow_key ` set (po_decoded p)
          \<and> po_count p FlowsReceived = po_count p FlowsDeduplicated + length (po_rows p))"
proof -
  note c = pool_run(1) [OF assms] and m = pool_run(2) [OF assms]
  have size: "length (po_decoded p) = length (po_dropped p) + length (po_out p) + size (held (po_workers p))"
    using c unfolding pool_counts_def by (metis size_mset size_union)
  have rows: "map row_key (po_rows p) = map flow_key (po_out p)" using c by (simp add: pool_counts_def)
  have rest: "row_key ` set (po_rows p) = flow_key ` set (po_decoded p) \<and> size (held (po_workers p)) = 0
      \<and> length (po_rows p) = length (po_out p)" if "set (po_workers p) \<subseteq> {Idle}"
    using pool_at_rest [OF c m that] .
  show ?thesis using c size rows rest by (auto simp: pool_counts_def)
qed

text \<open>One worker, one cached repeat: two payloads, one row.\<close>

definition demo_flow :: FlowMessage where
  "demo_flow = noFlow\<lparr>fm_SrcAddr := ''10.0.0.1'', fm_DstAddr := ''9.9.9.9''\<rparr>"

definition no_ranger :: "nat ranger" where
  "no_ranger = \<lparr>rg_new = 0, rg_insert = (\<lambda>_ r. r), rg_containing = (\<lambda>_ _. None)\<rparr>"

theorem pipeline_no_conversation_lost_witness:
  "\<exists>p. (pool_step list_lru (\<lambda>_. Some demo_flow) no_ranger TYPE(nat) False True)\<^sup>*\<^sup>*
          (pool_start (NewDedupStore list_lru 160 (60 * second)) 1) p
     \<and> po_decoded p = [demo_flow] \<and> row_key ` set (po_rows p) = {flow_key demo_flow}"
proof -
  let ?rg = no_ranger let ?ty = "TYPE(nat)"
  define s0 where "s0 = pool_start (NewDedupStore list_lru 160 (60 * second)) 1"
  let ?step = "pool_step list_lru (\<lambda>_. Some demo_flow) ?rg ?ty False True"
  let ?e = "enrich ?rg (\<lambda>_. 0) demo_flow None None None None (None :: nat DNSStore option)"
  define p1 where "p1 = s0\<lparr>po_chan := [''x'']\<rparr>"
  define p2 where "p2 = p1\<lparr>po_chan := [], po_count := count [FlowsReceived] (po_count p1),
    po_workers := [Passed demo_flow], po_decoded := [demo_flow]\<rparr>"
  define p3 where "p3 = worker_emit True demo_flow ?e (p2\<lparr>po_workers := [Idle]\<rparr>)"
  have w: "po_workers s0 = [Idle]" "po_chan s0 = []" "po_decoded s0 = []" by (simp_all add: s0_def pool_start_def)
  have "?step s0 p1" using pool_step.read [of list_lru _ ?rg ?ty False True s0 "''x''"] w by (simp add: p1_def)
  moreover have "?step p1 p2"
    using pool_step.decode [of p1 "''x''" "[]" 0 "\<lambda>_. Some demo_flow" demo_flow list_lru ?rg ?ty False True] w
    by (simp add: p1_def p2_def)
  moreover have "?step p2 p3"
    using pool_step.emit [of 0 p2 demo_flow list_lru _ ?rg ?ty False True "\<lambda>_. 0" None None None None None]
    by (simp add: p2_def p3_def)
  ultimately have run: "?step\<^sup>*\<^sup>* s0 p3" by (meson converse_rtranclp_into_rtranclp rtranclp.rtrancl_refl)
  have "po_decoded p3 = [demo_flow]" "po_workers p3 = [Idle]" by (simp_all add: p3_def p2_def worker_emit_def)
  moreover have "lru_ok list_lru (perShard 160) (60 * second)" by (rule list_lru_ok) (simp add: perShard_def)
  note pipeline_no_conversation_lost [OF this run [unfolded s0_def]]
  ultimately show ?thesis using run unfolding s0_def by auto
qed

end
