(* ===== verification/Shutdown.thy ===== *)
theory Shutdown
  imports Pipeline BatchWriter
begin

text \<open>
  The flow path of \<open>main.go\<close> as a whole, from the first payload to the exit of the process. The
  worker pool, the batch writer and its timer goroutine run together; the signal cancels the
  context, and main waits for the readers, closes the channel, waits for the workers, drains the
  buffer and exits. The pool is that of \<open>Pipeline\<close>, the critical sections of the writer are those of
  \<open>BatchWriter\<close>; here every drain in flight belongs to the goroutine that runs it, because main
  waits for the workers and not for the timer.
\<close>

section \<open>The goroutines and their state\<close>

text \<open>Who can be inside \<open>drain\<close>.\<close>

datatype owner = Timer | Worker nat | Main

text \<open>
  Where main stands: waiting for the readers, waiting for the workers, about to make attempt \<open>i\<close> of
  the final drain, inside it or about to look at its outcome, past it with the number of rows given
  up, gone.
\<close>

datatype phase = Reading | Closing | Draining int | Checking int | Reported nat | Exited nat

text \<open>
  \<open>sv_due\<close> are the workers whose \<open>Add\<close> filled a batch and that have not called \<open>flush\<close> yet. The last
  four fields are ghosts: the rows acknowledged, rejected and cut by the cap, and whether the timer
  goroutine had left when main began the final drain.
\<close>

record ('l, 'c) server =
  sv_phase :: phase
  sv_cancelled :: bool
  sv_timer :: bool
  sv_pool :: "'l pool"
  sv_due :: "nat set"
  sv_w :: "FlowRow BatchWriter"
  sv_net :: 'c
  sv_drains :: "owner \<Rightarrow> FlowRow drainer option"
  sv_acked :: "FlowRow multiset"
  sv_malformed :: "FlowRow multiset"
  sv_overflow :: "FlowRow multiset"
  sv_alone :: bool

definition server_start :: "'l DedupStore \<Rightarrow> nat \<Rightarrow> FlowRow BatchWriter \<Rightarrow> 'c \<Rightarrow> ('l, 'c) server" where
  "server_start dedup workers w c =
     \<lparr>sv_phase = Reading, sv_cancelled = False, sv_timer = True, sv_pool = pool_start dedup workers,
      sv_due = {}, sv_w = w, sv_net = c, sv_drains = Map.empty,
      sv_acked = {#}, sv_malformed = {#}, sv_overflow = {#}, sv_alone = False\<rparr>"

definition alive :: "phase \<Rightarrow> bool" where
  "alive ph = (\<forall>n. ph \<noteq> Exited n)"

text \<open>A worker inside \<open>Add\<close> takes no other step.\<close>

definition free_worker :: "('l, 'c) server \<Rightarrow> nat \<Rightarrow> bool" where
  "free_worker s i \<longleftrightarrow> i \<notin> sv_due s \<and> sv_drains s (Worker i) = None"

definition start_drain :: "owner \<Rightarrow> FlowRow list \<Rightarrow> FlowRow BatchWriter \<Rightarrow> ('l, 'c) server \<Rightarrow> ('l, 'c) server" where
  "start_drain o' rows w s = s\<lparr>sv_w := w, sv_drains := (sv_drains s)(o' \<mapsto> Sending rows)\<rparr>"

section \<open>The steps of each goroutine\<close>

text \<open>
  The readers: a message goes on the channel until main has seen all of them return, which they do
  after the context is cancelled.
\<close>

inductive reader_step :: "('l, 'c) server \<Rightarrow> ('l, 'c) server \<Rightarrow> bool" where
  message: "sv_phase s = Reading \<Longrightarrow>
    reader_step s (s\<lparr>sv_pool := (sv_pool s)\<lparr>po_chan := po_chan (sv_pool s) @ [msg]\<rparr>\<rparr>)"
| signal: "alive (sv_phase s) \<Longrightarrow> reader_step s (s\<lparr>sv_cancelled := True\<rparr>)"

text \<open>
  A worker: a step of the pool that moves worker \<open>i\<close> only and puts nothing on the channel; the rows
  it adds go to the buffer, and a full batch makes the flush due. The flush is taken up, or turns
  out to have nothing to do.
\<close>

inductive worker_step ::
  "'l lru \<Rightarrow> (string \<Rightarrow> FlowMessage option) \<Rightarrow> 'r ranger \<Rightarrow> 'p itself \<Rightarrow> bool
     \<Rightarrow> ('l, 'c) server \<Rightarrow> ('l, 'c) server \<Rightarrow> bool"
  for L unmarshal rg ty enabled where
  work: "sv_phase s = Reading \<or> sv_phase s = Closing \<Longrightarrow> free_worker s i \<Longrightarrow> i < length (po_workers (sv_pool s)) \<Longrightarrow>
    pool_step L unmarshal rg ty enabled True (sv_pool s) q \<Longrightarrow>
    po_workers q = (po_workers (sv_pool s))[i := x] \<Longrightarrow> length (po_chan q) \<le> length (po_chan (sv_pool s)) \<Longrightarrow>
    po_rows q = po_rows (sv_pool s) @ rs \<Longrightarrow> w = fold bw_append rs (sv_w s) \<Longrightarrow>
    worker_step L unmarshal rg ty enabled s
      (s\<lparr>sv_pool := q, sv_w := w,
         sv_due := if rs \<noteq> [] \<and> bw_maxSize w \<le> length (bw_buffer w) then insert i (sv_due s) else sv_due s\<rparr>)"
| flush: "i \<in> sv_due s \<Longrightarrow> drain_take False now (sv_w s) = Some (rows, w) \<Longrightarrow>
    worker_step L unmarshal rg ty enabled s (start_drain (Worker i) rows w (s\<lparr>sv_due := sv_due s - {i}\<rparr>))"
| skip: "i \<in> sv_due s \<Longrightarrow> drain_take False now (sv_w s) = None \<Longrightarrow>
    worker_step L unmarshal rg ty enabled s (s\<lparr>sv_due := sv_due s - {i}\<rparr>)"

text \<open>
  The timer goroutine: a tick flushes; it leaves when it sees the context cancelled, but between the
  two ready cases of its \<open>select\<close> Go chooses at random, so ticks may still come first.
\<close>

inductive timer_step :: "('l, 'c) server \<Rightarrow> ('l, 'c) server \<Rightarrow> bool" where
  tick: "alive (sv_phase s) \<Longrightarrow> sv_timer s \<Longrightarrow> sv_drains s Timer = None \<Longrightarrow>
    drain_take False now (sv_w s) = Some (rows, w) \<Longrightarrow> timer_step s (start_drain Timer rows w s)"
| done_timer: "sv_cancelled s \<Longrightarrow> sv_drains s Timer = None \<Longrightarrow> timer_step s (s\<lparr>sv_timer := False\<rparr>)"

text \<open>
  Main: \<open>readerWg.Wait\<close> and \<open>close\<close>, \<open>wg.Wait\<close>, the attempts of \<open>FinalDrain(5)\<close>, the exit. Between the
  report and the exit main flushes the event buffers of the other stores.
\<close>

inductive main_step :: "('l, 'c) server \<Rightarrow> ('l, 'c) server \<Rightarrow> bool" where
  readers_gone: "sv_phase s = Reading \<Longrightarrow> sv_cancelled s \<Longrightarrow> main_step s (s\<lparr>sv_phase := Closing\<rparr>)"
| workers_gone: "sv_phase s = Closing \<Longrightarrow> po_chan (sv_pool s) = [] \<Longrightarrow> set (po_workers (sv_pool s)) \<subseteq> {Idle} \<Longrightarrow>
    \<forall>i. free_worker s i \<Longrightarrow> main_step s (s\<lparr>sv_phase := Draining 0, sv_alone := \<not> sv_timer s\<rparr>)"
| attempt: "sv_phase s = Draining i \<Longrightarrow> drain_take True now (sv_w s) = Some (rows, w) \<Longrightarrow>
    main_step s (start_drain Main rows w (s\<lparr>sv_phase := Checking i\<rparr>))"
| nothing: "sv_phase s = Draining i \<Longrightarrow> drain_take True now (sv_w s) = None \<Longrightarrow>
    main_step s (s\<lparr>sv_phase := Checking i\<rparr>)"
| again: "sv_phase s = Checking i \<Longrightarrow> sv_drains s Main = None \<Longrightarrow> bw_buffer (sv_w s) \<noteq> [] \<Longrightarrow> i < 5 - 1 \<Longrightarrow>
    main_step s (s\<lparr>sv_phase := Draining (i + 1)\<rparr>)"
| report: "sv_phase s = Checking i \<Longrightarrow> sv_drains s Main = None \<Longrightarrow> bw_buffer (sv_w s) = [] \<or> 5 - 1 \<le> i \<Longrightarrow>
    main_step s (s\<lparr>sv_phase := Reported (length (bw_buffer (sv_w s)))\<rparr>)"
| exit: "sv_phase s = Reported n \<Longrightarrow> main_step s (s\<lparr>sv_phase := Exited n\<rparr>)"

text \<open>A drain in flight, whoever runs it: the loop over the chunks, as in \<open>bw_step\<close>.\<close>

inductive drain_step :: "('c, FlowRow) batch_driver \<Rightarrow> ('l, 'c) server \<Rightarrow> ('l, 'c) server \<Rightarrow> bool"
  for d :: "('c, FlowRow) batch_driver" where
  fin: "alive (sv_phase s) \<Longrightarrow> sv_drains s o' = Some (Sending []) \<Longrightarrow>
    drain_step d s (s\<lparr>sv_drains := (sv_drains s)(o' := None)\<rparr>)"
| sent: "alive (sv_phase s) \<Longrightarrow> sv_drains s o' = Some (Sending rows) \<Longrightarrow> rows \<noteq> [] \<Longrightarrow>
    chunk = take (bw_maxSize (sv_w s)) rows \<Longrightarrow> sendToClickHouse d chunk (sv_net s) = ((bad, None), c1) \<Longrightarrow>
    drain_step d s (s\<lparr>sv_w := count_chunk (length chunk) (count_malformed bad (sv_w s)), sv_net := c1,
      sv_drains := (sv_drains s)(o' \<mapsto> Sending (drop (bw_maxSize (sv_w s)) rows)),
      sv_acked := sv_acked s + mset (filter (Append d) chunk), sv_malformed := sv_malformed s + mset bad\<rparr>)"
| failed: "alive (sv_phase s) \<Longrightarrow> sv_drains s o' = Some (Sending rows) \<Longrightarrow> rows \<noteq> [] \<Longrightarrow>
    chunk = take (bw_maxSize (sv_w s)) rows \<Longrightarrow>
    sendToClickHouse d chunk (sv_net s) = ((bad, Some retryable), c1) \<Longrightarrow>
    drain_step d s (s\<lparr>sv_w := count_malformed bad (sv_w s), sv_net := c1,
      sv_drains := (sv_drains s)(o' \<mapsto> Requeue (retryable @ drop (bw_maxSize (sv_w s)) rows)),
      sv_malformed := sv_malformed s + mset bad\<rparr>)"
| requeue: "alive (sv_phase s) \<Longrightarrow> sv_drains s o' = Some (Requeue unsent) \<Longrightarrow> b = unsent @ bw_buffer (sv_w s) \<Longrightarrow>
    drain_step d s (s\<lparr>sv_w := drain_requeue unsent now (sv_w s), sv_drains := (sv_drains s)(o' := None),
      sv_overflow := sv_overflow s + mset (take (length b - bw_maxBuffer (sv_w s)) b)\<rparr>)"
| world: "drain_step d s (s\<lparr>sv_net := c1\<rparr>)"

text \<open>Any of them.\<close>

definition server_step ::
  "'l lru \<Rightarrow> (string \<Rightarrow> FlowMessage option) \<Rightarrow> 'r ranger \<Rightarrow> 'p itself \<Rightarrow> bool \<Rightarrow> ('c, FlowRow) batch_driver
     \<Rightarrow> ('l, 'c) server \<Rightarrow> ('l, 'c) server \<Rightarrow> bool" where
  "server_step L unmarshal rg ty enabled d s s' \<longleftrightarrow>
     reader_step s s' \<or> worker_step L unmarshal rg ty enabled s s' \<or> timer_step s s' \<or> main_step s s'
     \<or> drain_step d s s'"

section \<open>The drains in flight are those of the writer's machine\<close>

definition drains_of :: "(owner \<Rightarrow> FlowRow drainer option) \<Rightarrow> FlowRow drainer multiset" where
  "drains_of D = image_mset (\<lambda>o'. the (D o')) (mset_set (dom D))"

definition sys_of :: "('l, 'c) server \<Rightarrow> ('c, FlowRow) bw_sys" where
  "sys_of s = \<lparr>sy_w = sv_w s, sy_net = sv_net s, sy_drains = drains_of (sv_drains s),
     sy_added = mset (po_rows (sv_pool s)), sy_acked = sv_acked s, sy_malformed = sv_malformed s,
     sy_overflow = sv_overflow s\<rparr>"

lemma drains_of_empty [simp]: "drains_of Map.empty = {#}"
  by (simp add: drains_of_def)

lemma drains_of_insert:
  assumes "finite (dom D)"
  shows "drains_of (D(o' \<mapsto> x)) = add_mset x (drains_of (D(o' := None)))"
proof -
  have "mset_set (insert o' (dom D)) = add_mset o' (mset_set (dom D - {o'}))"
    using assms by (metis finite_Diff insertI1 insert_Diff_single mset_set.insert_remove)
  moreover have "image_mset (\<lambda>q. the ((D(o' \<mapsto> x)) q)) (mset_set (dom D - {o'}))
      = image_mset (\<lambda>q. the ((D(o' := None)) q)) (mset_set (dom D - {o'}))"
    using assms by (intro image_mset_cong) simp
  ultimately show ?thesis by (simp add: drains_of_def)
qed

lemma drains_of_remove:
  assumes "finite (dom D)" "D o' = Some x"
  shows "drains_of D = add_mset x (drains_of (D(o' := None)))"
  using drains_of_insert [OF assms(1), of o' x] assms(2) by (simp add: fun_upd_idem)

lemma drains_of_update:
  assumes "finite (dom D)" "D o' = Some x"
  shows "drains_of (D(o' \<mapsto> y)) = add_mset y (drains_of (D(o' := None)))"
  using drains_of_insert [OF assms(1)] .

lemma drains_of_start:
  assumes "finite (dom D)" "D o' = None"
  shows "drains_of (D(o' \<mapsto> y)) = add_mset y (drains_of D)"
  using drains_of_insert [OF assms(1), of o' y] assms(2) by (simp add: fun_upd_idem)

text \<open>Each step of a goroutine is a run of the writer's machine.\<close>

lemma adds_run:
  "(bw_step d)\<^sup>*\<^sup>* y (y\<lparr>sy_w := fold bw_append rs (sy_w y), sy_added := sy_added y + mset rs\<rparr>)"
proof (induction rs arbitrary: y)
  case Nil
  then show ?case by simp
next
  case (Cons r rs)
  let ?z = "y\<lparr>sy_w := bw_append r (sy_w y), sy_added := add_mset r (sy_added y)\<rparr>"
  have "bw_step d y ?z" by (rule bw_step.add)
  then show ?case using Cons [of ?z] by (simp add: converse_rtranclp_into_rtranclp)
qed

lemma start_drain_run:
  assumes "finite (dom (sv_drains s))" "sv_drains s o' = None" "drain_take force now (sv_w s) = Some (rows, w)"
  shows "(bw_step d)\<^sup>*\<^sup>* (sys_of s) (sys_of (start_drain o' rows w s))"
  using bw_step.take [of force now "sys_of s" rows w d] assms
  by (simp add: sys_of_def start_drain_def drains_of_start r_into_rtranclp)

lemma drain_step_run:
  assumes "drain_step d s s'" "finite (dom (sv_drains s))"
  shows "(bw_step d)\<^sup>*\<^sup>* (sys_of s) (sys_of s')"
  using assms(1)
proof cases
  case (fin o')
  then show ?thesis
    using bw_step.fin [of "sys_of s" "drains_of ((sv_drains s)(o' := None))" d] drains_of_remove [OF assms(2) fin(3)]
    by (simp add: sys_of_def r_into_rtranclp)
next
  case (sent o' rows chunk bad c1)
  then show ?thesis
    using bw_step.sent [of "sys_of s" rows "drains_of ((sv_drains s)(o' := None))" chunk d bad c1]
      drains_of_remove [OF assms(2) sent(3)] drains_of_update [OF assms(2) sent(3)]
    by (simp add: sys_of_def r_into_rtranclp)
next
  case (failed o' rows chunk bad retryable c1)
  then show ?thesis
    using bw_step.failed [of "sys_of s" rows "drains_of ((sv_drains s)(o' := None))" chunk d bad retryable c1]
      drains_of_remove [OF assms(2) failed(3)] drains_of_update [OF assms(2) failed(3)]
    by (simp add: sys_of_def r_into_rtranclp)
next
  case (requeue o' unsent b now)
  then show ?thesis
    using bw_step.requeue [of "sys_of s" unsent "drains_of ((sv_drains s)(o' := None))" b d now]
      drains_of_remove [OF assms(2) requeue(3)]
    by (simp add: sys_of_def r_into_rtranclp)
next
  case (world c1)
  then show ?thesis using bw_step.world [of d "sys_of s" c1] by (simp add: sys_of_def r_into_rtranclp)
qed

section \<open>What holds at every moment\<close>

text \<open>After \<open>wg.Wait\<close> nothing is left with the workers, and main drains only when it says so.\<close>

definition quiet :: "('l, 'c) server \<Rightarrow> bool" where
  "quiet s \<longleftrightarrow> po_chan (sv_pool s) = [] \<and> set (po_workers (sv_pool s)) \<subseteq> {Idle} \<and> (\<forall>i. free_worker s i)"

definition phase_ok :: "('l, 'c) server \<Rightarrow> bool" where
  "phase_ok s \<longleftrightarrow>
     (case sv_phase s of
        Reading \<Rightarrow> True | Closing \<Rightarrow> True | Draining i \<Rightarrow> quiet s \<and> i < 5 | Checking i \<Rightarrow> quiet s \<and> i < 5
      | Reported n \<Rightarrow> quiet s | Exited n \<Rightarrow> quiet s)
     \<and> ((\<forall>i. sv_phase s \<noteq> Checking i) \<longrightarrow> sv_drains s Main = None)"

definition timer_ok :: "('l, 'c) server \<Rightarrow> bool" where
  "timer_ok s \<longleftrightarrow> (sv_timer s \<or> sv_drains s Timer = None)
     \<and> (sv_alone s \<longrightarrow> \<not> sv_timer s
          \<and> (\<forall>n. sv_phase s = Reported n \<or> sv_phase s = Exited n \<longrightarrow> n = length (bw_buffer (sv_w s))))"

definition server_ok :: "('l, 'c) server \<Rightarrow> bool" where
  "server_ok s \<longleftrightarrow> finite (dom (sv_drains s)) \<and> (\<forall>i\<in>sv_due s. sv_drains s (Worker i) = None)
     \<and> phase_ok s \<and> timer_ok s"

lemmas server_defs = server_ok_def phase_ok_def timer_ok_def quiet_def free_worker_def

lemma server_ok_start: "server_ok (server_start dd n w c)"
  by (simp add: server_defs server_start_def)

lemma quiet_frame:
  "sv_pool s' = sv_pool s \<Longrightarrow> sv_due s' = sv_due s \<Longrightarrow> \<forall>i. sv_drains s' (Worker i) = sv_drains s (Worker i)
     \<Longrightarrow> quiet s' = quiet s"
  by (simp add: quiet_def free_worker_def)

lemma quiet_updates [simp]:
  "quiet (s\<lparr>sv_phase := ph\<rparr>) = quiet s" "quiet (s\<lparr>sv_phase := ph, sv_alone := b\<rparr>) = quiet s"
  "quiet (s\<lparr>sv_cancelled := b\<rparr>) = quiet s" "quiet (s\<lparr>sv_timer := b\<rparr>) = quiet s"
  "quiet (s\<lparr>sv_w := w, sv_drains := (sv_drains s)(Timer \<mapsto> x)\<rparr>) = quiet s"
  by (simp_all add: quiet_def free_worker_def start_drain_def)

lemmas ok_defs = server_ok_def phase_ok_def timer_ok_def

lemma server_ok_reader:
  assumes "reader_step s s'" "server_ok s"
  shows "server_ok s'"
  using assms(1) by cases (use assms(2) in \<open>auto simp: ok_defs split: phase.splits\<close>)

lemma server_ok_worker:
  assumes "worker_step L unmarshal rg ty enabled s s'" "server_ok s"
  shows "server_ok s'"
  using assms(1)
proof cases
  case (work i q x rs w)
  then show ?thesis using assms(2) by (auto simp: server_defs)
next
  case (flush i now rows w)
  then show ?thesis using assms(2) by (auto simp: server_defs start_drain_def split: phase.splits)
next
  case (skip i now)
  then show ?thesis using assms(2) by (auto simp: server_defs split: phase.splits)
qed

lemma server_ok_timer:
  assumes "timer_step s s'" "server_ok s"
  shows "server_ok s'"
  using assms(1)
proof cases
  case (tick now rows w)
  then show ?thesis using assms(2)
    by (cases "sv_phase s") (simp_all add: ok_defs start_drain_def alive_def)
next
  case done_timer
  then show ?thesis using assms(2) by (cases "sv_phase s") (simp_all add: ok_defs)
qed

lemma server_ok_main:
  assumes "main_step s s'" "server_ok s"
  shows "server_ok s'"
  using assms(1)
proof cases
  case workers_gone
  then have "quiet s" by (simp add: quiet_def)
  then show ?thesis using assms(2) workers_gone by (auto simp: ok_defs)
next
  case (attempt i now rows w)
  have "quiet s'" using assms(2) attempt quiet_frame [of s' s]
    by (simp add: server_ok_def phase_ok_def start_drain_def)
  then show ?thesis using assms(2) attempt by (auto simp: ok_defs start_drain_def)
qed (use assms(2) in \<open>simp_all add: ok_defs\<close>)

text \<open>While main is past the final drain and the timer is gone, nobody is left to drain.\<close>

lemma drain_frame:
  assumes "drain_step d s s'"
  shows "sv_phase s' = sv_phase s" "sv_pool s' = sv_pool s" "sv_due s' = sv_due s" "sv_timer s' = sv_timer s"
    "sv_alone s' = sv_alone s"
    "sv_drains s' = sv_drains s \<and> bw_buffer (sv_w s') = bw_buffer (sv_w s)
     \<or> (\<exists>o' x y. alive (sv_phase s) \<and> sv_drains s o' = Some x \<and> sv_drains s' = (sv_drains s)(o' := y))"
  using assms by (cases; auto)+

lemma server_ok_drain:
  assumes "drain_step d s s'" "server_ok s"
  shows "server_ok s'"
  using drain_frame(6) [OF assms(1)]
proof (elim disjE exE conjE)
  assume same: "sv_drains s' = sv_drains s" "bw_buffer (sv_w s') = bw_buffer (sv_w s)"
  then show ?thesis using assms(2) drain_frame(1-5) [OF assms(1)] quiet_frame [of s' s]
    by (cases "sv_phase s") (simp_all add: ok_defs)
next
  fix o' x y
  assume up: "alive (sv_phase s)" "sv_drains s o' = Some x" "sv_drains s' = (sv_drains s)(o' := y)"
  have q: "quiet s' = quiet s" if "quiet s"
  proof (rule quiet_frame)
    show "\<forall>i. sv_drains s' (Worker i) = sv_drains s (Worker i)"
      using that up(2,3) by (auto simp: quiet_def free_worker_def)
  qed (use drain_frame(2,3) [OF assms(1)] in simp_all)
  have main: "\<exists>i. sv_phase s = Checking i" if "o' = Main"
    using that up(2) assms(2) by (auto simp: server_ok_def phase_ok_def)
  have "\<not> sv_alone s" if "sv_phase s = Reported n" for n
  proof
    assume "sv_alone s"
    then have "sv_drains s Timer = None" "quiet s" "sv_drains s Main = None"
      using assms(2) that by (auto simp: ok_defs)
    then show False using up(2) by (cases o') (auto simp: quiet_def free_worker_def)
  qed
  then have "timer_ok s'" using assms(2) up drain_frame(1,4,5) [OF assms(1)]
    by (auto simp: server_ok_def timer_ok_def alive_def)
  moreover have "phase_ok s'" using assms(2) drain_frame(1) [OF assms(1)] q main up(3)
    by (cases "sv_phase s") (auto simp: server_ok_def phase_ok_def)
  moreover have "\<forall>i\<in>sv_due s'. sv_drains s' (Worker i) = None"
    using assms(2) up(2,3) drain_frame(3) [OF assms(1)] by (auto simp: server_ok_def)
  ultimately show ?thesis using assms(2) up(3) by (simp add: server_ok_def)
qed

lemma server_ok_step: "server_step L unmarshal rg ty enabled d s s' \<Longrightarrow> server_ok s \<Longrightarrow> server_ok s'"
  unfolding server_step_def
  by (auto intro: server_ok_reader server_ok_worker server_ok_timer server_ok_main server_ok_drain)

section \<open>The two machines inside\<close>

lemma pool_step_run:
  assumes "server_step L unmarshal rg ty enabled d s s'"
  shows "(pool_step L unmarshal rg ty enabled True)\<^sup>*\<^sup>* (sv_pool s) (sv_pool s')"
proof -
  have "sv_pool s' = sv_pool s \<or> pool_step L unmarshal rg ty enabled True (sv_pool s) (sv_pool s')"
    using assms unfolding server_step_def
    by (auto elim!: reader_step.cases worker_step.cases timer_step.cases main_step.cases drain_step.cases
        simp: start_drain_def intro: pool_step.read)
  then show ?thesis by auto
qed

lemma writer_step_run:
  assumes "server_step L unmarshal rg ty enabled d s s'" "server_ok s"
  shows "(bw_step d)\<^sup>*\<^sup>* (sys_of s) (sys_of s')"
proof -
  have fin: "finite (dom (sv_drains s))" using assms(2) by (simp add: server_ok_def)
  consider "reader_step s s'" | "worker_step L unmarshal rg ty enabled s s'" | "timer_step s s'" | "main_step s s'"
    | "drain_step d s s'" using assms(1) unfolding server_step_def by blast
  then show ?thesis
  proof cases
    case 1
    then show ?thesis by cases (simp_all add: sys_of_def)
  next
    case 2
    then show ?thesis
    proof cases
      case (work i q x rs w)
      then show ?thesis using adds_run [of d "sys_of s" rs] by (simp add: sys_of_def)
    next
      case (flush i now rows w)
      have "sys_of s = sys_of (s\<lparr>sv_due := sv_due s - {i}\<rparr>)" by (simp add: sys_of_def)
      moreover have "sv_drains s (Worker i) = None" using assms(2) flush by (simp add: server_ok_def)
      ultimately show ?thesis using flush fin start_drain_run [of "s\<lparr>sv_due := sv_due s - {i}\<rparr>" "Worker i"]
        by simp
    next
      case (skip i now)
      then show ?thesis by (simp add: sys_of_def)
    qed
  next
    case 3
    then show ?thesis
      by cases (use fin in \<open>auto simp: sys_of_def intro: start_drain_run [unfolded sys_of_def]\<close>)
  next
    case 4
    then show ?thesis
    proof cases
      case (attempt i now rows w)
      have "sys_of s = sys_of (s\<lparr>sv_phase := Checking i\<rparr>)" by (simp add: sys_of_def)
      moreover have "sv_drains s Main = None" using assms(2) attempt by (simp add: server_ok_def phase_ok_def)
      ultimately show ?thesis using attempt fin start_drain_run [of "s\<lparr>sv_phase := Checking i\<rparr>" Main]
        by simp
    qed (simp_all add: sys_of_def)
  next
    case 5
    then show ?thesis using drain_step_run fin by blast
  qed
qed

lemma server_run:
  assumes "(server_step L unmarshal rg ty enabled d)\<^sup>*\<^sup>* (server_start dd n w c) s"
  shows "server_ok s \<and> (bw_step d)\<^sup>*\<^sup>* (bw_start w c) (sys_of s)
    \<and> (pool_step L unmarshal rg ty enabled True)\<^sup>*\<^sup>* (pool_start dd n) (sv_pool s)"
  using assms
proof (induction rule: rtranclp_induct)
  case base
  have "sys_of (server_start dd n w c) = bw_start w c"
    by (simp add: sys_of_def server_start_def bw_start_def pool_start_def)
  then show ?case using server_ok_start [of dd n w c] by (simp add: server_start_def)
next
  case (step s s')
  then show ?case using server_ok_step writer_step_run [of L unmarshal rg ty enabled d s s'] pool_step_run
    by (meson rtranclp_trans)
qed

section \<open>What the exit leaves behind\<close>

text \<open>Once nothing but the timer goroutine can hold rows, what is in flight is its drain.\<close>

lemma timer_flight:
  assumes "quiet s" "sv_drains s Main = None"
  shows "dom (sv_drains s) \<subseteq> {Timer}"
    and "in_flight (sys_of s) = (case sv_drains s Timer of None \<Rightarrow> {#} | Some t \<Rightarrow> mset (drainer_rows t))"
proof -
  have own: "sv_drains s o' = None" if "o' \<noteq> Timer" for o'
    using assms that by (cases o') (auto simp: quiet_def free_worker_def)
  show "dom (sv_drains s) \<subseteq> {Timer}"
  proof
    fix o' assume "o' \<in> dom (sv_drains s)"
    then show "o' \<in> {Timer}" using own by (cases "o' = Timer") auto
  qed
  show "in_flight (sys_of s) = (case sv_drains s Timer of None \<Rightarrow> {#} | Some t \<Rightarrow> mset (drainer_rows t))"
  proof (cases "sv_drains s Timer")
    case None
    then have "sv_drains s = Map.empty" using own by (metis ext)
    then show ?thesis using None by (simp add: in_flight_def sys_of_def)
  next
    case (Some t)
    have "sv_drains s = [Timer \<mapsto> t]" using own Some by (intro ext) simp
    then show ?thesis by (simp add: in_flight_def sys_of_def drains_of_def)
  qed
qed


text \<open>A server with one worker, one flow, and a driver that accepts everything.\<close>

definition yes_driver :: "(unit, FlowRow) batch_driver" where
  "yes_driver = \<lparr>PrepareBatch = (\<lambda>c. (True, c)), Append = (\<lambda>_. True), Send = (\<lambda>_ c. (True, c))\<rparr>"

definition demo_step :: "(list_cache, unit) server \<Rightarrow> (list_cache, unit) server \<Rightarrow> bool" where
  "demo_step = server_step list_lru (\<lambda>_. Some demo_flow) no_ranger TYPE(nat) False yes_driver"

definition demo_server :: "(list_cache, unit) server" where
  "demo_server = server_start (NewDedupStore list_lru 160 (60 * second)) 1 NewBatchWriter ()"

lemma demo_steps:
  "reader_step s s' \<Longrightarrow> demo_step s s'" "timer_step s s' \<Longrightarrow> demo_step s s'" "main_step s s' \<Longrightarrow> demo_step s s'"
  "drain_step yes_driver s s' \<Longrightarrow> demo_step s s'"
  "worker_step list_lru (\<lambda>_. Some demo_flow) no_ranger TYPE(nat) False s s' \<Longrightarrow> demo_step s s'"
  by (simp_all add: demo_step_def server_step_def)

lemma demo_four:
  "demo_step s s1 \<Longrightarrow> demo_step s1 s2 \<Longrightarrow> demo_step s2 s3 \<Longrightarrow> demo_step s3 s4 \<Longrightarrow> demo_step\<^sup>*\<^sup>* s s4"
  by (meson converse_rtranclp_into_rtranclp rtranclp.rtrancl_refl)

text \<open>The flow is read, decoded and enriched, its row is in the buffer, and the signal has come.\<close>

definition served :: "FlowRow \<Rightarrow> (list_cache, unit) server \<Rightarrow> bool" where
  "served r s \<longleftrightarrow> sv_phase s = Reading \<and> sv_cancelled s \<and> sv_timer s \<and> po_chan (sv_pool s) = []
     \<and> po_workers (sv_pool s) = [Idle] \<and> po_rows (sv_pool s) = [r] \<and> sv_due s = {}
     \<and> sv_w s = NewBatchWriter\<lparr>bw_buffer := [r]\<rparr> \<and> sv_drains s = Map.empty \<and> sv_acked s = {#}"

lemma demo_served: "\<exists>r s. demo_step\<^sup>*\<^sup>* demo_server s \<and> served r s"
proof -
  let ?s0 = demo_server
  let ?e = "enrich no_ranger (\<lambda>_. 0) demo_flow None None None None (None :: nat DNSStore option)"
  let ?r = "toFlowRow (fst ?e)"
  let ?s1 = "?s0\<lparr>sv_pool := (sv_pool ?s0)\<lparr>po_chan := [''x'']\<rparr>\<rparr>"
  let ?p2 = "(sv_pool ?s1)\<lparr>po_chan := [], po_count := count [FlowsReceived] (po_count (sv_pool ?s1)),
    po_workers := [Passed demo_flow], po_decoded := [demo_flow]\<rparr>"
  let ?s2 = "?s1\<lparr>sv_pool := ?p2\<rparr>"
  let ?p3 = "worker_emit True demo_flow ?e (?p2\<lparr>po_workers := [Idle]\<rparr>)"
  let ?s3 = "?s2\<lparr>sv_pool := ?p3, sv_w := bw_append ?r (sv_w ?s2)\<rparr>"
  let ?s4 = "?s3\<lparr>sv_cancelled := True\<rparr>"
  note init = demo_server_def server_start_def pool_start_def
  have a: "reader_step ?s0 ?s1" using reader_step.message [of ?s0 "''x''"] by (simp add: init)
  have b: "worker_step list_lru (\<lambda>_. Some demo_flow) no_ranger TYPE(nat) False ?s1 ?s2"
  proof -
    have "pool_step list_lru (\<lambda>_. Some demo_flow) no_ranger TYPE(nat) False True (sv_pool ?s1) ?p2"
      using pool_step.decode [of "sv_pool ?s1" "''x''" "[]" 0 "\<lambda>_. Some demo_flow" demo_flow list_lru no_ranger "TYPE(nat)" False True]
      by (simp add: init)
    then show ?thesis
      using worker_step.work [of ?s1 0 list_lru "\<lambda>_. Some demo_flow" no_ranger "TYPE(nat)" False ?p2 "Passed demo_flow" "[]"]
      by (simp add: init free_worker_def)
  qed
  have c: "worker_step list_lru (\<lambda>_. Some demo_flow) no_ranger TYPE(nat) False ?s2 ?s3"
  proof -
    have "pool_step list_lru (\<lambda>_. Some demo_flow) no_ranger TYPE(nat) False True (sv_pool ?s2) ?p3"
      using pool_step.emit [of 0 "sv_pool ?s2" demo_flow list_lru _ no_ranger "TYPE(nat)" False True "\<lambda>_. 0" None None None None None]
      by (simp add: init)
    then show ?thesis
      using worker_step.work [of ?s2 0 list_lru "\<lambda>_. Some demo_flow" no_ranger "TYPE(nat)" False ?p3 Idle "[?r]"]
      by (simp add: init free_worker_def worker_emit_def bw_append_def NewBatchWriter_def)
  qed
  have e: "reader_step ?s3 ?s4" using reader_step.signal [of ?s3] by (simp add: init alive_def)
  have "demo_step\<^sup>*\<^sup>* ?s0 ?s4"
    by (rule demo_four [OF demo_steps(1) [OF a] demo_steps(5) [OF b] demo_steps(5) [OF c] demo_steps(1) [OF e]])
  moreover have "served ?r ?s4"
    by (simp add: served_def init worker_emit_def bw_append_def NewBatchWriter_def)
  ultimately show ?thesis by blast
qed


text \<open>
  Main does not wait for the timer goroutine. When a tick has just taken the buffer, the final drain
  finds it empty, main reports nothing lost and exits, and the rows of the flush die with the process.
\<close>

theorem shutdown_timer_race:
  "\<exists>s r. demo_step\<^sup>*\<^sup>* demo_server s \<and> sv_phase s = Exited 0 \<and> po_rows (sv_pool s) = [r]
     \<and> sv_acked s = {#} \<and> bw_buffer (sv_w s) = [] \<and> sv_drains s Timer = Some (Sending [r])"
proof -
  obtain r s0 where run: "demo_step\<^sup>*\<^sup>* demo_server s0" and z: "served r s0" using demo_served by blast
  let ?s1 = "start_drain Timer [r] NewBatchWriter s0"
  let ?s2 = "?s1\<lparr>sv_phase := Closing\<rparr>"
  let ?s3 = "?s2\<lparr>sv_phase := Draining 0, sv_alone := False\<rparr>"
  let ?s4 = "?s3\<lparr>sv_phase := Checking 0\<rparr>"
  let ?s5 = "?s4\<lparr>sv_phase := Reported 0\<rparr>"
  let ?s6 = "?s5\<lparr>sv_phase := Exited 0\<rparr>"
  note z' = z [unfolded served_def]
  have "timer_step s0 ?s1"
    using timer_step.tick [of s0 0 "[r]" NewBatchWriter] z' by (simp add: drain_take_def NewBatchWriter_def alive_def zeroTime_def)
  moreover have "main_step ?s1 ?s2" using z' by (intro main_step.readers_gone) (auto simp: start_drain_def)
  moreover have "main_step ?s2 ?s3"
    using main_step.workers_gone [of ?s2] z' by (simp add: free_worker_def start_drain_def)
  moreover have "main_step ?s3 ?s4"
    by (rule main_step.nothing [of _ _ 0]) (simp_all add: drain_take_def start_drain_def NewBatchWriter_def)
  moreover have "main_step ?s4 ?s5"
    using main_step.report [of ?s4 0] z' by (simp add: start_drain_def NewBatchWriter_def)
  moreover have "main_step ?s5 ?s6" by (rule main_step.exit) simp
  ultimately have "demo_step\<^sup>*\<^sup>* s0 ?s6"
    by (meson demo_steps(1-4) converse_rtranclp_into_rtranclp rtranclp.rtrancl_refl)
  with run have "demo_step\<^sup>*\<^sup>* demo_server ?s6" by (rule rtranclp_trans)
  then show ?thesis using z' by (intro exI [of _ ?s6] exI [of _ r]) (simp add: start_drain_def NewBatchWriter_def)
qed

end
