(* ===== verification/Startup.thy ===== *)
theory Startup
  imports Wiring Geo Tenant Threat Dedup BatchWriter
begin

text \<open>
  The first half of \<open>main\<close> in \<open>main.go\<close>: which services run, from the environment and the outcome of
  opening each of them. Location, tenants, threat feed and ClickHouse are optional, so a failure
  leaves that one off; identity and DNS are as in \<open>Wiring\<close>. What opens a database, a file, a feed or
  a connection is an argument.
\<close>

section \<open>The optional stores\<close>

text \<open>\<open>NewTenantStore\<close>: the trie of the new store is nil until \<open>load\<close> sets it, and with an error there is no store.\<close>

definition NewTenantStore ::
  "'r ranger \<Rightarrow> (string \<Rightarrow> tenantConfig option) \<Rightarrow> string option \<Rightarrow> 'r TenantStore option" where
  "NewTenantStore rg yaml data =
     (case tenant_load rg yaml data \<lparr>ts_ranger = rg_new rg\<rparr> of (ok, s) \<Rightarrow> if ok then Some s else None)"

definition geo_wiring ::
  "(string \<Rightarrow> city_db option) \<Rightarrow> (string \<Rightarrow> asn_db option) \<Rightarrow> environ \<Rightarrow> GeoStore option" where
  "geo_wiring openCity openASN env =
     (let cityPath = env ''GEOIP_CITY_PATH'';
          asnPath = env ''GEOIP_ASN_PATH''
      in if cityPath \<noteq> '''' \<and> asnPath \<noteq> '''' then NewGeoStore openCity openASN cityPath asnPath else None)"

definition tenant_wiring ::
  "'r ranger \<Rightarrow> (string \<Rightarrow> tenantConfig option) \<Rightarrow> (string \<Rightarrow> string option) \<Rightarrow> environ \<Rightarrow> 'r TenantStore option" where
  "tenant_wiring rg yaml readFile env =
     (let tenantPath = env ''TENANT_CONFIG_PATH''
      in if tenantPath \<noteq> '''' then NewTenantStore rg yaml (readFile tenantPath) else None)"

definition defaultThreatFeedURL :: string where
  "defaultThreatFeedURL = ''https://feodotracker.abuse.ch/downloads/ipblocklist.csv''"

definition threat_wiring :: "(string \<Rightarrow> http_response option) \<Rightarrow> environ \<Rightarrow> ThreatStore option" where
  "threat_wiring httpGet env =
     (let feedURL = env ''THREAT_FEED_URL'';
          feedURL = (if feedURL = '''' then defaultThreatFeedURL else feedURL)
      in NewThreatStore (httpGet feedURL))"

text \<open>\<open>connect\<close>: the connection opens, answers a ping and takes the schema.\<close>

definition writer_wiring ::
  "(string \<Rightarrow> string \<Rightarrow> string \<Rightarrow> string \<Rightarrow> bool) \<Rightarrow> environ \<Rightarrow> FlowRow BatchWriter option" where
  "writer_wiring connect env =
     (let chAddr = env ''CLICKHOUSE_ADDR'';
          chAddr = (if chAddr = '''' then ''localhost:9000'' else chAddr)
      in if connect chAddr (getenv env ''CLICKHOUSE_DB'' ''default'') (getenv env ''CLICKHOUSE_USER'' ''default'')
              (env ''CLICKHOUSE_PASSWORD'')
         then Some NewBatchWriter else None)"

section \<open>The start of the process\<close>

record ('r, 'l) services =
  sr_geo :: "GeoStore option"
  sr_tenant :: "'r TenantStore option"
  sr_threat :: "ThreatStore option"
  sr_writer :: "FlowRow BatchWriter option"
  sr_identity :: "IdentityStore option"
  sr_dns :: "dns_built option"
  sr_dedup :: "'l DedupStore"
  sr_dedupEnabled :: bool
  sr_workers :: nat

text \<open>What lies outside the program.\<close>

record 'r outside =
  out_openCity :: "string \<Rightarrow> city_db option"
  out_openASN :: "string \<Rightarrow> asn_db option"
  out_ranger :: "'r ranger"
  out_yaml :: "string \<Rightarrow> tenantConfig option"
  out_readFile :: "string \<Rightarrow> string option"
  out_httpGet :: "string \<Rightarrow> http_response option"
  out_connect :: "string \<Rightarrow> string \<Rightarrow> string \<Rightarrow> string \<Rightarrow> bool"
  out_hmac :: "string \<Rightarrow> string \<Rightarrow> byte list"
  out_parseDuration :: "string \<Rightarrow> duration option"
  out_zones :: "string \<Rightarrow> location option"
  out_now :: time
  out_numCPU :: int

fun store_of :: "'a wiring \<Rightarrow> 'a option" where
  "store_of (Enabled s) = Some s"
| "store_of _ = None"

text \<open>\<open>None\<close> is a process that ended before it read the first flow.\<close>

definition startup :: "'l lru \<Rightarrow> 'r outside \<Rightarrow> environ \<Rightarrow> ('r, 'l) services option" where
  "startup L out env =
     (let geo = geo_wiring (out_openCity out) (out_openASN out) env;
          tenant = tenant_wiring (out_ranger out) (out_yaml out) (out_readFile out) env;
          threat = threat_wiring (out_httpGet out) env;
          writer = writer_wiring (out_connect out) env;
          identity = identity_wiring (out_hmac out) (out_parseDuration out) (out_zones out) (out_readFile out) env
                       (writer \<noteq> None)
      in if identity = Exit then None
         else
           let dns = dns_wiring (out_zones out) (out_now out) env (writer \<noteq> None)
           in if dns = Exit then None
              else
                let (size', ttl) = dedup_config env
                in case worker_pool env (out_numCPU out) of
                     None \<Rightarrow> None
                   | Some (workers, _) \<Rightarrow> Some
                       \<lparr>sr_geo = geo, sr_tenant = tenant, sr_threat = threat, sr_writer = writer,
                        sr_identity = store_of identity, sr_dns = store_of dns,
                        sr_dedup = NewDedupStore L size' ttl, sr_dedupEnabled = dedup_enabled env,
                        sr_workers = workers\<rparr>)"

section \<open>What the start promises\<close>

text \<open>
  The process ends only on a contradiction or an error of the identity or the DNS settings, or on a
  negative number of workers; nothing that is unreachable or does not load stops it.
\<close>

theorem startup_fails_open:
  "startup L out env = None \<longleftrightarrow>
     identity_wiring (out_hmac out) (out_parseDuration out) (out_zones out) (out_readFile out) env
        (writer_wiring (out_connect out) env \<noteq> None) = Exit
     \<or> dns_wiring (out_zones out) (out_now out) env (writer_wiring (out_connect out) env \<noteq> None) = Exit
     \<or> intEnv env ''ENRICH_WORKERS'' (out_numCPU out) < 0"
proof -
  have "worker_pool env (out_numCPU out) = None \<longleftrightarrow> intEnv env ''ENRICH_WORKERS'' (out_numCPU out) < 0"
    by (simp add: worker_pool_def Let_def)
  then show ?thesis unfolding startup_def Let_def by (auto split: prod.splits option.splits)
qed

text \<open>With nothing set the program runs: no store but the feed, and the writer when it connects.\<close>

theorem startup_bare:
  assumes "\<And>v. env v = ''''" "0 \<le> out_numCPU out"
  shows "\<exists>s. startup L out env = Some s \<and> sr_geo s = None \<and> sr_tenant s = None \<and> sr_identity s = None
    \<and> sr_dns s = None \<and> sr_dedupEnabled s
    \<and> (sr_writer s = None \<longleftrightarrow> \<not> out_connect out ''localhost:9000'' ''default'' ''default'' '''')"
proof -
  have i: "identity_wiring (out_hmac out) (out_parseDuration out) (out_zones out) (out_readFile out) env b = Disabled" for b
    using assms(1) by (simp add: identity_wiring_def decideIdentityMode_def Let_def)
  have d: "dns_wiring (out_zones out) (out_now out) env b = Disabled" for b
    using assms(1) by (simp add: dns_wiring_def Let_def)
  have n: "intEnv env ''ENRICH_WORKERS'' (out_numCPU out) = out_numCPU out"
    using assms(1) by (simp add: intEnv_def Let_def)
  show ?thesis using assms
    by (simp add: startup_def i d n worker_pool_def geo_wiring_def tenant_wiring_def writer_wiring_def
        getenv_def dedup_enabled_def boolEnv_def Let_def split: prod.splits)
qed

end
