(* ===== verification/TraceQuery.thy ===== *)
theory TraceQuery
  imports GoNet GoTime Prelude
begin

text \<open>
  \<open>cmd/trace/main.go\<close>, first half: the flags, the filter they make, and the parameterised queries.
  A query is its text and the list of the bound values; the errors are the program's messages.
\<close>

section \<open>The filter\<close>

datatype trace_error =
    FlowFlagsWithWho | InvalidQName string | InvalidDstIP string | WhoDestination
  | UnknownService string | FlowDestination | BothWindows | BadTime string | ToBeforeFrom
  | NoWindow | InvalidSrcIP string | BadLimit | NoPredicate

text \<open>The struct \<open>filter\<close>.\<close>

record traceFilter =
  tf_from :: time
  tf_to :: time
  tf_dstASNs :: "uint32 list"
  tf_dstOrg :: string
  tf_dstIP :: string
  tf_srcIP :: string
  tf_limit :: int
  tf_who :: bool
  tf_qname :: string

definition zeroFilter :: traceFilter where
  "zeroFilter = \<lparr>tf_from = zeroTime, tf_to = zeroTime, tf_dstASNs = [], tf_dstOrg = '''', tf_dstIP = '''',
     tf_srcIP = '''', tf_limit = 0, tf_who = False, tf_qname = ''''\<rparr>"

definition knownServices :: "(string \<times> uint32 list) list" where
  "knownServices =
     [(''facebook'', [32934]), (''meta'', [32934]), (''instagram'', [32934]), (''whatsapp'', [32934]),
      (''google'', [15169]), (''youtube'', [15169]), (''cloudflare'', [13335])]"

definition resolveService :: "string \<Rightarrow> trace_error + uint32 list" where
  "resolveService name =
     (case map_of knownServices (toLower (trimSpace name)) of
        None \<Rightarrow> Inl (UnknownService name)
      | Some asns \<Rightarrow> Inr asns)"

definition timeLayouts :: "chunk list list" where
  "timeLayouts =
     [[Year4, Lit ''-'', Month2, Lit ''-'', Day2, Lit '' '', Hour2, Lit '':'', Minute2, Lit '':'', Second2],
      RFC3339,
      [Year4, Lit ''-'', Month2, Lit ''-'', Day2]]"

fun try_layouts :: "chunk list list \<Rightarrow> string \<Rightarrow> time option" where
  "try_layouts [] s = None"
| "try_layouts (l # ls) s = (case parseInLocation l s UTC of Some t \<Rightarrow> Some t | None \<Rightarrow> try_layouts ls s)"

definition parseTime :: "string \<Rightarrow> trace_error + time" where
  "parseTime s0 =
     (let s = trimSpace s0
      in case try_layouts timeLayouts s of Some t \<Rightarrow> Inr t | None \<Rightarrow> Inl (BadTime s))"

definition normalizeQName :: "string \<Rightarrow> string" where
  "normalizeQName s = trimSuffix (toLower (trimSpace s)) ''.''"

text \<open>Go's division truncates towards zero.\<close>

definition half :: "duration \<Rightarrow> duration" where
  "half d = (if d < 0 then - ((- d) div 2) else d div 2)"

abbreviation bindE :: "'e + 'a \<Rightarrow> ('a \<Rightarrow> 'e + 'b) \<Rightarrow> 'e + 'b" where
  "bindE r k \<equiv> (case r of Inl e \<Rightarrow> Inl e | Inr x \<Rightarrow> k x)"

text \<open>
  The destination block of each mode; the counter is the number of destination flags given.
\<close>

definition who_destination ::
  "string \<Rightarrow> string \<Rightarrow> uint64 \<Rightarrow> string \<Rightarrow> string \<Rightarrow> string \<Rightarrow> traceFilter \<Rightarrow> trace_error + traceFilter" where
  "who_destination qname service dstASN dstOrg dstIP srcIP f =
     (if service \<noteq> '''' \<or> dstASN \<noteq> 0 \<or> dstOrg \<noteq> '''' \<or> srcIP \<noteq> '''' then Inl FlowFlagsWithWho
      else if qname \<noteq> '''' \<and> normalizeQName qname = '''' then Inl (InvalidQName qname)
      else
        let (f, n) = (if qname \<noteq> '''' then (f\<lparr>tf_qname := normalizeQName qname\<rparr>, 1 :: nat) else (f, 0))
        in if dstIP \<noteq> '''' \<and> parseIP dstIP = None then Inl (InvalidDstIP dstIP)
           else
             let (f, n) = (if dstIP \<noteq> '''' then (f\<lparr>tf_dstIP := dstIP\<rparr>, n + 1) else (f, n))
             in if n \<noteq> 1 then Inl WhoDestination else Inr f)"

definition flow_destination ::
  "string \<Rightarrow> uint64 \<Rightarrow> string \<Rightarrow> string \<Rightarrow> traceFilter \<Rightarrow> trace_error + traceFilter" where
  "flow_destination service dstASN dstOrg dstIP f =
     bindE (if service \<noteq> '''' then bindE (resolveService service) (\<lambda>asns. Inr (f\<lparr>tf_dstASNs := asns\<rparr>, 1 :: nat))
            else Inr (f, 0))
       (\<lambda>(f, n).
          let (f, n) = (if dstASN \<noteq> 0 then (f\<lparr>tf_dstASNs := [ucast dstASN]\<rparr>, n + 1) else (f, n));
              (f, n) = (if dstOrg \<noteq> '''' then (f\<lparr>tf_dstOrg := dstOrg\<rparr>, n + 1) else (f, n))
          in if dstIP \<noteq> '''' \<and> parseIP dstIP = None then Inl (InvalidDstIP dstIP)
             else
               let (f, n) = (if dstIP \<noteq> '''' then (f\<lparr>tf_dstIP := dstIP\<rparr>, n + 1) else (f, n))
               in if n \<noteq> 1 then Inl FlowDestination else Inr f)"

definition time_window ::
  "string \<Rightarrow> duration \<Rightarrow> string \<Rightarrow> string \<Rightarrow> traceFilter \<Rightarrow> trace_error + traceFilter" where
  "time_window around window frm til f =
     (if around \<noteq> '''' then
        if frm \<noteq> '''' \<or> til \<noteq> '''' then Inl BothWindows
        else bindE (parseTime around)
          (\<lambda>center. Inr (f\<lparr>tf_from := center + - half window, tf_to := center + half window\<rparr>))
      else if frm \<noteq> '''' \<and> til \<noteq> '''' then
        bindE (parseTime frm) (\<lambda>a. bindE (parseTime til) (\<lambda>b.
          if b < a then Inl ToBeforeFrom else Inr (f\<lparr>tf_from := a, tf_to := b\<rparr>)))
      else Inl NoWindow)"

definition buildFilter ::
  "bool \<Rightarrow> string \<Rightarrow> string \<Rightarrow> uint64 \<Rightarrow> string \<Rightarrow> string \<Rightarrow> string \<Rightarrow> duration \<Rightarrow> string \<Rightarrow> string
     \<Rightarrow> string \<Rightarrow> int \<Rightarrow> trace_error + traceFilter" where
  "buildFilter who qname service dstASN dstOrg dstIP around window frm til srcIP limit =
     (let f = zeroFilter\<lparr>tf_who := who\<rparr>
      in bindE (if who then who_destination qname service dstASN dstOrg dstIP srcIP f
                else flow_destination service dstASN dstOrg dstIP f)
       (\<lambda>f. bindE (time_window around window frm til f)
       (\<lambda>f. if srcIP \<noteq> '''' \<and> parseIP srcIP = None then Inl (InvalidSrcIP srcIP)
            else
              let f = (if srcIP \<noteq> '''' then f\<lparr>tf_srcIP := srcIP\<rparr> else f)
              in if limit \<le> 0 then Inl BadLimit else Inr (f\<lparr>tf_limit := limit\<rparr>))))"

section \<open>The queries\<close>

datatype sql_arg = ATime time | AString string | AInt int | AASNs "uint32 list" | AStrings "string list"

definition nl :: string where "nl = [CHR 0x0A]"

definition flows_select :: string where
  "flows_select =
     ''SELECT timestamp, src_ip, src_port, dst_ip, dst_port, protocol, bytes,'' @ nl
     @ ''       dst_asn, dst_org, exporter_ip, tenant_name'' @ nl
     @ ''FROM flows'' @ nl @ ''WHERE timestamp BETWEEN ? AND ?''"

definition buildQuery :: "traceFilter \<Rightarrow> trace_error + (string \<times> sql_arg list)" where
  "buildQuery f =
     (let sb = flows_select;
          args = [ATime (tf_from f), ATime (tf_to f)]
      in bindE
        (if 0 < length (tf_dstASNs f) then
           Inr (sb @ nl @ ''  AND dst_asn IN (?)'', args @ [AASNs (tf_dstASNs f)])
         else if tf_dstOrg f \<noteq> '''' then
           Inr (sb @ nl @ ''  AND positionCaseInsensitive(dst_org, ?) > 0'', args @ [AString (tf_dstOrg f)])
         else if tf_dstIP f \<noteq> '''' then
           Inr (sb @ nl @ ''  AND dst_ip = ?'', args @ [AString (tf_dstIP f)])
         else Inl NoPredicate)
        (\<lambda>(sb, args).
           let (sb, args) = (if tf_srcIP f \<noteq> '''' then
                 (sb @ nl @ ''  AND src_ip = ?'', args @ [AString (tf_srcIP f)]) else (sb, args))
           in Inr (sb @ nl @ ''ORDER BY timestamp'' @ nl @ ''LIMIT ?'', args @ [AInt (tf_limit f)])))"

definition dns_select :: string where
  "dns_select =
     ''SELECT client_ip, qname, answer_ip, count() AS resolutions,'' @ nl
     @ ''       min(event_time) AS first_seen, max(event_time) AS last_seen'' @ nl
     @ ''FROM dns_events FINAL'' @ nl @ ''WHERE event_time BETWEEN ? AND ?''"

definition buildDNSQuery :: "traceFilter \<Rightarrow> string \<times> sql_arg list" where
  "buildDNSQuery f =
     (let sb = dns_select;
          args = [ATime (tf_from f), ATime (tf_to f)];
          (sb, args) = (if tf_qname f \<noteq> '''' then
             (sb @ nl @ ''  AND (qname = ? OR endsWith(qname, ?))'',
              args @ [AString (tf_qname f), AString (''.'' @ tf_qname f)])
            else (sb @ nl @ ''  AND answer_ip = ?'', args @ [AString (tf_dstIP f)]))
      in (sb @ nl @ ''GROUP BY client_ip, qname, answer_ip'' @ nl @ ''ORDER BY client_ip, last_seen'' @ nl
            @ ''LIMIT ?'', args @ [AInt (tf_limit f)]))"

definition buildDHCPQuery :: "string list \<Rightarrow> time \<Rightarrow> time \<Rightarrow> string \<times> sql_arg list" where
  "buildDHCPQuery ips frm til =
     (''SELECT event_time, event_id, ip, mac_token'' @ nl @ ''FROM identity_dhcp_events FINAL'' @ nl
      @ ''WHERE ip IN (?) AND event_time BETWEEN ? AND ?'' @ nl
      @ ''ORDER BY ip, event_time, event_id, mac_token, host_token'',
      [AStrings ips, ATime frm, ATime til])"

definition buildRADIUSQuery :: "string list \<Rightarrow> time \<Rightarrow> time \<Rightarrow> string \<times> sql_arg list" where
  "buildRADIUSQuery macTokens frm til =
     (''SELECT event_time, acct_status, session_id, user_token, mac_token'' @ nl
      @ ''FROM identity_radius_events FINAL'' @ nl
      @ ''WHERE mac_token IN (?) AND event_time BETWEEN ? AND ?'' @ nl
      @ ''ORDER BY mac_token, event_time, session_id, acct_status, user_token, nas_ip'',
      [AStrings macTokens, ATime frm, ATime til])"

text \<open>What goes to ClickHouse first in either mode.\<close>

definition first_query :: "traceFilter \<Rightarrow> trace_error + (string \<times> sql_arg list)" where
  "first_query f = (if tf_who f then Inr (buildDNSQuery f) else buildQuery f)"

section \<open>What a filter is\<close>

text \<open>Exactly one destination predicate, of the mode.\<close>

definition one_destination :: "traceFilter \<Rightarrow> bool" where
  "one_destination f \<longleftrightarrow>
     (if tf_who f then tf_dstASNs f = [] \<and> tf_dstOrg f = '''' \<and> (tf_qname f = '''') \<noteq> (tf_dstIP f = '''')
      else tf_qname f = '''' \<and> length (filter id [tf_dstASNs f \<noteq> [], tf_dstOrg f \<noteq> '''', tf_dstIP f \<noteq> '''']) = 1)"

lemma knownServices_nonempty: "map_of knownServices s = Some asns \<Longrightarrow> asns \<noteq> []"
  by (auto simp: knownServices_def split: if_splits)

lemma who_destination_Inr:
  assumes "who_destination qname service dstASN dstOrg dstIP srcIP f = Inr g"
  shows "srcIP = '''' \<and>
    ((normalizeQName qname \<noteq> '''' \<and> dstIP = '''' \<and> g = f\<lparr>tf_qname := normalizeQName qname\<rparr>)
     \<or> (qname = '''' \<and> dstIP \<noteq> '''' \<and> parseIP dstIP \<noteq> None \<and> g = f\<lparr>tf_dstIP := dstIP\<rparr>))"
  using assms by (auto simp: who_destination_def Let_def split: if_splits)

lemma flow_destination_Inr:
  assumes "flow_destination service dstASN dstOrg dstIP f = Inr g"
  shows "(\<exists>asns. asns \<noteq> [] \<and> dstOrg = '''' \<and> dstIP = '''' \<and> g = f\<lparr>tf_dstASNs := asns\<rparr>)
     \<or> (service = '''' \<and> dstASN = 0 \<and> dstOrg \<noteq> '''' \<and> dstIP = '''' \<and> g = f\<lparr>tf_dstOrg := dstOrg\<rparr>)
     \<or> (service = '''' \<and> dstASN = 0 \<and> dstOrg = '''' \<and> dstIP \<noteq> '''' \<and> parseIP dstIP \<noteq> None
         \<and> g = f\<lparr>tf_dstIP := dstIP\<rparr>)"
  using assms
  by (auto simp: flow_destination_def resolveService_def Let_def
      dest: knownServices_nonempty split: if_splits option.splits sum.splits)

lemma time_window_Inr:
  assumes "time_window around window frm til f = Inr g"
  shows "g = f\<lparr>tf_from := tf_from g, tf_to := tf_to g\<rparr> \<and> (0 \<le> window \<longrightarrow> tf_from g \<le> tf_to g)"
  using assms by (auto simp: time_window_def half_def split: if_splits sum.splits)

lemma buildFilter_Inr:
  assumes "buildFilter who qname service dstASN dstOrg dstIP around window frm til srcIP limit = Inr f"
  shows "tf_who f = who" "one_destination f" "0 < tf_limit f"
    "0 \<le> window \<Longrightarrow> tf_from f \<le> tf_to f" "tf_srcIP f = srcIP"
    "tf_srcIP f \<noteq> '''' \<Longrightarrow> parseIP (tf_srcIP f) \<noteq> None \<and> \<not> who"
    "tf_dstIP f \<noteq> '''' \<Longrightarrow> parseIP (tf_dstIP f) \<noteq> None"
proof -
  let ?z = "zeroFilter\<lparr>tf_who := who\<rparr>"
  obtain g where g: "(if who then who_destination qname service dstASN dstOrg dstIP srcIP ?z
      else flow_destination service dstASN dstOrg dstIP ?z) = Inr g"
    and rest: "bindE (time_window around window frm til g)
       (\<lambda>f. if srcIP \<noteq> '''' \<and> parseIP srcIP = None then Inl (InvalidSrcIP srcIP)
            else let f = (if srcIP \<noteq> '''' then f\<lparr>tf_srcIP := srcIP\<rparr> else f)
                 in if limit \<le> 0 then Inl BadLimit else Inr (f\<lparr>tf_limit := limit\<rparr>)) = Inr f"
    using assms unfolding buildFilter_def Let_def by (auto split: sum.splits)
  obtain h where h: "time_window around window frm til g = Inr h" using rest by (auto split: sum.splits)
  obtain a b where h': "h = g\<lparr>tf_from := a, tf_to := b\<rparr>" "0 \<le> window \<longrightarrow> a \<le> b"
    using time_window_Inr [OF h] by blast
  have f: "0 < limit" "srcIP \<noteq> '''' \<longrightarrow> parseIP srcIP \<noteq> None"
    "f = (if srcIP \<noteq> '''' then h\<lparr>tf_srcIP := srcIP\<rparr> else h)\<lparr>tf_limit := limit\<rparr>"
    using rest h by (auto simp: Let_def split: if_splits)
  have dest: "tf_who g = who \<and> one_destination g \<and> tf_srcIP g = '''' \<and> (who \<longrightarrow> srcIP = '''')
      \<and> (tf_dstIP g \<noteq> '''' \<longrightarrow> parseIP (tf_dstIP g) \<noteq> None)"
  proof (cases who)
    case True
    then show ?thesis using g who_destination_Inr [of qname service dstASN dstOrg dstIP srcIP ?z g]
      by (auto simp: zeroFilter_def one_destination_def)
  next
    case False
    then show ?thesis using g flow_destination_Inr [of service dstASN dstOrg dstIP ?z g]
      by (auto simp: zeroFilter_def one_destination_def)
  qed
  have od: "one_destination f = one_destination g" by (simp add: f(3) h'(1) one_destination_def)
  show "tf_who f = who" "one_destination f" "0 < tf_limit f" "0 \<le> window \<Longrightarrow> tf_from f \<le> tf_to f"
    "tf_srcIP f = srcIP" "tf_srcIP f \<noteq> '''' \<Longrightarrow> parseIP (tf_srcIP f) \<noteq> None \<and> \<not> who"
    "tf_dstIP f \<noteq> '''' \<Longrightarrow> parseIP (tf_dstIP f) \<noteq> None"
    using dest f h' od by auto
qed

section \<open>What a query is\<close>

definition placeholders :: "string \<Rightarrow> nat" where
  "placeholders sql = length (filter (\<lambda>c. c = CHR ''?'') sql)"

lemma placeholders_simps [simp]:
  "placeholders [] = 0"
  "placeholders (c # s) = (if c = CHR ''?'' then 1 else 0) + placeholders s"
  "placeholders (a @ b) = placeholders a + placeholders b"
  by (simp_all add: placeholders_def)

lemma placeholders_consts [simp]:
  "placeholders nl = 0" "placeholders flows_select = 2" "placeholders dns_select = 2"
  by code_simp+

text \<open>Which flags were given: all the text of a query can depend on.\<close>

definition shape :: "traceFilter \<Rightarrow> bool list" where
  "shape f = [tf_who f, tf_dstASNs f = [], tf_dstOrg f = '''', tf_dstIP f = '''', tf_srcIP f = '''', tf_qname f = '''']"

definition sql_text :: "trace_error + (string \<times> sql_arg list) \<Rightarrow> string option" where
  "sql_text r = (case r of Inl e \<Rightarrow> None | Inr q \<Rightarrow> Some (fst q))"

lemma first_query_text: "shape f = shape g \<Longrightarrow> sql_text (first_query f) = sql_text (first_query g)"
  by (auto simp: shape_def first_query_def buildQuery_def buildDNSQuery_def sql_text_def Let_def)

lemma first_query_args:
  "first_query f = Inr (sql, args) \<Longrightarrow> placeholders sql = length args"
  by (auto simp: first_query_def buildQuery_def buildDNSQuery_def Let_def split: if_splits)

lemma first_query_ok: "one_destination f \<Longrightarrow> \<exists>q. first_query f = Inr q"
  by (auto simp: one_destination_def first_query_def buildQuery_def Let_def split: if_splits)

text \<open>C35. The flags either fail with a message or give a sound filter: exactly one destination
  predicate, of the mode that was asked for, a positive row limit, addresses that parse, and, unless the
  window is negative, a time window that is not empty. The query of such a filter always exists, has one
  bound value for each placeholder, and its text is the same for every filter with the same flags given:
  no value a user typed is ever part of the text, so none can change what the query does.\<close>

theorem trace_filter_sound:
  assumes "buildFilter who qname service dstASN dstOrg dstIP around window frm til srcIP limit = Inr f"
  shows "tf_who f = who \<and> one_destination f \<and> 0 < tf_limit f
    \<and> (0 \<le> window \<longrightarrow> tf_from f \<le> tf_to f)
    \<and> (tf_srcIP f \<noteq> '''' \<longrightarrow> parseIP (tf_srcIP f) \<noteq> None \<and> \<not> who)
    \<and> (tf_dstIP f \<noteq> '''' \<longrightarrow> parseIP (tf_dstIP f) \<noteq> None)
    \<and> (\<exists>sql args. first_query f = Inr (sql, args) \<and> placeholders sql = length args
         \<and> (\<forall>g. shape g = shape f \<longrightarrow> sql_text (first_query g) = Some sql))"
proof -
  obtain sql args where q: "first_query f = Inr (sql, args)"
    using first_query_ok [OF buildFilter_Inr(2) [OF assms]] by auto
  have "sql_text (first_query g) = Some sql" if "shape g = shape f" for g
    using first_query_text [OF that] q by (simp add: sql_text_def)
  then show ?thesis using buildFilter_Inr [OF assms] first_query_args [OF q] q by blast
qed

definition demo_filter :: traceFilter where
  "demo_filter = zeroFilter\<lparr>tf_who := True, tf_qname := ''facebook.com'',
     tf_from := (1783957500 - 600) * second, tf_to := (1783957500 + 600) * second, tf_limit := 1000\<rparr>"

theorem trace_filter_sound_witness:
  "one_destination demo_filter \<and> tf_from demo_filter \<le> tf_to demo_filter
    \<and> (\<exists>sql args. first_query demo_filter = Inr (sql, args) \<and> placeholders sql = length args)"
proof -
  have "buildFilter True ''Facebook.com.'' '''' 0 '''' '''' ''2026-07-13 15:45:00'' (20 * minute) '''' '''' '''' 1000
      = Inr demo_filter" by code_simp
  from trace_filter_sound [OF this] show ?thesis by auto
qed

text \<open>A negative window passes, and gives a window that ends before it starts.\<close>

theorem trace_negative_window:
  "\<exists>f. buildFilter False '''' ''facebook'' 0 '''' '''' ''2026-07-13'' (- (20 * minute)) '''' '''' '''' 1000 = Inr f
     \<and> tf_to f < tf_from f"
proof -
  have "buildFilter False '''' ''facebook'' 0 '''' '''' ''2026-07-13'' (- (20 * minute)) '''' '''' '''' 1000
      = Inr (zeroFilter\<lparr>tf_dstASNs := [32934], tf_from := (1783900800 + 600) * second,
               tf_to := (1783900800 - 600) * second, tf_limit := 1000\<rparr>)" by code_simp
  then show ?thesis by (simp add: zeroFilter_def)
qed

text \<open>An AS number beyond 32 bits is cut, and the flows of another network are searched.\<close>

theorem trace_asn_truncated:
  "\<exists>f. buildFilter False '''' '''' (2 ^ 32 + 15169) '''' '''' ''2026-07-13'' minute '''' '''' '''' 1 = Inr f
     \<and> tf_dstASNs f = [15169]"
proof -
  have "buildFilter False '''' '''' (2 ^ 32 + 15169) '''' '''' ''2026-07-13'' minute '''' '''' '''' 1
      = Inr (zeroFilter\<lparr>tf_dstASNs := [15169], tf_from := (1783900800 - 30) * second,
               tf_to := (1783900800 + 30) * second, tf_limit := 1\<rparr>)" by code_simp
  then show ?thesis by simp
qed

end
