(* ===== verification/TraceWho.thy ===== *)
theory TraceWho
  imports TraceQuery IdentityJoin Wiring "HOL-Library.Char_ord" "HOL-Library.List_Lexorder"
begin

text \<open>
  \<open>cmd/trace/main.go\<close>, second half: who mode. Three queries are chained, the candidates of the DNS
  table, the leases of their addresses, the sessions of their devices, and every candidate is joined
  as of the last time it was seen. The database is an argument: three functions from a query to the
  rows it returns, or an error.
\<close>

record whoRow =
  wr_ClientIP :: string
  wr_QName :: string
  wr_AnswerIP :: string
  wr_Resolutions :: uint64
  wr_FirstSeen :: time
  wr_LastSeen :: time
  wr_MACToken :: string
  wr_UserToken :: string
  wr_MACAmbiguous :: bool
  wr_UserAmbiguous :: bool

record dnsCandidate =
  dc_client_ip :: string
  dc_qname :: string
  dc_answer_ip :: string
  dc_resolutions :: uint64
  dc_first_seen :: time
  dc_last_seen :: time

type_synonym query = "string \<times> sql_arg list"

record clickhouse =
  ch_dns :: "query \<Rightarrow> string + dnsCandidate list"
  ch_dhcp :: "query \<Rightarrow> string + dhcpEvent list"
  ch_radius :: "query \<Rightarrow> string + radiusEvent list"

text \<open>The keys of a set, given as a list with repetitions, in byte order.\<close>

definition keysOf :: "string list \<Rightarrow> string list" where
  "keysOf m = sort (remdups m)"

definition candidate :: "dnsCandidate \<Rightarrow> whoRow" where
  "candidate c =
     \<lparr>wr_ClientIP = dc_client_ip c, wr_QName = dc_qname c, wr_AnswerIP = dc_answer_ip c,
      wr_Resolutions = dc_resolutions c, wr_FirstSeen = dc_first_seen c, wr_LastSeen = dc_last_seen c,
      wr_MACToken = '''', wr_UserToken = '''', wr_MACAmbiguous = False, wr_UserAmbiguous = False\<rparr>"

definition bind_device :: "dhcpEvent list \<Rightarrow> duration \<Rightarrow> whoRow \<Rightarrow> whoRow" where
  "bind_device dhcp lease w =
     (let (mac, ambiguous) = dhcpBindingAt dhcp (wr_ClientIP w) (wr_LastSeen w) lease
      in w\<lparr>wr_MACToken := mac, wr_MACAmbiguous := ambiguous\<rparr>)"

definition bind_user :: "radiusEvent list \<Rightarrow> duration \<Rightarrow> whoRow \<Rightarrow> whoRow" where
  "bind_user rad session w =
     (if wr_MACToken w \<noteq> '''' \<and> \<not> wr_MACAmbiguous w then
        (let (user, ambiguous) = radiusBindingAt rad (wr_MACToken w) (wr_LastSeen w) session
         in w\<lparr>wr_UserToken := user, wr_UserAmbiguous := ambiguous\<rparr>)
      else w)"

text \<open>\<open>runWho\<close> up to the rendering, given the two trust horizons.\<close>

definition who_rows ::
  "clickhouse \<Rightarrow> duration \<Rightarrow> duration \<Rightarrow> traceFilter \<Rightarrow> string + whoRow list" where
  "who_rows conn lease session f =
     bindE (ch_dns conn (buildDNSQuery f)) (\<lambda>rows.
       let cands = map candidate rows;
           ipSet = map wr_ClientIP cands
       in if ipSet = [] then Inr cands
          else bindE (ch_dhcp conn (buildDHCPQuery (keysOf ipSet) (tf_from f + - lease) (tf_to f))) (\<lambda>dhcp.
            let cands = map (bind_device dhcp lease) cands;
                macSet = filter (\<lambda>m. m \<noteq> '''') (map wr_MACToken cands)
            in if macSet = [] then Inr cands
               else bindE (ch_radius conn (buildRADIUSQuery (keysOf macSet) (tf_from f + - session) (tf_to f)))
                 (\<lambda>rad. Inr (map (bind_user rad session) cands))))"

definition runWho ::
  "(string \<Rightarrow> duration option) \<Rightarrow> environ \<Rightarrow> clickhouse \<Rightarrow> traceFilter \<Rightarrow> string + whoRow list" where
  "runWho parseDuration env conn f =
     who_rows conn (durEnv parseDuration env ''IDENTITY_MAX_LEASE'' (24 * hour))
       (durEnv parseDuration env ''IDENTITY_MAX_SESSION'' (24 * hour)) f"

definition tokenStatus :: "string \<Rightarrow> bool \<Rightarrow> string" where
  "tokenStatus s ambiguous =
     (if ambiguous then ''ambiguous at that time''
      else if s = '''' then ''unknown at that time'' else s)"

section \<open>The windows are wide enough\<close>

lemma holds_at_window:
  assumes "lo \<le> T - L" "T \<le> hi"
  shows "holds_at L T {a \<in> A. lo \<le> act_time a \<and> act_time a \<le> hi} e p = holds_at L T A e p"
proof
  assume "holds_at L T {a \<in> A. lo \<le> act_time a \<and> act_time a \<le> hi} e p"
  then obtain t where t: "Open e p t \<in> A" "t \<le> T" "T \<le> t + L"
    "\<forall>e' p' t'. Open e' p' t' \<in> A \<and> lo \<le> t' \<and> t' \<le> hi \<longrightarrow> t' \<le> T \<longrightarrow> t' \<le> t"
    "\<forall>p' t'. Close e p' t' \<in> A \<and> lo \<le> t' \<and> t' \<le> hi \<longrightarrow> t \<le> t' \<longrightarrow> \<not> t' \<le> T"
    unfolding holds_at_def by auto
  have lo: "lo \<le> t" using assms(1) t(3) by simp
  have "t' \<le> t" if "Open e' p' t' \<in> A" "t' \<le> T" for e' p' t'
    using t(4) that assms(2) lo by (cases "lo \<le> t'") auto
  moreover have False if "Close e p' t' \<in> A" "t \<le> t'" "t' \<le> T" for p' t'
  proof -
    have "lo \<le> t'" "t' \<le> hi" using that(2,3) lo assms(2) by auto
    then show False using t(5) that by blast
  qed
  ultimately show "holds_at L T A e p" unfolding holds_at_def using t(1,2,3) by blast
next
  assume "holds_at L T A e p"
  then obtain t where t: "Open e p t \<in> A" "t \<le> T" "T \<le> t + L"
    "\<And>e' p' t'. Open e' p' t' \<in> A \<Longrightarrow> t' \<le> T \<Longrightarrow> t' \<le> t"
    "\<And>p' t'. Close e p' t' \<in> A \<Longrightarrow> t \<le> t' \<Longrightarrow> t' \<le> T \<Longrightarrow> False"
    unfolding holds_at_def by blast
  have "Open e p t \<in> {a \<in> A. lo \<le> act_time a \<and> act_time a \<le> hi}" using t assms by auto
  then show "holds_at L T {a \<in> A. lo \<le> act_time a \<and> act_time a \<le> hi} e p"
    unfolding holds_at_def using t(2,3,4,5) by blast
qed

lemma acts_of_window:
  assumes "\<And>x a. act x = Some a \<Longrightarrow> act_time a = tm x"
    and "set rows = {x \<in> set table. key x \<in> K \<and> lo \<le> tm x \<and> tm x \<le> hi}" and "k \<in> K"
  shows "acts_of act {x \<in> set rows. key x = k \<and> P x}
    = {a \<in> acts_of act {x \<in> set table. key x = k \<and> P x}. lo \<le> act_time a \<and> act_time a \<le> hi}"
  using assms by (auto simp: acts_of_def)

lemma holds_at_rows:
  assumes "\<And>x a. act x = Some a \<Longrightarrow> act_time a = tm x"
    and "set rows = {x \<in> set table. key x \<in> K \<and> lo \<le> tm x \<and> tm x \<le> hi}" and "k \<in> K"
    and "lo \<le> T - L" "T \<le> hi"
  shows "holds_at L T (acts_of act {x \<in> set rows. key x = k \<and> P x}) e p
    = holds_at L T (acts_of act {x \<in> set table. key x = k \<and> P x}) e p"
proof -
  have "acts_of act {x \<in> set rows. key x = k \<and> P x}
      = {a \<in> acts_of act {x \<in> set table. key x = k \<and> P x}. lo \<le> act_time a \<and> act_time a \<le> hi}"
    using assms(1) by (rule acts_of_window [OF _ assms(2,3)])
  then show ?thesis using holds_at_window [OF assms(4,5)] by (simp only:)
qed

lemma dhcp_rows_enough:
  assumes "set rows = {e \<in> set table. de_IP e \<in> set ips \<and> lo \<le> de_Time e \<and> de_Time e \<le> hi}"
    and "ip \<in> set ips" "lo \<le> T - L" "T \<le> hi"
  shows "dhcpBindingAt rows ip T L = dhcpBindingAt table ip T L"
proof -
  have eq: "holds_at L T (acts_of tr_dhcp_act {e \<in> set rows. de_IP e = ip \<and> de_MACToken e \<noteq> ''''}) m ()
      = holds_at L T (acts_of tr_dhcp_act {e \<in> set table. de_IP e = ip \<and> de_MACToken e \<noteq> ''''}) m ()" for m
    by (rule holds_at_rows [OF dj.act_tm assms])
  have "trace_lessees L T rows ip = trace_lessees L T table ip"
    unfolding trace_lessees_def eq ..
  then show ?thesis by (simp only: dhcp_join)
qed

lemma radius_rows_enough:
  assumes "set rows = {e \<in> set table. re_MACToken e \<in> set macs \<and> lo \<le> re_Time e \<and> re_Time e \<le> hi}"
    and "mac \<in> set macs" "lo \<le> T - S" "T \<le> hi"
  shows "radiusBindingAt rows mac T S = radiusBindingAt table mac T S"
proof -
  have eq: "holds_at S T (acts_of tr_radius_act {e \<in> set rows. re_MACToken e = mac \<and> re_MACToken e \<noteq> ''''}) m u
      = holds_at S T (acts_of tr_radius_act {e \<in> set table. re_MACToken e = mac \<and> re_MACToken e \<noteq> ''''}) m u" for m u
    by (rule holds_at_rows [OF rj.act_tm assms])
  have "trace_sessions S T rows mac = trace_sessions S T table mac"
    unfolding trace_sessions_def eq ..
  then show ?thesis by (simp only: radius_join)
qed

section \<open>What who mode answers\<close>

text \<open>
  What the database promises on the three queries: the DNS candidates were last seen in the window of
  the filter; the leases and the sessions are the rows of the table with the keys asked for, in the
  window asked for, in some order.
\<close>

definition serves :: "clickhouse \<Rightarrow> dhcpEvent list \<Rightarrow> radiusEvent list \<Rightarrow> bool" where
  "serves conn leases sessions \<longleftrightarrow>
     (\<forall>f rows. ch_dns conn (buildDNSQuery f) = Inr rows \<longrightarrow>
        (\<forall>c\<in>set rows. tf_from f \<le> dc_last_seen c \<and> dc_last_seen c \<le> tf_to f))
     \<and> (\<forall>ips a b rows. ch_dhcp conn (buildDHCPQuery ips a b) = Inr rows \<longrightarrow>
        set rows = {e \<in> set leases. de_IP e \<in> set ips \<and> a \<le> de_Time e \<and> de_Time e \<le> b})
     \<and> (\<forall>macs a b rows. ch_radius conn (buildRADIUSQuery macs a b) = Inr rows \<longrightarrow>
        set rows = {e \<in> set sessions. re_MACToken e \<in> set macs \<and> a \<le> re_Time e \<and> re_Time e \<le> b})"

text \<open>The join over the whole tables.\<close>

definition attributed :: "dhcpEvent list \<Rightarrow> radiusEvent list \<Rightarrow> duration \<Rightarrow> duration \<Rightarrow> dnsCandidate \<Rightarrow> whoRow" where
  "attributed leases sessions lease session c =
     bind_user sessions session (bind_device leases lease (candidate c))"

lemma set_keysOf [simp]: "set (keysOf m) = set m"
  by (simp add: keysOf_def)

lemma bind_device_fields [simp]:
  "wr_ClientIP (bind_device d l w) = wr_ClientIP w" "wr_LastSeen (bind_device d l w) = wr_LastSeen w"
  by (simp_all add: bind_device_def split: prod.splits)

lemma candidate_fields [simp]:
  "wr_ClientIP (candidate c) = dc_client_ip c" "wr_LastSeen (candidate c) = dc_last_seen c"
  by (simp_all add: candidate_def)

text \<open>The fetched leases, and then the fetched sessions, give each candidate what the tables give it.\<close>

lemma serves_seen:
  assumes "serves conn leases sessions" "ch_dns conn (buildDNSQuery f) = Inr cands" "c \<in> set cands"
  shows "tf_from f \<le> dc_last_seen c \<and> dc_last_seen c \<le> tf_to f"
  using assms unfolding serves_def by blast

lemma who_devices:
  assumes "serves conn leases sessions" "ch_dns conn (buildDNSQuery f) = Inr cands"
    and "ch_dhcp conn (buildDHCPQuery (keysOf (map wr_ClientIP (map candidate cands))) (tf_from f + - lease) (tf_to f)) = Inr dhcp"
  shows "map (bind_device dhcp lease) (map candidate cands) = map (bind_device leases lease \<circ> candidate) cands"
proof -
  let ?ips = "keysOf (map wr_ClientIP (map candidate cands))"
  have rows: "set dhcp = {e \<in> set leases. de_IP e \<in> set ?ips \<and> tf_from f + - lease \<le> de_Time e \<and> de_Time e \<le> tf_to f}"
    using assms(1,3) unfolding serves_def by blast
  have "bind_device dhcp lease (candidate c) = bind_device leases lease (candidate c)" if "c \<in> set cands" for c
  proof -
    have "dc_client_ip c \<in> set ?ips" using that by simp
    moreover have "tf_from f + - lease \<le> dc_last_seen c - lease" "dc_last_seen c \<le> tf_to f"
      using serves_seen [OF assms(1,2) that] by simp_all
    ultimately show ?thesis using dhcp_rows_enough [OF rows] by (simp only: bind_device_def candidate_fields)
  qed
  then show ?thesis by simp
qed

lemma who_users:
  assumes "serves conn leases sessions" "ch_dns conn (buildDNSQuery f) = Inr cands"
    and "bound = map (bind_device leases lease \<circ> candidate) cands"
    and "macs = filter (\<lambda>m. m \<noteq> '''') (map wr_MACToken bound)"
    and "ch_radius conn (buildRADIUSQuery (keysOf macs) (tf_from f + - session) (tf_to f)) = Inr rad"
  shows "map (bind_user rad session) bound = map (attributed leases sessions lease session) cands"
proof -
  have rows: "set rad = {e \<in> set sessions. re_MACToken e \<in> set (keysOf macs)
      \<and> tf_from f + - session \<le> re_Time e \<and> re_Time e \<le> tf_to f}"
    using assms(1,5) unfolding serves_def by blast
  have "bind_user rad session (bind_device leases lease (candidate c)) = attributed leases sessions lease session c"
    if "c \<in> set cands" for c
  proof (cases "wr_MACToken (bind_device leases lease (candidate c)) = ''''")
    case True
    then show ?thesis by (simp add: attributed_def bind_user_def)
  next
    case False
    then have "wr_MACToken (bind_device leases lease (candidate c)) \<in> set (keysOf macs)"
      using that assms(3,4) by auto
    moreover have "tf_from f + - session \<le> dc_last_seen c - session" "dc_last_seen c \<le> tf_to f"
      using serves_seen [OF assms(1,2) that] by simp_all
    ultimately show ?thesis using radius_rows_enough [OF rows]
      by (simp only: attributed_def bind_user_def bind_device_fields candidate_fields)
  qed
  then show ?thesis using assms(3) by simp
qed

text \<open>C18. Who mode answers what a join over the whole event tables would: although it fetches only the
  leases and the sessions of a window, widened back by the trust horizon, each row names the device and
  the user that all the events in the tables give for that address at that instant, or says that they
  are ambiguous or unknown; and there is one row per candidate, in the order of the query. The database
  is assumed to answer its three queries with the rows they select.\<close>

theorem who_attribution:
  assumes "serves conn leases sessions" and "who_rows conn lease session f = Inr ws"
  shows "\<exists>cands. ch_dns conn (buildDNSQuery f) = Inr cands
    \<and> ws = map (attributed leases sessions lease session) cands"
proof -
  obtain cands where c: "ch_dns conn (buildDNSQuery f) = Inr cands"
    using assms(2) by (auto simp: who_rows_def split: sum.splits)
  show ?thesis
  proof (cases "cands = []")
    case True
    then show ?thesis using assms(2) c by (auto simp: who_rows_def Let_def)
  next
    case False
    let ?ips = "keysOf (map wr_ClientIP (map candidate cands))"
    obtain dhcp where d: "ch_dhcp conn (buildDHCPQuery ?ips (tf_from f + - lease) (tf_to f)) = Inr dhcp"
      using assms(2) c False by (auto simp: who_rows_def Let_def split: sum.splits)
    define bound where "bound = map (bind_device leases lease \<circ> candidate) cands"
    define macs where "macs = filter (\<lambda>m. m \<noteq> '''') (map wr_MACToken bound)"
    have ne: "(map wr_ClientIP (map candidate cands) = []) = False" using False by simp
    have rest: "(if macs = [] then Inr bound
        else bindE (ch_radius conn (buildRADIUSQuery (keysOf macs) (tf_from f + - session) (tf_to f)))
          (\<lambda>rad. Inr (map (bind_user rad session) bound))) = Inr ws"
      using assms(2) unfolding who_rows_def Let_def c sum.case ne if_False d who_devices [OF assms(1) c d]
        bound_def [symmetric] macs_def [symmetric] .
    show ?thesis
    proof (cases "macs = []")
      case True
      then have "map (attributed leases sessions lease session) cands = bound"
        by (auto simp: macs_def bound_def filter_empty_conv attributed_def bind_user_def)
      then show ?thesis using c rest True by simp
    next
      case some: False
      then obtain rad where "ch_radius conn (buildRADIUSQuery (keysOf macs) (tf_from f + - session) (tf_to f)) = Inr rad"
        and "ws = map (bind_user rad session) bound"
        using rest by (auto split: sum.splits)
      then show ?thesis using c who_users [OF assms(1) c bound_def macs_def] by simp
    qed
  qed
qed

text \<open>A lease and a session for the one candidate of a database.\<close>

definition demo_lease :: dhcpEvent where "demo_lease = tr_dhcp 10 ''10.0.0.7'' ''m1'' 50"
definition demo_session :: radiusEvent where "demo_session = tr_radius ''Start'' ''s1'' ''u1'' ''m1'' 60"

definition demo_db :: clickhouse where
  "demo_db =
     \<lparr>ch_dns = (\<lambda>q. case snd q of
         [ATime a, ATime b, AString n, AString sub, AInt l] \<Rightarrow>
           (if a \<le> 100 \<and> 100 \<le> b
            then Inr [\<lparr>dc_client_ip = ''10.0.0.7'', dc_qname = n, dc_answer_ip = ''9.9.9.9'', dc_resolutions = 1,
                       dc_first_seen = 100, dc_last_seen = 100\<rparr>] else Inr [])
       | _ \<Rightarrow> Inr []),
      ch_dhcp = (\<lambda>q. case snd q of
         [AStrings ips, ATime a, ATime b] \<Rightarrow>
           Inr (filter (\<lambda>e. de_IP e \<in> set ips \<and> a \<le> de_Time e \<and> de_Time e \<le> b) [demo_lease])
       | _ \<Rightarrow> Inl ''bad query''),
      ch_radius = (\<lambda>q. case snd q of
         [AStrings macs, ATime a, ATime b] \<Rightarrow>
           Inr (filter (\<lambda>e. re_MACToken e \<in> set macs \<and> a \<le> re_Time e \<and> re_Time e \<le> b) [demo_session])
       | _ \<Rightarrow> Inl ''bad query'')\<rparr>"

lemma demo_serves: "serves demo_db [demo_lease] [demo_session]"
  by (auto simp: serves_def demo_db_def buildDNSQuery_def buildDHCPQuery_def buildRADIUSQuery_def Let_def
      split: if_splits)

theorem who_attribution_witness:
  "\<exists>ws. who_rows demo_db 1000 1000 (zeroFilter\<lparr>tf_from := 90, tf_to := 110, tf_qname := ''facebook.com''\<rparr>) = Inr ws
     \<and> map wr_MACToken ws = [''m1''] \<and> map wr_UserToken ws = [''u1'']"
proof -
  let ?f = "zeroFilter\<lparr>tf_from := 90, tf_to := 110, tf_qname := ''facebook.com''\<rparr>"
  let ?c = "\<lparr>dc_client_ip = ''10.0.0.7'', dc_qname = ''facebook.com'', dc_answer_ip = ''9.9.9.9'',
    dc_resolutions = 1, dc_first_seen = 100, dc_last_seen = 100\<rparr> :: dnsCandidate"
  have cands: "ch_dns demo_db (buildDNSQuery ?f) = Inr [?c]"
    by (simp add: demo_db_def buildDNSQuery_def zeroFilter_def)
  have "(case who_rows demo_db 1000 1000 ?f of Inl e \<Rightarrow> False | Inr ws \<Rightarrow> True)" by code_simp
  then obtain ws where ws: "who_rows demo_db 1000 1000 ?f = Inr ws" by (auto split: sum.splits)
  have "ws = map (attributed [demo_lease] [demo_session] 1000 1000) [?c]"
    using who_attribution [OF demo_serves ws] unfolding cands by auto
  moreover have "wr_MACToken (attributed [demo_lease] [demo_session] 1000 1000 ?c) = ''m1''
      \<and> wr_UserToken (attributed [demo_lease] [demo_session] 1000 1000 ?c) = ''u1''"
    by code_simp
  ultimately show ?thesis using ws by simp
qed

text \<open>
  A candidate groups all resolutions of a name by an address in the window and is joined once, at the
  last of them. When the address changed hands in between, the row counts the resolutions of both
  devices and names the last holder only.
\<close>

theorem who_row_names_last_device_only:
  "let leases = [tr_dhcp 10 ''10.0.0.7'' ''m1'' 50, tr_dhcp 12 ''10.0.0.7'' ''m1'' 120,
                 tr_dhcp 10 ''10.0.0.7'' ''m2'' 150];
       c = \<lparr>dc_client_ip = ''10.0.0.7'', dc_qname = ''x.org'', dc_answer_ip = ''9.9.9.9'', dc_resolutions = 2,
            dc_first_seen = 100, dc_last_seen = 200\<rparr>;
       w = attributed leases [] 1000 1000 c
   in wr_Resolutions w = 2 \<and> wr_MACToken w = ''m2'' \<and> \<not> wr_MACAmbiguous w
      \<and> dhcpBindingAt leases ''10.0.0.7'' (wr_FirstSeen w) 1000 = (''m1'', False)"
  by code_simp

end
