(* ===== verification/DnsCopy.thy ===== *)
theory DnsCopy
  imports TcpdumpProps
begin

text \<open>
  \<open>cmd/dnsscan/main.go\<close>, second half: the copy of the tcpdump parser that the reconnaissance tool
  carries, because Go cannot import a main package. The comment there asks to keep it in step with
  the canonical parser by hand. The copy is translated from its own lines, loop by loop, with the
  prefix \<open>v_\<close>, and shown to be the same function of the line and the state. The two structs have the
  fields of the canonical ones and are represented by the same records.
\<close>

section \<open>The copy\<close>

definition v_normalizeHost :: "string \<Rightarrow> string" where
  "v_normalizeHost host = (let h = trimSpace host; h = trimSuffix h ''.'' in toLower h)"

definition v_newTcpdumpDNSParser :: "location option \<Rightarrow> time \<Rightarrow> string \<Rightarrow> tcpdumpDNSParser" where
  "v_newTcpdumpDNSParser loc baseDate resolverIP =
     (let loc = (if loc = None then UTC else the loc);
          w = wallClock loc baseDate
      in \<lparr>td_loc = loc, td_resolverIP = resolverIP,
          td_baseDate = unixInLocation loc (w - w mod 86400) * second,
          td_havePrev = False, td_prevTOD = 0, td_pending = False, td_pendingTime = zeroTime\<rparr>)"

text \<open>The loop \<open>for i := len(frac); i < 9; i++\<close>.\<close>

function v_scale :: "nat \<Rightarrow> int \<Rightarrow> int" where
  "v_scale i ns = (if i < 9 then v_scale (Suc i) (ns * 10) else ns)"
  by pat_completeness auto
termination by (relation "measure (\<lambda>(i, ns). 9 - i)") auto

declare v_scale.simps [simp del]

definition v_parseTOD :: "string \<Rightarrow> duration option" where
  "v_parseTOD tok =
     (case rmatch todRe tok tok [] of
        None \<Rightarrow> None
      | Some (m, _) \<Rightarrow>
          let h = atoiDigits (m ! 0); mi = atoiDigits (m ! 1); s = atoiDigits (m ! 2)
          in if 23 < h \<or> 59 < mi \<or> 59 < s then None
             else let frac = m ! 3;
                      frac = (if 9 < length frac then take 9 frac else frac);
                      ns = v_scale (length frac) (atoiDigits frac)
                  in Some (h * hour + mi * minute + s * second + ns))"

definition v_splitIPPort :: "string \<Rightarrow> string \<times> uint16 \<times> bool" where
  "v_splitIPPort s =
     (case lastIndexByte s (CHR ''.'') of
        None \<Rightarrow> ('''', 0, False)
      | Some i \<Rightarrow> (case parseUint 16 (drop (Suc i) s) of
          None \<Rightarrow> ('''', 0, False)
        | Some pp \<Rightarrow> (take i s, word_of_int pp, True)))"

fun v_marker :: "string list \<Rightarrow> bool" where
  "v_marker [] = False"
| "v_marker (f # fs) = (if hasSuffix f ''?'' then True else v_marker fs)"

definition v_payloadHasQueryMarker :: "string \<Rightarrow> bool" where
  "v_payloadHasQueryMarker payload = v_marker (GoStrings.fields payload)"

text \<open>The loop for \<open>qi\<close>; \<open>None\<close> stands for -1.\<close>

function v_qi :: "string list \<Rightarrow> nat \<Rightarrow> nat option" where
  "v_qi fs i =
     (if i < length fs then if hasSuffix (fs ! i) ''?'' then Some i else v_qi fs (Suc i) else None)"
  by pat_completeness auto
termination by (relation "measure (\<lambda>(fs, i). length fs - i)") auto

declare v_qi.simps [simp del]

definition v_parseTcpdumpQuery :: "string \<Rightarrow> time \<Rightarrow> string \<Rightarrow> uint16 \<Rightarrow> parse_error + DnsEvent list" where
  "v_parseTcpdumpQuery payload ts clientIP clientPort =
     (let fs = GoStrings.fields payload
      in case v_qi fs 1 of
          None \<Rightarrow> Inl errMalformedTcpdumpDNS
        | Some qi \<Rightarrow>
            if length fs \<le> qi + 1 then Inl errMalformedTcpdumpDNS
            else let qtype = trimSuffix (fs ! qi) ''?''; qname = v_normalizeHost (fs ! (qi + 1))
                 in if qtype = '''' \<or> qname = '''' then Inl errMalformedTcpdumpDNS
                    else Inr [\<lparr>dn_EventTime = ts, dn_ClientIP = clientIP, dn_ClientPort = clientPort,
                      dn_QName = qname, dn_QType = qtype, dn_AnswerIP = '''', dn_TTL = 0, dn_TTLUnknown = False\<rparr>])"

text \<open>The body of the loop over the records: the events so far, with that of the record appended.\<close>

definition v_rr :: "time \<Rightarrow> string \<Rightarrow> uint16 \<Rightarrow> string \<Rightarrow> string \<Rightarrow> DnsEvent list \<Rightarrow> DnsEvent list" where
  "v_rr ts clientIP clientPort qname rr events =
     (let fset = GoStrings.fields rr in
      if length fset < 3 then events
      else let typ = fset ! 1 in
        if typ \<noteq> ''A'' \<and> typ \<noteq> ''AAAA'' then events
        else case parseIP (fset ! 2) of
            None \<Rightarrow> events
          | Some ip \<Rightarrow>
              if typ = ''A'' \<and> To4 ip = None then events
              else if typ = ''AAAA'' \<and> To4 ip \<noteq> None then events
              else events @ [\<lparr>dn_EventTime = ts, dn_ClientIP = clientIP, dn_ClientPort = clientPort,
                     dn_QName = qname, dn_QType = typ, dn_AnswerIP = fset ! 2, dn_TTL = 0, dn_TTLUnknown = True\<rparr>])"

definition v_parseTcpdumpResponse :: "string \<Rightarrow> time \<Rightarrow> string \<Rightarrow> uint16 \<Rightarrow> parse_error + DnsEvent list" where
  "v_parseTcpdumpResponse payload ts clientIP clientPort =
     (let payload = (case lastIndex payload '' ('' of Some idx \<Rightarrow> take idx payload | None \<Rightarrow> payload)
      in case find_match respCountsRe payload of
          None \<Rightarrow> Inr []
        | Some (m, rest) \<Rightarrow>
            let ancount = atoiDigits (m ! 0); answerSection = trimSpace rest
            in if ancount = 0 \<or> answerSection = '''' then Inr []
               else let rrs = split answerSection '', ''; firstFields = GoStrings.fields (rrs ! 0)
                    in if length firstFields < 2 then Inr []
                       else let qname = v_normalizeHost (firstFields ! 0); firstType = firstFields ! 1
                            in if qname = '''' then Inr []
                               else let events = fold (v_rr ts clientIP clientPort qname) rrs []
                                    in if length events = 0 then
                                         Inr (events @ [\<lparr>dn_EventTime = ts, dn_ClientIP = clientIP,
                                           dn_ClientPort = clientPort, dn_QName = qname, dn_QType = firstType,
                                           dn_AnswerIP = '''', dn_TTL = 0, dn_TTLUnknown = False\<rparr>])
                                       else Inr events)"

definition v_parsePayload :: "tcpdumpDNSParser \<Rightarrow> string \<Rightarrow> time \<Rightarrow> parse_error + DnsEvent list" where
  "v_parsePayload p s ts =
     (case index s '' > '' of
        None \<Rightarrow> Inr []
      | Some gt \<Rightarrow>
          let src = take gt s; rest = drop (gt + 3) s
          in case index rest '': '' of
              None \<Rightarrow> Inr []
            | Some colon \<Rightarrow>
                let dst = take colon rest; payload = drop (colon + 2) rest;
                    (srcIP, srcPort, ok1) = v_splitIPPort src;
                    (dstIP, dstPort, ok2) = v_splitIPPort dst
                in if \<not> ok1 \<or> \<not> ok2 then Inr []
                   else
                     let r = (if dstPort = 53 \<and> srcPort = 53 then
                                (let isQuery = v_payloadHasQueryMarker payload
                                 in if isQuery then Some (srcIP, srcPort, isQuery) else Some (dstIP, dstPort, isQuery))
                              else if dstPort = 53 then Some (srcIP, srcPort, True)
                              else if srcPort = 53 then Some (dstIP, dstPort, False)
                              else None)
                     in case r of
                          None \<Rightarrow> Inr []
                        | Some (clientIP, clientPort, isQuery) \<Rightarrow>
                            if td_resolverIP p \<noteq> '''' \<and> clientIP = td_resolverIP p then Inr []
                            else if isQuery then v_parseTcpdumpQuery payload ts clientIP clientPort
                            else v_parseTcpdumpResponse payload ts clientIP clientPort)"

definition v_feed :: "string \<Rightarrow> tcpdumpDNSParser \<Rightarrow> (parse_error + DnsEvent list) \<times> tcpdumpDNSParser" where
  "v_feed line p =
     (if line = '''' then (Inr [], p)
      else if line ! 0 = CHR '' '' \<or> line ! 0 = CHR 0x09 then
        (if \<not> td_pending p then (Inr [], p)
         else let ts = td_pendingTime p; p = p\<lparr>td_pending := False\<rparr>
              in (v_parsePayload p (trimLeftIf (\<lambda>c. c = CHR '' '' \<or> c = CHR 0x09) line) ts, p))
      else
        let tok = (case indexByte line (CHR '' '') of Some sp \<Rightarrow> take sp line | None \<Rightarrow> line)
        in case v_parseTOD tok of
            None \<Rightarrow> (Inr [], p\<lparr>td_pending := False\<rparr>)
          | Some tod \<Rightarrow>
              let p = (if td_havePrev p \<and> 12 * hour < td_prevTOD p - tod
                       then p\<lparr>td_baseDate := addDay (td_loc p) (td_baseDate p)\<rparr> else p);
                  p = p\<lparr>td_prevTOD := tod\<rparr>;
                  p = p\<lparr>td_havePrev := True\<rparr>
              in if contains line ''proto UDP'' \<or> contains line ''next-header UDP''
                 then (Inr [], p\<lparr>td_pending := True, td_pendingTime := td_baseDate p + tod\<rparr>)
                 else (Inr [], p\<lparr>td_pending := False\<rparr>))"

section \<open>The copy and the original\<close>

lemma v_normalizeHost_eq [simp]: "v_normalizeHost h = normalizeHost h"
  by (simp add: v_normalizeHost_def normalizeHost_def)

lemma v_new_eq: "v_newTcpdumpDNSParser loc t r = newTcpdumpDNSParser loc t r"
  by (cases loc) (simp_all add: v_newTcpdumpDNSParser_def newTcpdumpDNSParser_def midnightOf_def Let_def)

lemma v_scale_eq: "i \<le> 9 \<Longrightarrow> v_scale i ns = ns * 10 ^ (9 - i)"
proof (induction i ns rule: v_scale.induct)
  case (1 i ns)
  show ?case
  proof (cases "i < 9")
    case True
    then have "9 - i = Suc (9 - Suc i)" by simp
    then show ?thesis using 1 True by (subst v_scale.simps) simp
  next
    case False
    then show ?thesis using 1(2) by (subst v_scale.simps) simp
  qed
qed

lemma v_parseTOD_eq [simp]: "v_parseTOD tok = parseTOD tok"
proof -
  have f: "(if 9 < length s then take 9 s else s) = take 9 s" for s :: string by simp
  have n: "v_scale (length (take 9 s)) ns = ns * 10 ^ (9 - length (take 9 s))" for s :: string and ns
    by (rule v_scale_eq) simp
  show ?thesis unfolding v_parseTOD_def parseTOD_def Let_def f n ..
qed

lemma v_splitIPPort_eq:
  "v_splitIPPort s = (case splitIPPort s of None \<Rightarrow> ('''', 0, False) | Some (ip, port) \<Rightarrow> (ip, port, True))"
  by (simp add: v_splitIPPort_def splitIPPort_def split: option.split)

lemma v_marker_eq: "v_marker fs = list_ex (\<lambda>f. hasSuffix f ''?'') fs"
  by (induction fs) simp_all

lemma v_payloadHasQueryMarker_eq [simp]: "v_payloadHasQueryMarker pl = payloadHasQueryMarker pl"
  by (simp add: v_payloadHasQueryMarker_def payloadHasQueryMarker_def v_marker_eq)

text \<open>The index of the marker, against the rest of the list from the marker on.\<close>

lemma v_qi_dropWhile:
  "(case v_qi fs i of None \<Rightarrow> [] | Some q \<Rightarrow> drop q fs) = dropWhile (\<lambda>f. \<not> hasSuffix f ''?'') (drop i fs)"
proof (induction fs i rule: v_qi.induct)
  case (1 fs i)
  show ?case
  proof (cases "i < length fs")
    case True
    then have "drop i fs = fs ! i # drop (Suc i) fs" by (simp add: Cons_nth_drop_Suc)
    then show ?thesis using 1 True by (subst v_qi.simps) simp
  next
    case False
    then show ?thesis by (subst v_qi.simps) simp
  qed
qed

lemma v_qi_bound: "v_qi fs i = Some q \<Longrightarrow> q < length fs"
proof (induction fs i rule: v_qi.induct)
  case (1 fs i)
  then show ?case by (subst (asm) v_qi.simps) (auto split: if_splits)
qed

lemma v_query_eq [simp]: "v_parseTcpdumpQuery pl ts c port = parseTcpdumpQuery pl ts c port"
proof -
  let ?fs = "GoStrings.fields pl"
  have tl: "tl ?fs = drop 1 ?fs" by (simp add: drop_Suc)
  note d = v_qi_dropWhile [of ?fs 1, folded tl, symmetric]
  show ?thesis
  proof (cases "v_qi ?fs 1")
    case None
    then have dq: "dropWhile (\<lambda>f. \<not> hasSuffix f ''?'') (tl ?fs) = []" using d by simp
    show ?thesis using None unfolding v_parseTcpdumpQuery_def parseTcpdumpQuery_def dq by simp
  next
    case (Some q)
    then have q: "q < length ?fs" by (rule v_qi_bound)
    have dq: "dropWhile (\<lambda>f. \<not> hasSuffix f ''?'') (tl ?fs) = ?fs ! q # drop (Suc q) ?fs"
      using d Some q by (simp add: Cons_nth_drop_Suc)
    show ?thesis
    proof (cases "Suc q < length ?fs")
      case True
      then have "drop (Suc q) ?fs = ?fs ! Suc q # drop (Suc (Suc q)) ?fs" by (simp add: Cons_nth_drop_Suc)
      then show ?thesis using Some True unfolding v_parseTcpdumpQuery_def parseTcpdumpQuery_def dq
        by (simp add: no_answer_def Let_def)
    next
      case False
      then show ?thesis using Some unfolding v_parseTcpdumpQuery_def parseTcpdumpQuery_def dq by simp
    qed
  qed
qed

lemma v_rr_eq:
  "v_rr ts c port q rr evs = evs @ (case tcpdump_answer ts c port q rr of None \<Rightarrow> [] | Some e \<Rightarrow> [e])"
proof (cases "length (GoStrings.fields rr) < 3")
  case True
  then show ?thesis by (auto simp: v_rr_def tcpdump_answer_def split: list.split)
next
  case False
  then obtain a b d r where "GoStrings.fields rr = a # b # d # r"
    by (metis One_nat_def Suc_1 length_Cons less_Suc_eq list.exhaust list.size(3) numeral_3_eq_3 zero_less_Suc)
  then show ?thesis by (simp add: v_rr_def tcpdump_answer_def Let_def split: option.split)
qed

lemma v_rrs_eq:
  "fold (v_rr ts c port q) rrs evs = evs @ List.map_filter (tcpdump_answer ts c port q) rrs"
  by (induction rrs arbitrary: evs) (simp_all add: map_filter_simps v_rr_eq split: option.split)

lemma v_response_eq [simp]: "v_parseTcpdumpResponse pl ts c port = parseTcpdumpResponse pl ts c port"
proof -
  have two: "(case GoStrings.fields x of a # b # r \<Rightarrow> F a b | _ \<Rightarrow> Inr [])
      = (if length (GoStrings.fields x) < 2 then Inr []
         else F (GoStrings.fields x ! 0) (GoStrings.fields x ! 1))" for x and F :: "string \<Rightarrow> string \<Rightarrow> parse_error + DnsEvent list"
    by (auto split: list.split)
  have hd: "split s '', '' ! 0 = hd (split s '', '')" for s by (simp add: hd_conv_nth)
  show ?thesis
    unfolding v_parseTcpdumpResponse_def parseTcpdumpResponse_def Let_def v_normalizeHost_eq v_rrs_eq two hd
    by (simp add: no_answer_def split: option.split)
qed

lemma v_parsePayload_eq [simp]: "v_parsePayload p s ts = parsePayload p s ts"
  unfolding v_parsePayload_def parsePayload_def Let_def v_splitIPPort_eq direction_def
  by (auto split: option.split)

lemma v_feed_eq: "v_feed line p = tcpdump_feed line p"
proof -
  have i: "line \<noteq> '''' \<Longrightarrow> (line ! 0 = CHR '' '' \<or> line ! 0 = CHR 0x09) = indented line"
    by (simp add: indented_def hd_conv_nth)
  have r: "parsePayload (p\<lparr>td_pending := False\<rparr>) s ts = parsePayload p s ts" for s ts
  proof -
    have "td_resolverIP (p\<lparr>td_pending := False\<rparr>) = td_resolverIP p" by simp
    then show ?thesis unfolding parsePayload_def by (simp only:)
  qed
  show ?thesis
  proof (cases "line = '''' \<or> indented line")
    case True
    then show ?thesis using i by (auto simp: v_feed_def tcpdump_feed_def r Let_def)
  next
    case False
    then show ?thesis using i
      by (simp add: v_feed_def tcpdump_feed_def firstToken_def udpHeader_def td_advance_def Let_def
          split: option.split)
  qed
qed

text \<open>C39. The parser the tool carries is the one the enricher runs: from the same anchor it starts in the
  same state, and on every line and in every state it gives the same events or the same error and the
  same next state.\<close>

theorem dnsscan_parser_equivalent:
  "v_newTcpdumpDNSParser loc baseDate resolverIP = newTcpdumpDNSParser loc baseDate resolverIP
   \<and> v_feed line p = tcpdump_feed line p"
  by (simp add: v_new_eq v_feed_eq)

end
