(* ===== verification/DnsReport.thy ===== *)
theory DnsReport
  imports DnsCopy GoScanner "HOL-Library.Product_Lexorder"
begin

text \<open>
  \<open>cmd/dnsscan/main.go\<close>, first half: the statistics of a capture. Each line is classified twice, once
  for the raw tallies and once by the parser for the events; the theorems show that the two never
  disagree. Go maps of counters are maps, and the sets of keys are sets; printing is left out.
\<close>

datatype lineKind = kindOther | kindQuery | kindResponse

record report =
  rp_resolverIP :: string
  rp_totalLines :: nat
  rp_packets :: nat
  rp_queriesByType :: "string \<rightharpoonup> nat"
  rp_clientQueries :: nat
  rp_responses :: nat
  rp_answerA :: nat
  rp_answerAAAA :: nat
  rp_queryOnly :: nat
  rp_fallback :: nat
  rp_silentSkip :: nat
  rp_parseErr :: nat
  rp_nxDomain :: nat
  rp_servFail :: nat
  rp_uniqueClients :: "string set"
  rp_uniqueQNames :: "string set"
  rp_qnameQueries :: "string \<rightharpoonup> nat"
  rp_totalEvents :: nat
  rp_dedupKeys :: "string set"
  rp_haveSpan :: bool
  rp_firstSeen :: time
  rp_lastSeen :: time

definition new_report :: "string \<Rightarrow> report" where
  "new_report resolverIP =
     \<lparr>rp_resolverIP = resolverIP, rp_totalLines = 0, rp_packets = 0, rp_queriesByType = Map.empty,
      rp_clientQueries = 0, rp_responses = 0, rp_answerA = 0, rp_answerAAAA = 0, rp_queryOnly = 0,
      rp_fallback = 0, rp_silentSkip = 0, rp_parseErr = 0, rp_nxDomain = 0, rp_servFail = 0,
      rp_uniqueClients = {}, rp_uniqueQNames = {}, rp_qnameQueries = Map.empty, rp_totalEvents = 0,
      rp_dedupKeys = {}, rp_haveSpan = False, rp_firstSeen = zeroTime, rp_lastSeen = zeroTime\<rparr>"

definition incr :: "string \<Rightarrow> (string \<rightharpoonup> nat) \<Rightarrow> (string \<rightharpoonup> nat)" where
  "incr k m = m(k \<mapsto> (case m k of None \<Rightarrow> 0 | Some n \<Rightarrow> n) + 1)"

section \<open>One payload line\<close>

text \<open>
  \<open>statusWordRe\<close>: the first of the words that stands between word boundaries. \<open>before\<close> says whether
  the character before is a word character.
\<close>

definition wordChar :: "char \<Rightarrow> bool" where
  "wordChar c \<longleftrightarrow> isDigit c \<or> (65 \<le> char_code c \<and> char_code c \<le> 90) \<or> (97 \<le> char_code c \<and> char_code c \<le> 122)
     \<or> c = CHR ''_''"

definition statusWords :: "string list" where
  "statusWords = [''NXDomain'', ''ServFail'', ''NoError'', ''Refused'', ''FormErr'', ''NotImp'']"

definition word_at :: "string \<Rightarrow> string \<Rightarrow> bool" where
  "word_at s w \<longleftrightarrow> hasPrefix s w \<and> (drop (length w) s = [] \<or> \<not> wordChar (hd (drop (length w) s)))"

fun find_status :: "bool \<Rightarrow> string \<Rightarrow> string option" where
  "find_status before [] = None"
| "find_status before (c # s) =
     (case (if before then None else List.find (word_at (c # s)) statusWords) of
        Some w \<Rightarrow> Some w
      | None \<Rightarrow> find_status (wordChar c) s)"

text \<open>The loop over the fields of a query: the first that ends in a question mark counts its type.\<close>

fun count_qtype :: "string list \<Rightarrow> report \<Rightarrow> report" where
  "count_qtype [] r = r"
| "count_qtype (f # fs) r =
     (if hasSuffix f ''?'' then r\<lparr>rp_queriesByType := incr (trimSuffix f ''?'') (rp_queriesByType r)\<rparr>
      else count_qtype fs r)"

text \<open>The tallies of a payload whose direction is known.\<close>

definition tally_payload :: "string \<Rightarrow> bool \<Rightarrow> string \<Rightarrow> report \<Rightarrow> lineKind \<times> report" where
  "tally_payload body isQuery clientIP r =
     (if isQuery then
        (let r = count_qtype (GoStrings.fields body) r
         in (kindQuery,
             if rp_resolverIP r = '''' \<or> clientIP \<noteq> rp_resolverIP r
             then r\<lparr>rp_clientQueries := rp_clientQueries r + 1\<rparr> else r))
      else
        (let r = r\<lparr>rp_responses := rp_responses r + 1\<rparr>
         in (kindResponse,
             case find_status False body of
               None \<Rightarrow> r
             | Some m \<Rightarrow>
                 if m = ''NXDomain'' then r\<lparr>rp_nxDomain := rp_nxDomain r + 1\<rparr>
                 else if m = ''ServFail'' then r\<lparr>rp_servFail := rp_servFail r + 1\<rparr>
                 else r)))"

definition classifyPayload :: "string \<Rightarrow> report \<Rightarrow> lineKind \<times> report" where
  "classifyPayload payload r =
     (case index payload '' > '' of
        None \<Rightarrow> (kindOther, r)
      | Some gt \<Rightarrow>
          let rest = drop (gt + 3) payload
          in case index rest '': '' of
              None \<Rightarrow> (kindOther, r)
            | Some colon \<Rightarrow>
                let (srcIP, srcPort, ok1) = v_splitIPPort (take gt payload);
                    (dstIP, dstPort, ok2) = v_splitIPPort (take colon rest)
                in if \<not> ok1 \<or> \<not> ok2 then (kindOther, r)
                   else
                     let body = drop (colon + 2) rest;
                         d = (if dstPort = 53 \<and> srcPort = 53 then
                                (let isQuery = v_payloadHasQueryMarker body
                                 in if isQuery then Some (isQuery, srcIP) else Some (isQuery, dstIP))
                              else if dstPort = 53 then Some (True, srcIP)
                              else if srcPort = 53 then Some (False, dstIP)
                              else None)
                     in case d of
                          None \<Rightarrow> (kindOther, r)
                        | Some (isQuery, clientIP) \<Rightarrow> tally_payload body isQuery clientIP r)"

section \<open>The events of a line\<close>

definition classify_answer :: "DnsEvent \<Rightarrow> report \<Rightarrow> report" where
  "classify_answer e r =
     (if dn_QType e = ''A'' then r\<lparr>rp_answerA := rp_answerA r + 1\<rparr>
      else if dn_QType e = ''AAAA'' then r\<lparr>rp_answerAAAA := rp_answerAAAA r + 1\<rparr>
      else r)"

definition classify_query :: "DnsEvent \<Rightarrow> report \<Rightarrow> report" where
  "classify_query e r =
     r\<lparr>rp_queryOnly := rp_queryOnly r + 1, rp_qnameQueries := incr (dn_QName e) (rp_qnameQueries r)\<rparr>"

definition classifyEvents :: "lineKind \<Rightarrow> DnsEvent list \<Rightarrow> report \<Rightarrow> report" where
  "classifyEvents kind evs r =
     (case kind of
        kindQuery \<Rightarrow> fold classify_query evs r
      | kindResponse \<Rightarrow>
          if length evs = 1 \<and> dn_AnswerIP (evs ! 0) = '''' then r\<lparr>rp_fallback := rp_fallback r + 1\<rparr>
          else fold classify_answer evs r
      | kindOther \<Rightarrow> r)"

definition zero_byte :: string where "zero_byte = [CHR 0x00]"

definition scan_event :: "DnsEvent \<Rightarrow> report \<Rightarrow> report" where
  "scan_event e r =
     (let r = r\<lparr>rp_totalEvents := rp_totalEvents r + 1,
                rp_uniqueClients := insert (dn_ClientIP e) (rp_uniqueClients r),
                rp_uniqueQNames := insert (dn_QName e) (rp_uniqueQNames r),
                rp_dedupKeys := insert (dn_ClientIP e @ zero_byte @ dn_QName e @ zero_byte @ dn_AnswerIP e)
                                  (rp_dedupKeys r)\<rparr>
      in if dn_EventTime e = zeroTime then r
         else
           let r = (if \<not> rp_haveSpan r \<or> dn_EventTime e < rp_firstSeen r
                    then r\<lparr>rp_firstSeen := dn_EventTime e\<rparr> else r);
               r = (if \<not> rp_haveSpan r \<or> rp_lastSeen r < dn_EventTime e
                    then r\<lparr>rp_lastSeen := dn_EventTime e\<rparr> else r)
           in r\<lparr>rp_haveSpan := True\<rparr>)"

section \<open>The scan\<close>

definition v_firstToken :: "string \<Rightarrow> string" where
  "v_firstToken s = (case indexByte s (CHR '' '') of Some i \<Rightarrow> take i s | None \<Rightarrow> s)"

text \<open>The raw part of a line: its kind, the tallies and the gate \<open>udpPending\<close>.\<close>

definition scan_raw :: "string \<Rightarrow> report \<Rightarrow> bool \<Rightarrow> lineKind \<times> report \<times> bool" where
  "scan_raw line r udpPending =
     (if \<not> (line ! 0 = CHR '' '' \<or> line ! 0 = CHR 0x09) then
        (case v_parseTOD (v_firstToken line) of
           Some _ \<Rightarrow> (kindOther, r\<lparr>rp_packets := rp_packets r + 1\<rparr>,
                      contains line ''proto UDP'' \<or> contains line ''next-header UDP'')
         | None \<Rightarrow> (kindOther, r, False))
      else if udpPending then
        (let (kind, r) = classifyPayload (trimLeftIf (\<lambda>c. c = CHR '' '' \<or> c = CHR 0x09) line) r
         in (kind, r, False))
      else (kindOther, r, udpPending))"

definition scan_line :: "string \<Rightarrow> report \<times> tcpdumpDNSParser \<times> bool \<Rightarrow> report \<times> tcpdumpDNSParser \<times> bool" where
  "scan_line text st =
     (let (r, p, udpPending) = st;
          line = trimRightIf (\<lambda>c. c = CHR 0x0D) text;
          r = r\<lparr>rp_totalLines := rp_totalLines r + 1\<rparr>
      in if line = '''' then (r, p, udpPending)
         else
           let (kind, r, udpPending) = scan_raw line r udpPending;
               (res, p) = v_feed line p
           in case res of
                Inl err \<Rightarrow> (r\<lparr>rp_parseErr := rp_parseErr r + 1\<rparr>, p, udpPending)
              | Inr evs \<Rightarrow>
                  if evs = [] then
                    (if line ! 0 = CHR '' '' \<or> line ! 0 = CHR 0x09
                     then r\<lparr>rp_silentSkip := rp_silentSkip r + 1\<rparr> else r, p, udpPending)
                  else (classifyEvents kind evs (fold scan_event evs r), p, udpPending))"

definition dnsscan_scan :: "string \<Rightarrow> string option \<Rightarrow> location option \<Rightarrow> time \<Rightarrow> string \<Rightarrow> report" where
  "dnsscan_scan contents readErr loc baseDate resolverIP =
     (let p = v_newTcpdumpDNSParser loc baseDate resolverIP;
          (tokens, err) = scanner (8 * 2 ^ 20) contents readErr
      in fst (fold scan_line tokens (new_report resolverIP, p, False)))"

text \<open>\<open>ks\<close> is the order in which Go ranges over the map.\<close>

definition sortedByCountDesc :: "string list \<Rightarrow> (string \<rightharpoonup> nat) \<Rightarrow> (string \<times> nat) list" where
  "sortedByCountDesc ks m =
     sort_key (\<lambda>(k, n). (- int n, k)) (map (\<lambda>k. (k, case m k of None \<Rightarrow> 0 | Some n \<Rightarrow> n)) ks)"

text \<open>The order of the range does not show: the sort is by a total order.\<close>

lemma sortedByCountDesc_order:
  assumes "mset ks = mset ks'"
  shows "sortedByCountDesc ks m = sortedByCountDesc ks' m"
proof -
  let ?g = "\<lambda>k. (k, case m k of None \<Rightarrow> 0 | Some n \<Rightarrow> n)"
  have "mset (map ?g ks) = mset (map ?g ks')" using assms by simp
  moreover have "inj_on (\<lambda>(k, n). (- int n, k)) (set (map ?g ks'))" by (auto intro: inj_onI)
  ultimately show ?thesis unfolding sortedByCountDesc_def
    by (metis (no_types, lifting) mset_sort properties_for_sort_key sorted_sort_key sort_key_inj_key_eq)
qed

section \<open>The two classifications agree\<close>

text \<open>The tallies that are related, as numbers.\<close>

record tallies =
  ty_packets :: nat
  ty_queries :: nat
  ty_responses :: nat
  ty_queryOnly :: nat
  ty_answers :: nat
  ty_events :: nat

definition tallies_of :: "report \<Rightarrow> tallies" where
  "tallies_of r =
     \<lparr>ty_packets = rp_packets r, ty_queries = rp_clientQueries r, ty_responses = rp_responses r,
      ty_queryOnly = rp_queryOnly r, ty_answers = rp_answerA r + rp_answerAAAA r + rp_fallback r,
      ty_events = rp_totalEvents r\<rparr>"

lemma count_qtype_frame [simp]:
  "rp_resolverIP (count_qtype fs r) = rp_resolverIP r" "tallies_of (count_qtype fs r) = tallies_of r"
  "rp_clientQueries (count_qtype fs r) = rp_clientQueries r"
  "rp_dedupKeys (count_qtype fs r) = rp_dedupKeys r" "rp_uniqueClients (count_qtype fs r) = rp_uniqueClients r"
  by (induction fs) (simp_all add: tallies_of_def)

lemma fold_classify_query [simp]:
  "tallies_of (fold classify_query evs r) = (tallies_of r)\<lparr>ty_queryOnly := ty_queryOnly (tallies_of r) + length evs\<rparr>"
  "rp_resolverIP (fold classify_query evs r) = rp_resolverIP r"
  "rp_dedupKeys (fold classify_query evs r) = rp_dedupKeys r"
  "rp_uniqueClients (fold classify_query evs r) = rp_uniqueClients r"
  by (induction evs arbitrary: r) (simp_all add: classify_query_def tallies_of_def)

lemma fold_classify_answer [simp]:
  "\<forall>e\<in>set evs. dn_QType e \<in> {''A'', ''AAAA''} \<Longrightarrow> tallies_of (fold classify_answer evs r)
     = (tallies_of r)\<lparr>ty_answers := ty_answers (tallies_of r) + length evs\<rparr>"
  "rp_resolverIP (fold classify_answer evs r) = rp_resolverIP r"
  "rp_dedupKeys (fold classify_answer evs r) = rp_dedupKeys r"
  "rp_uniqueClients (fold classify_answer evs r) = rp_uniqueClients r"
  by (induction evs arbitrary: r) (auto simp: classify_answer_def tallies_of_def)

lemma scan_event_simps:
  "tallies_of (scan_event e r) = (tallies_of r)\<lparr>ty_events := Suc (ty_events (tallies_of r))\<rparr>"
  "rp_resolverIP (scan_event e r) = rp_resolverIP r"
  "rp_uniqueClients (scan_event e r) = insert (dn_ClientIP e) (rp_uniqueClients r)"
  "rp_dedupKeys (scan_event e r)
     = insert (dn_ClientIP e @ zero_byte @ dn_QName e @ zero_byte @ dn_AnswerIP e) (rp_dedupKeys r)"
  by (simp_all add: scan_event_def tallies_of_def Let_def)

text \<open>Sets that grow by at most one element for each event counted.\<close>

definition few :: "report \<Rightarrow> bool" where
  "few r \<longleftrightarrow> finite (rp_dedupKeys r) \<and> card (rp_dedupKeys r) \<le> ty_events (tallies_of r)
     \<and> finite (rp_uniqueClients r) \<and> card (rp_uniqueClients r) \<le> ty_events (tallies_of r)"

lemma few_scan_event: "few r \<Longrightarrow> few (scan_event e r)"
  by (auto simp: few_def scan_event_simps card_insert_if)

lemma fold_scan_event:
  "tallies_of (fold scan_event evs r) = (tallies_of r)\<lparr>ty_events := ty_events (tallies_of r) + length evs\<rparr>"
  "rp_resolverIP (fold scan_event evs r) = rp_resolverIP r"
  "few r \<Longrightarrow> few (fold scan_event evs r)"
  by (induction evs arbitrary: r) (simp_all add: scan_event_simps few_scan_event)

text \<open>What the parser emits for a payload, by its direction.\<close>

lemma query_events: "parseTcpdumpQuery pl ts c port = Inr evs \<Longrightarrow> length evs = 1"
  by (auto simp: parseTcpdumpQuery_def Let_def split: list.splits if_splits)

lemma answer_types:
  "tcpdump_answer ts c port q rr = Some e \<Longrightarrow> dn_QType e \<in> {''A'', ''AAAA''} \<and> dn_AnswerIP e \<noteq> ''''"
  by (auto simp: tcpdump_answer_def parseIP_def split: list.splits option.splits if_splits)

definition answer_shape :: "DnsEvent list \<Rightarrow> bool" where
  "answer_shape evs \<longleftrightarrow>
     (length evs = 1 \<and> dn_AnswerIP (evs ! 0) = '''')
     \<or> (\<forall>e\<in>set evs. dn_QType e \<in> {''A'', ''AAAA''} \<and> dn_AnswerIP e \<noteq> '''')"

lemma response_events: "parseTcpdumpResponse pl ts c port = Inr evs \<Longrightarrow> answer_shape evs"
  by (auto simp: parseTcpdumpResponse_def answer_shape_def Let_def set_map_filter' no_answer_def
      dest: answer_types split: list.splits option.splits prod.splits if_splits)

text \<open>The front of both classifications: the text after the addresses, and the direction.\<close>

definition payload_direction :: "string \<Rightarrow> (string \<times> bool \<times> string \<times> uint16) option" where
  "payload_direction s =
     (case index s '' > '' of
        None \<Rightarrow> None
      | Some gt \<Rightarrow> (case index (drop (gt + 3) s) '': '' of
          None \<Rightarrow> None
        | Some colon \<Rightarrow>
            let body = drop (colon + 2) (drop (gt + 3) s)
            in (case (splitIPPort (take gt s), splitIPPort (take colon (drop (gt + 3) s))) of
                  (Some se, Some de) \<Rightarrow> map_option (\<lambda>d. (body, d)) (direction body se de)
                | _ \<Rightarrow> None)))"

lemma parsePayload_direction:
  "parsePayload p s ts =
     (case payload_direction s of
        None \<Rightarrow> Inr []
      | Some (body, isQuery, clientIP, clientPort) \<Rightarrow>
          if td_resolverIP p \<noteq> '''' \<and> clientIP = td_resolverIP p then Inr []
          else if isQuery then parseTcpdumpQuery body ts clientIP clientPort
          else parseTcpdumpResponse body ts clientIP clientPort)"
  unfolding parsePayload_def payload_direction_def Let_def by (auto split: option.split prod.split)

lemma classifyPayload_direction:
  "classifyPayload s r =
     (case payload_direction s of
        None \<Rightarrow> (kindOther, r)
      | Some (body, isQuery, clientIP, _) \<Rightarrow> tally_payload body isQuery clientIP r)"
proof (cases "index s '' > ''")
  case None
  then show ?thesis by (simp add: classifyPayload_def payload_direction_def)
next
  case (Some gt)
  show ?thesis
  proof (cases "index (drop (gt + 3) s) '': ''")
    case None
    then show ?thesis using Some by (simp add: classifyPayload_def payload_direction_def Let_def)
  next
    case c: (Some colon)
    let ?se = "splitIPPort (take gt s)" and ?de = "splitIPPort (take colon (drop (gt + 3) s))"
    show ?thesis
      unfolding classifyPayload_def payload_direction_def Let_def v_splitIPPort_eq Some option.case c
      by (cases ?se; cases ?de) (simp_all add: direction_def Let_def case_prod_unfold)
  qed
qed

lemma tally_payload_effect:
  assumes "tally_payload body isQuery clientIP r = (k, r')"
  shows "rp_resolverIP r' = rp_resolverIP r" "rp_dedupKeys r' = rp_dedupKeys r"
    "rp_uniqueClients r' = rp_uniqueClients r" "k = (if isQuery then kindQuery else kindResponse)"
    "tallies_of r' =
       (if isQuery then
          if rp_resolverIP r = '''' \<or> clientIP \<noteq> rp_resolverIP r
          then (tallies_of r)\<lparr>ty_queries := Suc (ty_queries (tallies_of r))\<rparr> else tallies_of r
        else (tallies_of r)\<lparr>ty_responses := Suc (ty_responses (tallies_of r))\<rparr>)"
proof -
  have q: "tallies_of (x\<lparr>rp_clientQueries := Suc (rp_clientQueries x)\<rparr>)
      = (tallies_of x)\<lparr>ty_queries := Suc (ty_queries (tallies_of x))\<rparr>" for x by (simp add: tallies_of_def)
  show "rp_resolverIP r' = rp_resolverIP r" "rp_dedupKeys r' = rp_dedupKeys r"
    "rp_uniqueClients r' = rp_uniqueClients r" "k = (if isQuery then kindQuery else kindResponse)"
    using assms by (auto simp: tally_payload_def Let_def split: if_splits option.splits)
  show "tallies_of r' =
       (if isQuery then
          if rp_resolverIP r = '''' \<or> clientIP \<noteq> rp_resolverIP r
          then (tallies_of r)\<lparr>ty_queries := Suc (ty_queries (tallies_of r))\<rparr> else tallies_of r
        else (tallies_of r)\<lparr>ty_responses := Suc (ty_responses (tallies_of r))\<rparr>)"
  proof (cases isQuery)
    case True
    have "rp_clientQueries (count_qtype fs r) = rp_clientQueries r" for fs by simp
    then show ?thesis using assms True q [of "count_qtype (GoStrings.fields body) r"]
      by (auto simp: tally_payload_def Let_def split: if_splits)
  next
    case False
    then show ?thesis using assms
      by (auto simp: tally_payload_def tallies_of_def Let_def split: if_splits option.splits)
  qed
qed

section \<open>The invariant of the scan\<close>

definition agree :: "report \<Rightarrow> bool" where
  "agree r \<longleftrightarrow> (let y = tallies_of r in
     ty_events y = ty_queryOnly y + ty_answers y \<and> ty_queryOnly y \<le> ty_queries y) \<and> few r"

definition scan_inv :: "report \<times> tcpdumpDNSParser \<times> bool \<Rightarrow> bool" where
  "scan_inv st \<longleftrightarrow> (case st of (r, p, udp) \<Rightarrow>
     agree r \<and> udp = td_pending p \<and> rp_resolverIP r = td_resolverIP p
     \<and> ty_queries (tallies_of r) + ty_responses (tallies_of r) + (if udp then 1 else 0) \<le> ty_packets (tallies_of r))"

lemma agree_frame:
  "tallies_of r' = tallies_of r \<Longrightarrow> rp_dedupKeys r' = rp_dedupKeys r \<Longrightarrow> rp_uniqueClients r' = rp_uniqueClients r \<Longrightarrow>
     agree r' = agree r"
  by (simp add: agree_def few_def)

text \<open>The events of a payload, bucketed by the kind of the line.\<close>

lemma classifyEvents_effect:
  assumes "kind = kindQuery \<and> length evs = 1 \<or> kind = kindResponse \<and> answer_shape evs"
  shows "rp_resolverIP (classifyEvents kind evs r) = rp_resolverIP r"
    "rp_dedupKeys (classifyEvents kind evs r) = rp_dedupKeys r"
    "rp_uniqueClients (classifyEvents kind evs r) = rp_uniqueClients r"
    "tallies_of (classifyEvents kind evs r) =
       (if kind = kindQuery then (tallies_of r)\<lparr>ty_queryOnly := ty_queryOnly (tallies_of r) + length evs\<rparr>
        else (tallies_of r)\<lparr>ty_answers := ty_answers (tallies_of r) + length evs\<rparr>)"
proof -
  have fb: "tallies_of (r\<lparr>rp_fallback := Suc (rp_fallback r)\<rparr>)
      = (tallies_of r)\<lparr>ty_answers := Suc (ty_answers (tallies_of r))\<rparr>" by (simp add: tallies_of_def)
  show "rp_resolverIP (classifyEvents kind evs r) = rp_resolverIP r"
    "rp_dedupKeys (classifyEvents kind evs r) = rp_dedupKeys r"
    "rp_uniqueClients (classifyEvents kind evs r) = rp_uniqueClients r"
    by (auto simp: classifyEvents_def split: lineKind.split)
  show "tallies_of (classifyEvents kind evs r) =
       (if kind = kindQuery then (tallies_of r)\<lparr>ty_queryOnly := ty_queryOnly (tallies_of r) + length evs\<rparr>
        else (tallies_of r)\<lparr>ty_answers := ty_answers (tallies_of r) + length evs\<rparr>)"
    using assms by (auto simp: classifyEvents_def answer_shape_def fb)
qed

lemma payload_step:
  assumes inv: "scan_inv (r, p, True)" and c: "classifyPayload s r = (k, r1)"
    and e: "parsePayload p s ts = Inr evs" "evs \<noteq> []"
  shows "scan_inv (classifyEvents k evs (fold scan_event evs r1), p\<lparr>td_pending := False\<rparr>, False)"
proof -
  have res: "rp_resolverIP r = td_resolverIP p" and ag: "agree r"
    and le: "ty_queries (tallies_of r) + ty_responses (tallies_of r) + 1 \<le> ty_packets (tallies_of r)"
    using inv by (simp_all add: scan_inv_def)
  obtain body q ip port where d: "payload_direction s = Some (body, q, ip, port)"
    using e by (auto simp: parsePayload_direction split: option.splits)
  have ip: "rp_resolverIP r = '''' \<or> ip \<noteq> rp_resolverIP r"
    and evs: "if q then length evs = 1 else answer_shape evs"
    using e d res by (auto simp: parsePayload_direction split: if_splits dest: query_events response_events)
  have t: "tally_payload body q ip r = (k, r1)" using c d by (simp add: classifyPayload_direction)
  note eff = tally_payload_effect [OF t]
  have k: "k = kindQuery \<and> length evs = 1 \<or> k = kindResponse \<and> answer_shape evs"
    using evs unfolding eff(4) by (cases q) simp_all
  let ?r2 = "fold scan_event evs r1"
  note ce = classifyEvents_effect [OF k, of ?r2]
  have few: "few ?r2" using ag eff by (intro fold_scan_event(3)) (auto simp: agree_def few_def)
  let ?r3 = "classifyEvents k evs ?r2"
  have "few ?r3" using few ce(2-4) by (auto simp: few_def)
  moreover have "ty_events (tallies_of r) = ty_queryOnly (tallies_of r) + ty_answers (tallies_of r)
      \<and> ty_queryOnly (tallies_of r) \<le> ty_queries (tallies_of r)" using ag by (simp add: agree_def Let_def)
  moreover have "tallies_of ?r3 = (let y = tallies_of r in
      if q then y\<lparr>ty_queries := Suc (ty_queries y), ty_events := Suc (ty_events y), ty_queryOnly := Suc (ty_queryOnly y)\<rparr>
      else y\<lparr>ty_responses := Suc (ty_responses y), ty_events := ty_events y + length evs,
             ty_answers := ty_answers y + length evs\<rparr>)"
    unfolding ce(4) fold_scan_event(1) eff(5) using eff(4) ip evs by (cases q) (auto simp: Let_def)
  moreover have "rp_resolverIP ?r3 = rp_resolverIP r" using ce(1) eff(1) fold_scan_event(2) by simp
  ultimately show ?thesis
    using le res by (cases q) (simp_all add: scan_inv_def agree_def Let_def)
qed

text \<open>A payload without events, or with an error, still counts its direction.\<close>

lemma payload_quiet:
  assumes inv: "scan_inv (r, p, True)" and c: "classifyPayload s r = (k, r1)"
    and r2: "tallies_of r2 = tallies_of r1" "rp_dedupKeys r2 = rp_dedupKeys r1"
      "rp_uniqueClients r2 = rp_uniqueClients r1" "rp_resolverIP r2 = rp_resolverIP r1"
  shows "scan_inv (r2, p\<lparr>td_pending := False\<rparr>, False)"
proof (cases "payload_direction s")
  case None
  then show ?thesis using inv c r2 by (auto simp: classifyPayload_direction scan_inv_def agree_def few_def Let_def)
next
  case (Some d)
  obtain body q ip port where d: "d = (body, q, ip, port)" by (cases d) auto
  then have t: "tally_payload body q ip r = (k, r1)" using c Some by (simp add: classifyPayload_direction)
  note eff = tally_payload_effect [OF t]
  show ?thesis using inv r2 eff(1-3,5)
    by (cases q; cases "rp_resolverIP r = '''' \<or> ip \<noteq> rp_resolverIP r")
      (simp_all add: scan_inv_def agree_def few_def Let_def)
qed

section \<open>A line\<close>

lemma feed_cases:
  assumes "line \<noteq> ''''"
  shows "v_feed line p =
    (if \<not> indented line then
       (case parseTOD (firstToken line) of
          None \<Rightarrow> (Inr [], p\<lparr>td_pending := False\<rparr>)
        | Some tod \<Rightarrow> (Inr [], (td_advance tod p)\<lparr>td_pending := udpHeader line,
            td_pendingTime := if udpHeader line then td_baseDate (td_advance tod p) + tod else td_pendingTime p\<rparr>))
     else if td_pending p then
       (parsePayload p (trimLeftIf (\<lambda>c. c = CHR '' '' \<or> c = CHR 0x09) line) (td_pendingTime p), p\<lparr>td_pending := False\<rparr>)
     else (Inr [], p))"
proof -
  show ?thesis unfolding v_feed_eq using assms
    by (auto simp: tcpdump_feed_def td_advance_def Let_def split: option.split)
qed

lemma scan_inv_lines: "scan_inv (r\<lparr>rp_totalLines := n\<rparr>, p, udp) = scan_inv (r, p, udp)"
  by (simp add: scan_inv_def agree_def few_def tallies_of_def)

lemma scan_inv_header:
  assumes "scan_inv (r, p, u)" "td_resolverIP q = td_resolverIP p"
  shows "\<not> td_pending q \<Longrightarrow> scan_inv (r, q, False)"
    and "scan_inv (r\<lparr>rp_packets := rp_packets r + 1\<rparr>, q, td_pending q)"
  using assms by (auto simp: scan_inv_def agree_def few_def tallies_of_def split: if_splits)

lemma scan_inv_skip: "scan_inv (r, p, u) \<Longrightarrow> scan_inv (r\<lparr>rp_silentSkip := n\<rparr>, p, u)"
  by (cases u) (simp_all add: scan_inv_def agree_def few_def tallies_of_def)

lemma advance_resolver: "td_resolverIP (td_advance tod p) = td_resolverIP p"
  by (simp add: td_advance_def Let_def)

lemma scan_line_inv:
  assumes "scan_inv st"
  shows "scan_inv (scan_line text st)"
proof -
  obtain r p u where st: "st = (r, p, u)" by (cases st) auto
  let ?line = "trimRightIf (\<lambda>c. c = CHR 0x0D) text"
  let ?r = "r\<lparr>rp_totalLines := rp_totalLines r + 1\<rparr>"
  have inv: "scan_inv (?r, p, u)" using assms unfolding st scan_inv_lines .
  have u: "u = td_pending p" using inv by (simp add: scan_inv_def)
  show ?thesis
  proof (cases "?line = ''''")
    case True
    then show ?thesis using inv by (simp add: scan_line_def st Let_def)
  next
    case ne: False
    have ind: "(?line ! 0 = CHR '' '' \<or> ?line ! 0 = CHR 0x09) = indented ?line"
      using ne by (simp add: indented_def hd_conv_nth)
    have tok: "v_firstToken ?line = firstToken ?line" by (simp add: v_firstToken_def firstToken_def)
    note line = scan_line_def Let_def st split scan_raw_def ind tok udpHeader_def [symmetric] feed_cases [OF ne] v_parseTOD_eq
    consider "\<not> indented ?line" | "indented ?line" "\<not> td_pending p" | "indented ?line" "td_pending p" by blast
    then show ?thesis
    proof cases
      case 1
      show ?thesis
      proof (cases "parseTOD (firstToken ?line)")
        case None
        have "scan_inv (?r, p\<lparr>td_pending := False\<rparr>, False)" by (rule scan_inv_header(1) [OF inv]) simp_all
        then show ?thesis unfolding line using ne 1 None by simp
      next
        case (Some tod)
        let ?q = "(td_advance tod p)\<lparr>td_pending := udpHeader ?line,
          td_pendingTime := if udpHeader ?line then td_baseDate (td_advance tod p) + tod else td_pendingTime p\<rparr>"
        have "scan_inv (?r\<lparr>rp_packets := rp_packets ?r + 1\<rparr>, ?q, td_pending ?q)"
          by (rule scan_inv_header(2) [OF inv]) (simp add: advance_resolver)
        then show ?thesis unfolding line using ne 1 Some by simp
      qed
    next
      case 2
      then show ?thesis unfolding line using ne scan_inv_skip [OF inv] u by simp
    next
      case 3
      let ?s = "trimLeftIf (\<lambda>c. c = CHR '' '' \<or> c = CHR 0x09) ?line"
      obtain k r1 where c: "classifyPayload ?s ?r = (k, r1)" by fastforce
      have inv': "scan_inv (?r, p, True)" using inv u 3(2) by simp
      show ?thesis
      proof (cases "parsePayload p ?s (td_pendingTime p)")
        case (Inl e)
        have "scan_inv (r1\<lparr>rp_parseErr := rp_parseErr r1 + 1\<rparr>, p\<lparr>td_pending := False\<rparr>, False)"
          by (rule payload_quiet [OF inv' c]) (simp_all add: tallies_of_def)
        then show ?thesis unfolding line using ne 3 u c Inl by simp
      next
        case (Inr evs)
        show ?thesis
        proof (cases "evs = []")
          case True
          have "scan_inv (r1\<lparr>rp_silentSkip := rp_silentSkip r1 + 1\<rparr>, p\<lparr>td_pending := False\<rparr>, False)"
            by (rule payload_quiet [OF inv' c]) (simp_all add: tallies_of_def)
          then show ?thesis unfolding line using ne 3 u c Inr True by simp
        next
          case False
          then show ?thesis unfolding line using ne 3 u c Inr payload_step [OF inv' c Inr False] by simp
        qed
      qed
    qed
  qed
qed

text \<open>C40. The report never contradicts itself. Whatever the capture contains and however it ends, each
  event the parser emitted is counted in exactly one bucket (a query, an A or AAAA answer, or a fallback
  without an address), there are no more query events than client queries and no more queries and
  responses than packets, and the distinct clients and the distinct triples of the dedup preview are at
  most as many as the events. The reason is that the tool's gate for UDP packets mirrors the parser's
  own, so a line the parser turns into events always has the direction the raw tally gave it.\<close>

theorem dnsscan_tallies_agree:
  fixes contents readErr loc baseDate resolverIP
  defines "r \<equiv> dnsscan_scan contents readErr loc baseDate resolverIP"
  shows "rp_totalEvents r = rp_queryOnly r + rp_answerA r + rp_answerAAAA r + rp_fallback r
     \<and> rp_queryOnly r \<le> rp_clientQueries r \<and> rp_clientQueries r + rp_responses r \<le> rp_packets r
     \<and> card (rp_dedupKeys r) \<le> rp_totalEvents r \<and> card (rp_uniqueClients r) \<le> rp_totalEvents r"
proof -
  let ?p = "v_newTcpdumpDNSParser loc baseDate resolverIP"
  have start: "scan_inv (new_report resolverIP, ?p, False)"
    by (simp add: scan_inv_def agree_def few_def tallies_of_def new_report_def v_newTcpdumpDNSParser_def Let_def)
  have "scan_inv (fold scan_line ts st)" if "scan_inv st" for ts st
    using that by (induction ts arbitrary: st) (simp_all add: scan_line_inv)
  from this [OF start] obtain p u where "scan_inv (r, p, u)"
    unfolding r_def dnsscan_scan_def Let_def by (metis (no_types, lifting) case_prod_conv prod.collapse)
  then show ?thesis by (auto simp: scan_inv_def agree_def few_def tallies_of_def Let_def split: if_splits)
qed

end
