(* ===== verification/GoFormat.thy ===== *)
theory GoFormat
  imports GoTime
begin

text \<open>
  What the program prints with: the decimal verbs of \<open>fmt\<close>, \<open>Time.Format\<close> for the layouts that show a
  date and a clock, and the column layout of \<open>text/tabwriter\<close>. The lemmas show that a printed instant
  is read back by the parser of \<open>GoTime\<close>.
\<close>

section \<open>Numbers in decimal\<close>

text \<open>The verb \<open>%d\<close>.\<close>

definition digitChar :: "nat \<Rightarrow> char" where
  "digitChar d = ''0123456789'' ! d"

fun formatNat :: "nat \<Rightarrow> string" where
  "formatNat n = (if n < 10 then [digitChar n] else formatNat (n div 10) @ [digitChar (n mod 10)])"

declare formatNat.simps [simp del]

definition formatInt :: "int \<Rightarrow> string" where
  "formatInt z = (if z < 0 then ''-'' @ formatNat (nat (- z)) else formatNat (nat z))"

lemma digit_cases: "d < 10 \<Longrightarrow> d \<in> {0, 1, 2, 3, 4, 5, 6, 7, 8, 9 :: nat}"
  by auto

lemma digitChar_val: "d < 10 \<Longrightarrow> digitVal (digitChar d) = d"
  by (drule digit_cases) (auto simp: digitChar_def digitVal_def)

lemma digitChar_digit: "d < 10 \<Longrightarrow> isDigit (digitChar d)"
  by (drule digit_cases) (auto simp: digitChar_def isDigit_def)

lemma formatNat_val: "digitsVal (formatNat n) = int n"
proof (induction n rule: formatNat.induct)
  case (1 n)
  show ?case
  proof (cases "n < 10")
    case True
    then show ?thesis by (subst formatNat.simps) (simp add: digitsVal_def digitChar_val)
  next
    case False
    have "digitsVal (formatNat n) = 10 * digitsVal (formatNat (n div 10)) + int (n mod 10)"
      using False by (subst formatNat.simps) (simp add: digitsVal_def digitChar_val)
    then show ?thesis using 1 [OF False] by (simp add: zdiv_int zmod_int)
  qed
qed

lemma formatNat_digits: "list_all isDigit (formatNat n)"
proof (induction n rule: formatNat.induct)
  case (1 n)
  then show ?case by (subst formatNat.simps) (simp add: digitChar_digit)
qed

lemma formatNat_inj: "formatNat m = formatNat n \<longleftrightarrow> m = n"
  by (metis formatNat_val of_nat_eq_iff)

lemma formatNat_no_dot: "CHR ''.'' \<notin> set (formatNat n)"
  using formatNat_digits [of n] by (auto simp: list_all_iff isDigit_def)

section \<open>Padded numbers\<close>

definition pad0 :: "nat \<Rightarrow> nat \<Rightarrow> string" where
  "pad0 w n = (let s = formatNat n in replicate (w - length s) (CHR ''0'') @ s)"

lemma formatNat_1: "n < 10 \<Longrightarrow> formatNat n = [digitChar n]"
  by (simp add: formatNat.simps [of n])

lemma formatNat_step: "10 \<le> n \<Longrightarrow> formatNat n = formatNat (n div 10) @ [digitChar (n mod 10)]"
  by (simp add: formatNat.simps [of n])

lemma formatNat_2: "10 \<le> n \<Longrightarrow> n < 100 \<Longrightarrow> formatNat n = [digitChar (n div 10), digitChar (n mod 10)]"
  by (simp add: formatNat_step formatNat_1)

lemma formatNat_3:
  assumes "100 \<le> n" "n < 1000"
  shows "formatNat n = [digitChar (n div 100), digitChar (n div 10 mod 10), digitChar (n mod 10)]"
proof -
  have "10 \<le> n div 10" "n div 10 < 100" using assms by (simp_all add: less_mult_imp_div_less)
  then show ?thesis using assms by (simp add: formatNat_step [of n] formatNat_2 div_mult2_eq [symmetric])
qed

lemma formatNat_4:
  assumes "1000 \<le> n" "n < 10000"
  shows "formatNat n = [digitChar (n div 1000), digitChar (n div 100 mod 10), digitChar (n div 10 mod 10), digitChar (n mod 10)]"
proof -
  have "100 \<le> n div 10" "n div 10 < 1000" using assms by (simp_all add: less_mult_imp_div_less)
  then show ?thesis using assms by (simp add: formatNat_step [of n] formatNat_3 div_mult2_eq [symmetric])
qed

lemma digitChar_0: "CHR ''0'' = digitChar 0"
  by (simp add: digitChar_def)

lemma pad0_2: "n < 100 \<Longrightarrow> pad0 2 n = [digitChar (n div 10), digitChar (n mod 10)]"
  by (cases "n < 10") (simp_all add: pad0_def formatNat_1 formatNat_2 digitChar_0 numeral_2_eq_2)

lemma pad0_4:
  assumes "n < 10000"
  shows "pad0 4 n = [digitChar (n div 1000), digitChar (n div 100 mod 10), digitChar (n div 10 mod 10), digitChar (n mod 10)]"
proof -
  consider "n < 10" | "10 \<le> n" "n < 100" | "100 \<le> n" "n < 1000" | "1000 \<le> n" by linarith
  then show ?thesis
  proof cases
    case 1
    then show ?thesis by (simp add: pad0_def formatNat_1 digitChar_0 numeral_3_eq_3)
  next
    case 2
    then have "n div 10 mod 10 = n div 10" by (simp add: less_mult_imp_div_less)
    then show ?thesis using 2 by (simp add: pad0_def formatNat_2 digitChar_0 numeral_2_eq_2)
  next
    case 3
    then have "n div 100 mod 10 = n div 100" by (simp add: less_mult_imp_div_less)
    then show ?thesis using 3 by (simp add: pad0_def formatNat_3 digitChar_0)
  next
    case 4
    then show ?thesis using assms by (simp add: pad0_def formatNat_4)
  qed
qed

section \<open>The calendar, backwards\<close>

text \<open>
  The date of a day counted from 1 January 1970: the century, the four-year cycle and the year of the
  400-year era, years starting in March, then the month and the day.
\<close>

definition civilOfDays :: "int \<Rightarrow> int \<times> int \<times> int" where
  "civilOfDays days =
     (let z = days + 719468; era = z div 146097; doe = z mod 146097;
          c = min 3 (doe div 36524); r1 = doe - c * 36524;
          q = r1 div 1461; r2 = r1 mod 1461;
          a = min 3 (r2 div 365); doy = r2 - a * 365;
          mp = (5 * doy + 2) div 153;
          d = doy - (153 * mp + 2) div 5 + 1;
          m = (if mp < 10 then mp + 3 else mp - 9);
          y = era * 400 + c * 100 + q * 4 + a + (if m \<le> 2 then 1 else 0)
      in (y, m, d))"

lemma month_of_doy:
  fixes doy :: int
  assumes "0 \<le> doy" "doy \<le> 365"
  defines "mp \<equiv> (5 * doy + 2) div 153"
  defines "d \<equiv> doy - (153 * mp + 2) div 5 + 1" and "m \<equiv> (if mp < 10 then mp + 3 else mp - 9)"
  shows "1 \<le> m" "m \<le> 12" "(m + 9) mod 12 = mp" "1 \<le> d" "(153 * mp + 2) div 5 + d - 1 = doy"
    "m = 2 \<longrightarrow> d \<le> 28 \<or> d = 29 \<and> doy = 365" "m \<noteq> 2 \<longrightarrow> d \<le> (if m \<in> {4, 6, 9, 11} then 30 else 31)"
proof -
  have b: "153 * mp \<le> 5 * doy + 2" "5 * doy + 2 < 153 * mp + 153" unfolding mp_def by presburger+
  have "mp = 0 \<or> mp = 1 \<or> mp = 2 \<or> mp = 3 \<or> mp = 4 \<or> mp = 5 \<or> mp = 6 \<or> mp = 7 \<or> mp = 8 \<or> mp = 9 \<or> mp = 10 \<or> mp = 11"
  proof -
    have "0 \<le> mp" "mp \<le> 11" using b assms(1,2) by linarith+
    then have "mp \<in> set [0..11]" by simp
    then show ?thesis by (simp add: upto.simps del: set_upto)
  qed
  then have "1 \<le> m \<and> m \<le> 12 \<and> (m + 9) mod 12 = mp \<and> 1 \<le> d
      \<and> (m = 2 \<longrightarrow> d \<le> 28 \<or> d = 29 \<and> doy = 365) \<and> (m \<noteq> 2 \<longrightarrow> d \<le> (if m \<in> {4, 6, 9, 11} then 30 else 31))"
    using b assms(1,2) unfolding d_def m_def by (elim disjE) (simp_all, linarith+)
  then show "1 \<le> m" "m \<le> 12" "(m + 9) mod 12 = mp" "1 \<le> d"
    "m = 2 \<longrightarrow> d \<le> 28 \<or> d = 29 \<and> doy = 365" "m \<noteq> 2 \<longrightarrow> d \<le> (if m \<in> {4, 6, 9, 11} then 30 else 31)" by blast+
  show "(153 * mp + 2) div 5 + d - 1 = doy" by (simp add: d_def)
qed

lemma year_of_doe:
  fixes doe :: int
  assumes "0 \<le> doe" "doe < 146097"
  defines "c \<equiv> min 3 (doe div 36524)" defines "r1 \<equiv> doe - c * 36524"
  defines "q \<equiv> r1 div 1461" and "r2 \<equiv> r1 mod 1461"
  defines "a \<equiv> min 3 (r2 div 365)" defines "doy \<equiv> r2 - a * 365"
  shows "0 \<le> c" "c \<le> 3" "0 \<le> q" "q \<le> 24" "0 \<le> a" "a \<le> 3" "0 \<le> doy" "doy \<le> 365"
    "doe = 36524 * c + 1461 * q + 365 * a + doy" "doy = 365 \<longrightarrow> a = 3 \<and> (q = 24 \<longrightarrow> c = 3)"
proof -
  show c: "0 \<le> c" "c \<le> 3" using assms(1) by (simp_all add: c_def)
  have r1: "0 \<le> r1" "r1 \<le> 36524" "r1 = 36524 \<longrightarrow> c = 3"
    using assms(1,2) unfolding r1_def c_def min_def by (auto split: if_splits)
  show q: "0 \<le> q" "q \<le> 24" using r1(1,2) unfolding q_def by auto
  have r2: "0 \<le> r2" "r2 \<le> 1460" "r1 = 1461 * q + r2" unfolding r2_def q_def by auto
  show a: "0 \<le> a" "a \<le> 3" using r2(1) by (simp_all add: a_def)
  show d: "0 \<le> doy" "doy \<le> 365" using r2(1,2) unfolding doy_def a_def min_def by (auto split: if_splits)
  show "doe = 36524 * c + 1461 * q + 365 * a + doy" using r2(3) unfolding r1_def doy_def by simp
  show "doy = 365 \<longrightarrow> a = 3 \<and> (q = 24 \<longrightarrow> c = 3)"
  proof
    assume f: "doy = 365"
    have "a = 3" using f r2(1,2) unfolding doy_def a_def min_def by (auto split: if_splits)
    moreover have "c = 3" if "q = 24"
    proof -
      have "r2 = 1460" using f \<open>a = 3\<close> by (simp add: doy_def)
      then have "r1 = 36524" using r2(3) that by simp
      then show ?thesis using r1(3) by simp
    qed
    ultimately show "a = 3 \<and> (q = 24 \<longrightarrow> c = 3)" by blast
  qed
qed

lemma leap_of_cycle:
  fixes e c q :: int
  assumes "0 \<le> c" "c \<le> 3" "0 \<le> q" "q \<le> 24" "q = 24 \<longrightarrow> c = 3"
  shows "isLeap (400 * e + 100 * c + 4 * q + 4)"
proof (cases "q = 24")
  case True
  then have "400 * e + 100 * c + 4 * q + 4 = 400 * (e + 1)" using assms(5) by simp
  moreover have "(400 * (e + 1)) mod 4 = 0" by presburger
  moreover have "(400 * (e + 1)) mod 400 = 0" by simp
  ultimately show ?thesis unfolding isLeap_def by (simp only: simp_thms)
next
  case False
  have y: "400 * e + 100 * c + 4 * q + 4 = (4 * q + 4) + 100 * (4 * e + c)" by simp
  have "(4 * q + 4 + 100 * (4 * e + c)) mod 4 = 0" by presburger
  moreover have "(4 * q + 4 + 100 * (4 * e + c)) mod 100 = 4 * q + 4"
    unfolding mod_mult_self2 using False assms(3,4) by simp
  ultimately show ?thesis unfolding isLeap_def y using assms(3) by simp
qed

lemma civilOfDays_correct:
  assumes "civilOfDays days = (y, m, d)"
  shows "daysSinceEpoch y m d = days" "1 \<le> m" "m \<le> 12" "1 \<le> d" "d \<le> daysIn m y"
    "(days + 719468) div 146097 * 400 \<le> y" "y \<le> (days + 719468) div 146097 * 400 + 400"
proof -
  define era doe where "era = (days + 719468) div 146097" and "doe = (days + 719468) mod 146097"
  define c where "c = min 3 (doe div 36524)"
  define r1 where "r1 = doe - c * 36524"
  define q r2 where "q = r1 div 1461" and "r2 = r1 mod 1461"
  define a where "a = min 3 (r2 div 365)"
  define doy where "doy = r2 - a * 365"
  define mp where "mp = (5 * doy + 2) div 153"
  note defs = c_def r1_def q_def r2_def a_def doy_def
  have doe: "0 \<le> doe" "doe < 146097" "days + 719468 = era * 146097 + doe" unfolding doe_def era_def by auto
  note yr = year_of_doe [OF doe(1,2), folded defs]
  have out: "d = doy - (153 * mp + 2) div 5 + 1" "m = (if mp < 10 then mp + 3 else mp - 9)"
    "y = era * 400 + c * 100 + q * 4 + a + (if m \<le> 2 then 1 else 0)"
    using assms unfolding civilOfDays_def Let_def era_def [symmetric] doe_def [symmetric] c_def [symmetric]
      r1_def [symmetric] q_def [symmetric] r2_def [symmetric] a_def [symmetric] doy_def [symmetric] mp_def [symmetric]
    by auto
  note mo = month_of_doy [OF yr(7,8), folded mp_def, folded out(1), folded out(2)]
  show "1 \<le> m" "m \<le> 12" "1 \<le> d" by (fact mo)+
  define yoe where "yoe = c * 100 + q * 4 + a"
  have yoe: "0 \<le> yoe" "yoe < 400" "yoe div 4 = c * 25 + q" "yoe div 100 = c" using yr(1-6) unfolding yoe_def by auto
  have y': "(if m \<le> 2 then y - 1 else y) = era * 400 + yoe" using out(3) unfolding yoe_def by simp
  show "(days + 719468) div 146097 * 400 \<le> y" "y \<le> (days + 719468) div 146097 * 400 + 400"
    unfolding era_def [symmetric] using y' yoe(1,2) by (cases "m \<le> 2", simp_all)+
  have "(era * 400 + yoe) div 400 = era" using yoe(1,2) by auto
  then show "daysSinceEpoch y m d = days"
    unfolding daysSinceEpoch_def Let_def y' mo(3) using mo(5) yoe(3,4) yr(9) doe(3) unfolding yoe_def by simp
  show "d \<le> daysIn m y"
  proof (cases "m = 2")
    case True
    then have "y = 400 * era + 100 * c + 4 * q + a + 1" using out(3) by simp
    then have "isLeap y" if "doy = 365" using leap_of_cycle [OF yr(1-4), of era] yr(10) that by (simp add: algebra_simps)
    then show ?thesis using mo(6) True by (auto simp: daysIn_def)
  next
    case False
    then show ?thesis using mo(7) by (auto simp: daysIn_def)
  qed
qed

section \<open>Printed instants\<close>

text \<open>\<open>t.Format\<close> of an instant in UTC with the layouts \<open>2006-01-02\<close>, \<open>15:04:05\<close> and both.\<close>

definition format_year :: "int \<Rightarrow> string" where
  "format_year y = (if y < 0 then ''-'' @ pad0 4 (nat (- y)) else pad0 4 (nat y))"

definition format_date :: "int \<Rightarrow> string" where
  "format_date days =
     (let (y, m, d) = civilOfDays days
      in format_year y @ ''-'' @ pad0 2 (nat m) @ ''-'' @ pad0 2 (nat d))"

definition format_clock :: "int \<Rightarrow> string" where
  "format_clock sod =
     pad0 2 (nat (sod div 3600)) @ '':'' @ pad0 2 (nat (sod div 60 mod 60)) @ '':'' @ pad0 2 (nat (sod mod 60))"

definition formatDateTime :: "time \<Rightarrow> string" where
  "formatDateTime t = format_date (t div second div 86400) @ '' '' @ format_clock (t div second mod 86400)"

lemma formatDateTime_example: "formatDateTime (1784104974 * second + 7) = ''2026-07-15 08:42:54''"
  by code_simp

text \<open>Each element of a layout reads the number that was printed and leaves the rest.\<close>

lemma digits_shape:
  "n < 100 \<Longrightarrow> \<exists>a b. pad0 2 n = [digitChar a, digitChar b] \<and> a < 10 \<and> b < 10 \<and> n = 10 * a + b"
  by (intro exI [of _ "n div 10"] exI [of _ "n mod 10"]) (simp add: pad0_2 less_mult_imp_div_less)

lemma getnum_pad0:
  assumes "n < 100"
  shows "getnum (pad0 2 n @ r) fixed = Some (int n, r)"
proof -
  obtain a b where "pad0 2 n = [digitChar a, digitChar b]" "a < 10" "b < 10" "n = 10 * a + b"
    using digits_shape [OF assms] by blast
  then show ?thesis by (simp add: getnum_def isDigitAt_def digitChar_digit digitChar_val)
qed

lemma atoi_digits:
  assumes "list_all isDigit s"
  shows "time_atoi s = Some (digitsVal s)"
proof (cases s)
  case (Cons c cs)
  then have "c \<noteq> CHR ''-''" "c \<noteq> CHR ''+''" using assms by (auto simp: isDigit_def)
  then show ?thesis using assms Cons by (simp add: time_atoi_def)
qed (simp add: time_atoi_def digitsVal_def)

lemma pad0_4_value:
  assumes "n < 10000"
  shows "time_atoi (pad0 4 n) = Some (int n)"
proof -
  let ?s = "pad0 4 n"
  have d: "n div 1000 < 10" "n div 100 mod 10 < 10" "n div 10 mod 10 < 10" "n mod 10 < 10"
    using assms by (simp_all add: less_mult_imp_div_less)
  have n: "n = 1000 * (n div 1000) + 100 * (n div 100 mod 10) + 10 * (n div 10 mod 10) + n mod 10"
  proof -
    have e: "n div 10 div 10 = n div 100" "n div 100 div 10 = n div 1000" by (simp_all add: div_mult2_eq [symmetric])
    have "n = 10 * (n div 10) + n mod 10" "n div 10 = 10 * (n div 10 div 10) + n div 10 mod 10"
      "n div 10 div 10 = 10 * (n div 10 div 10 div 10) + n div 10 div 10 mod 10" by simp_all
    then show ?thesis unfolding e by linarith
  qed
  have "list_all isDigit ?s" by (simp add: pad0_4 [OF assms] digitChar_digit d)
  moreover have "digitsVal ?s = int (1000 * (n div 1000) + 100 * (n div 100 mod 10) + 10 * (n div 10 mod 10) + n mod 10)"
    by (simp add: pad0_4 [OF assms] digitsVal_def digitChar_val d)
  ultimately show ?thesis using atoi_digits n by simp
qed

lemma parse_year:
  assumes "0 \<le> y" "y < 10000"
  shows "parseChunk Year4 b (format_year y @ r) f = Some (f\<lparr>tf_year := y\<rparr>, r)"
proof -
  have "nat y < 10000" using assms by simp
  note p = pad0_4_value [OF this]
  have l: "length (pad0 4 (nat y)) = 4" "isDigitAt (pad0 4 (nat y) @ r) 0"
    using assms by (simp_all add: pad0_4 isDigitAt_def digitChar_digit less_mult_imp_div_less)
  then show ?thesis using p assms(1) by (simp add: format_year_def)
qed

lemma parse_numbers:
  "1 \<le> m \<Longrightarrow> m \<le> 12 \<Longrightarrow> parseChunk Month2 b (pad0 2 (nat m) @ r) f = Some (f\<lparr>tf_month := m\<rparr>, r)"
  "0 \<le> d \<Longrightarrow> d < 100 \<Longrightarrow> parseChunk Day2 b (pad0 2 (nat d) @ r) f = Some (f\<lparr>tf_day := d\<rparr>, r)"
  "0 \<le> h \<Longrightarrow> h < 24 \<Longrightarrow> parseChunk Hour2 b (pad0 2 (nat h) @ r) f = Some (f\<lparr>tf_hour := h\<rparr>, r)"
  "0 \<le> i \<Longrightarrow> i < 60 \<Longrightarrow> parseChunk Minute2 b (pad0 2 (nat i) @ r) f = Some (f\<lparr>tf_min := i\<rparr>, r)"
  "0 \<le> i \<Longrightarrow> i < 60 \<Longrightarrow> parseChunk Second2 b (pad0 2 (nat i)) f = Some (f\<lparr>tf_sec := i\<rparr>, [])"
  using getnum_pad0 [of "nat i" "[]"] by (simp_all add: getnum_pad0 parseSeconds_def)

lemma digitChar_space: "d < 10 \<Longrightarrow> digitChar d \<noteq> CHR '' ''"
  by (drule digit_cases) (auto simp: digitChar_def)

lemma parse_literals:
  "parseChunk (Lit ''-'') b (''-'' @ r) f = Some (f, r)"
  "parseChunk (Lit '':'') b ('':'' @ r) f = Some (f, r)"
  "n < 100 \<Longrightarrow> parseChunk (Lit '' '') b ('' '' @ pad0 2 n @ r) f = Some (f, pad0 2 n @ r)"
  using digits_shape [of n] by (auto simp: digitChar_space)

text \<open>The fields of a printed instant, and the round trip through the parser.\<close>

lemma parse_formatDateTime:
  assumes "civilOfDays (t div second div 86400) = (y, m, d)" "0 \<le> y" "y < 10000"
  shows "parseInLocation
      [Year4, Lit ''-'', Month2, Lit ''-'', Day2, Lit '' '', Hour2, Lit '':'', Minute2, Lit '':'', Second2]
      (formatDateTime t) UTC = Some (truncateSecond t)"
proof -
  define S where "S = t div second mod 86400"
  define h mi se where "h = S div 3600" and "mi = S div 60 mod 60" and "se = S mod 60"
  have S: "0 \<le> S" "S < 86400" unfolding S_def by simp_all
  have b: "0 \<le> h" "h < 24" "0 \<le> mi" "mi < 60" "0 \<le> se" "se < 60" "S = h * 3600 + mi * 60 + se"
  proof -
    have e: "S div 60 div 60 = S div 3600" by (simp add: zdiv_zmult2_eq [symmetric])
    have "S = 60 * (S div 60) + S mod 60" "S div 60 = 60 * (S div 60 div 60) + S div 60 mod 60" by simp_all
    then show "S = h * 3600 + mi * 60 + se" unfolding h_def mi_def se_def e by linarith
    show "h < 24" "0 \<le> h" using S unfolding h_def by auto
    show "0 \<le> mi" "mi < 60" "0 \<le> se" "se < 60" unfolding mi_def se_def by simp_all
  qed
  note c = civilOfDays_correct [OF assms(1)]
  have dd: "0 \<le> d" "d < 100" using c(4,5) by (auto simp: daysIn_def split: if_splits)
  have f: "formatDateTime t = format_year y @ ''-'' @ pad0 2 (nat m) @ ''-'' @ pad0 2 (nat d) @ '' ''
      @ pad0 2 (nat h) @ '':'' @ pad0 2 (nat mi) @ '':'' @ pad0 2 (nat se)"
    unfolding formatDateTime_def format_date_def format_clock_def assms(1) S_def [symmetric] h_def [symmetric]
      mi_def [symmetric] se_def [symmetric] by simp
  have h2: "nat h < 100" using b(2) by simp
  have p: "parseChunks [Year4, Lit ''-'', Month2, Lit ''-'', Day2, Lit '' '', Hour2, Lit '':'', Minute2, Lit '':'', Second2]
      (formatDateTime t) tfields_init
    = Some (tfields_init\<lparr>tf_year := y, tf_month := m, tf_day := d, tf_hour := h, tf_min := mi, tf_sec := se\<rparr>)"
    unfolding f parseChunks.simps parse_year [OF assms(2,3)] parse_literals(1,2) parse_literals(3) [OF h2]
      parse_numbers(1) [OF c(2,3)] parse_numbers(2) [OF dd] parse_numbers(3) [OF b(1,2)] parse_numbers(4) [OF b(3,4)]
      parse_numbers(5) [OF b(5,6)] option.case split by simp
  have "goDate UTC y m d h mi se 0 = truncateSecond t"
  proof -
    have "goDate UTC y m d h mi se 0 = (t div second div 86400 * 86400 + S) * second"
      using b(7) by (simp add: goDate_def unixInLocation_def UTC_def unixOfCivil_def c(1))
    also have "\<dots> = t div second * second" unfolding S_def by simp
    also have "\<dots> = truncateSecond t" by (simp add: truncateSecond_def minus_mod_eq_div_mult)
    finally show ?thesis .
  qed
  then show ?thesis using c(4,5) unfolding parseInLocation_def p by (simp add: tfields_init_def)
qed

section \<open>Columns\<close>

text \<open>
  \<open>tabwriter\<close> with no minimal width, padding 2 and spaces. The text is cut into lines and cells; a cell
  followed by a tab belongs to the column of its index, and a column is a run of consecutive lines that
  have such a cell. Its width is that of its widest cell and the padding; the last cell of a line is
  not padded. Widths count the runes of valid UTF-8; the control characters vertical tab, form feed
  and escape, which the package also reads, do not occur in the texts modelled.
\<close>

fun splitOn :: "char \<Rightarrow> string \<Rightarrow> string list" where
  "splitOn c [] = [[]]"
| "splitOn c (x # xs) =
     (if x = c then [] # splitOn c xs
      else case splitOn c xs of [] \<Rightarrow> [[x]] | l # ls \<Rightarrow> (x # l) # ls)"

abbreviation newline :: char where "newline \<equiv> CHR 0x0A"
abbreviation tabchar :: char where "tabchar \<equiv> CHR 0x09"

definition textWidth :: "string \<Rightarrow> nat" where
  "textWidth s = length (filter (\<lambda>c. \<not> (128 \<le> char_code c \<and> char_code c < 192)) s)"

definition column_run :: "string list list \<Rightarrow> nat \<Rightarrow> nat \<Rightarrow> string list list" where
  "column_run rows i j =
     (let P = (\<lambda>l. Suc j < length l) in takeWhile P (rev (take i rows)) @ takeWhile P (drop i rows))"

definition column_width :: "string list list \<Rightarrow> nat \<Rightarrow> nat \<Rightarrow> nat" where
  "column_width rows i j = fold max (map (\<lambda>l. textWidth (l ! j) + 2) (column_run rows i j)) 0"

definition padRight :: "nat \<Rightarrow> string \<Rightarrow> string" where
  "padRight w s = s @ replicate (w - textWidth s) (CHR '' '')"

definition layout_line :: "string list list \<Rightarrow> nat \<Rightarrow> string" where
  "layout_line rows i =
     (let l = rows ! i
      in concat (map (\<lambda>j. padRight (column_width rows i j) (l ! j)) [0..<length l - 1]) @ last l)"

fun join_lines :: "string list \<Rightarrow> string" where
  "join_lines [] = []"
| "join_lines [l] = l"
| "join_lines (l # ls) = l @ newline # join_lines ls"

definition tabwriter :: "string \<Rightarrow> string" where
  "tabwriter text =
     (let rows = map (splitOn tabchar) (splitOn newline text)
      in join_lines (map (layout_line rows) [0..<length rows]))"

lemma tabwriter_example:
  "tabwriter (''A'' @ [tabchar] @ ''LONG'' @ [tabchar] @ ''C'' @ [newline] @ ''xyz'' @ [tabchar] @ ''1'' @ [tabchar]
       @ ''2'' @ [newline]) =
     ''A    LONG  C'' @ [newline] @ ''xyz  1     2'' @ [newline]"
  by code_simp

end
