(* ===== verification/LoadGen.thy ===== *)
theory LoadGen
  imports GoFormat ClickHouse
begin

text \<open>
  \<open>cmd/loadgen/main.go\<close>: the generator that floods the topic with synthetic flows. A record is a
  function of its index and the clock; the records are sent in batches. The Kafka writer is
  third-party code: a function that takes a batch and says whether it was accepted.
\<close>

section \<open>A record\<close>

definition srcAddr :: "nat \<Rightarrow> string" where
  "srcAddr i = ''10.'' @ formatNat (i div 2 ^ 16 mod 256) @ ''.'' @ formatNat (i div 2 ^ 8 mod 256) @ ''.''
     @ formatNat (i mod 256)"

definition dstAddr :: "nat \<Rightarrow> string" where
  "dstAddr i = ''203.0.'' @ formatNat (i div 2 ^ 8 mod 256) @ ''.'' @ formatNat (i mod 256)"

definition srcPort :: "nat \<Rightarrow> nat" where "srcPort i = 1024 + i mod 2 ^ 15"

text \<open>A quoted field and a number field of the record.\<close>

definition quoted :: "string \<Rightarrow> string \<Rightarrow> string" where
  "quoted k v = [CHR 0x22] @ k @ [CHR 0x22] @ '':'' @ [CHR 0x22] @ v @ [CHR 0x22]"

definition number :: "string \<Rightarrow> string \<Rightarrow> string" where
  "number k v = [CHR 0x22] @ k @ [CHR 0x22] @ '':'' @ v"

definition flowJSON :: "int \<Rightarrow> nat \<Rightarrow> string" where
  "flowJSON now i = ''{'' @ joinWith (CHR '','')
     [quoted ''type'' ''NETFLOW_V9'', number ''time_received_ns'' (formatInt now),
      number ''sequence_num'' (formatNat i), number ''sampling_rate'' ''1000'',
      quoted ''sampler_address'' ''10.0.0.1'', number ''time_flow_start_ns'' (formatInt now),
      number ''time_flow_end_ns'' (formatInt (now + 500000)), number ''bytes'' (formatNat 1500),
      number ''packets'' (formatNat 3), quoted ''src_addr'' (srcAddr i), quoted ''dst_addr'' (dstAddr i),
      quoted ''etype'' ''IPv4'', quoted ''proto'' ''TCP'', number ''src_port'' (formatNat (srcPort i)),
      number ''dst_port'' (formatNat 443), number ''in_if'' ''12'', number ''out_if'' ''7'',
      number ''src_as'' ''13335'', number ''dst_as'' ''15169'', number ''tcp_flags'' ''24'',
      number ''ip_ttl'' ''58''] @ ''}''"

text \<open>
  The record promises a distinct 7-tuple for each index. It keeps the promise for \<open>2 ^ 24\<close> records,
  by the source address alone; after that the 7-tuples repeat.
\<close>

lemma srcAddr_fields:
  "split (srcAddr i) ''.''
     = [''10'', formatNat (i div 2 ^ 16 mod 256), formatNat (i div 2 ^ 8 mod 256), formatNat (i mod 256)]"
proof -
  have "srcAddr i = joinWith (CHR ''.'')
      [''10'', formatNat (i div 2 ^ 16 mod 256), formatNat (i div 2 ^ 8 mod 256), formatNat (i mod 256)]"
    by (simp add: srcAddr_def)
  then show ?thesis using formatNat_no_dot by (simp only:) (rule split_joinWith; simp)
qed

theorem loadgen_distinct:
  assumes "i < 2 ^ 24" "j < 2 ^ 24" "srcAddr i = srcAddr j"
  shows "i = j"
proof -
  have "split (srcAddr i) ''.'' = split (srcAddr j) ''.''" using assms(3) by simp
  then have e: "i div 2 ^ 16 mod 256 = j div 2 ^ 16 mod 256" "i div 2 ^ 8 mod 256 = j div 2 ^ 8 mod 256"
    "i mod 256 = j mod 256" unfolding srcAddr_fields by (simp_all add: formatNat_inj)
  have "n = (n div 2 ^ 16 mod 256 * 256 + n div 2 ^ 8 mod 256) * 256 + n mod 256" if "n < 2 ^ 24" for n :: nat
  proof -
    have "n div 2 ^ 16 < 256" using that by (intro less_mult_imp_div_less) simp
    moreover have "n div 2 ^ 16 = n div 2 ^ 8 div 256" by (simp add: div_mult2_eq [symmetric])
    ultimately have "n div 2 ^ 16 mod 256 * 256 + n div 2 ^ 8 mod 256 = n div 256" by simp
    then show ?thesis by (simp only: div_mult_mod_eq)
  qed
  then show ?thesis using e assms(1,2) by metis
qed

lemma loadgen_repeats:
  "srcAddr (i + 2 ^ 24) = srcAddr i" "dstAddr (i + 2 ^ 24) = dstAddr i" "srcPort (i + 2 ^ 24) = srcPort i"
proof -
  have "(i + 256 * 2 ^ 16) div 2 ^ 16 = 256 + i div 2 ^ 16" by (rule div_mult_self1) simp
  moreover have "(i + 2 ^ 16 * 2 ^ 8) div 2 ^ 8 = 2 ^ 16 + i div 2 ^ 8" by (rule div_mult_self1) simp
  ultimately have "(i + 2 ^ 24) div 2 ^ 16 mod 256 = i div 2 ^ 16 mod 256" "(i + 2 ^ 24) div 2 ^ 8 mod 256 = i div 2 ^ 8 mod 256"
    by (simp_all add: mod_add_left_eq [symmetric])
  moreover have "(i + 256 * 2 ^ 16) mod 256 = i mod 256" by (rule mod_mult_self2)
  moreover have "(i + 2 ^ 15 * 2 ^ 9) mod 2 ^ 15 = i mod 2 ^ 15" by (rule mod_mult_self2)
  ultimately have "(i + 2 ^ 24) div 2 ^ 16 mod 256 = i div 2 ^ 16 mod 256" "(i + 2 ^ 24) div 2 ^ 8 mod 256 = i div 2 ^ 8 mod 256"
    "(i + 2 ^ 24) mod 256 = i mod 256" "(i + 2 ^ 24) mod 2 ^ 15 = i mod 2 ^ 15" by simp_all
  then show "srcAddr (i + 2 ^ 24) = srcAddr i" "dstAddr (i + 2 ^ 24) = dstAddr i" "srcPort (i + 2 ^ 24) = srcPort i"
    by (simp_all add: srcAddr_def dstAddr_def srcPort_def)
qed

section \<open>Publishing\<close>

text \<open>
  \<open>flush\<close> sends what is pending, unless nothing is. The loop flushes when exactly \<open>batch\<close> messages are
  pending, so with a batch size of zero everything waits for the last flush, and a negative one makes
  the allocation of the batch panic. \<open>clock\<close> gives the time read for each record.
\<close>

datatype lg_error = Panic | WriteError nat | FinalFlush

definition lg_flush :: "('c, string) sender \<Rightarrow> string list \<Rightarrow> 'c \<Rightarrow> bool \<times> 'c" where
  "lg_flush write msgs c = (if msgs = [] then (True, c) else write msgs c)"

fun lg_loop :: "('c, string) sender \<Rightarrow> (nat \<Rightarrow> int) \<Rightarrow> int \<Rightarrow> nat list \<Rightarrow> string list \<Rightarrow> 'c \<Rightarrow> lg_error + string list \<times> 'c" where
  "lg_loop write clock batch [] msgs c = Inr (msgs, c)"
| "lg_loop write clock batch (i # is) msgs c =
     (let msgs = msgs @ [flowJSON (clock i) i]
      in if int (length msgs) = batch then
           (case lg_flush write msgs c of
              (False, c') \<Rightarrow> Inl (WriteError i)
            | (True, c') \<Rightarrow> lg_loop write clock batch is [] c')
         else lg_loop write clock batch is msgs c)"

definition loadgen :: "('c, string) sender \<Rightarrow> (nat \<Rightarrow> int) \<Rightarrow> int \<Rightarrow> int \<Rightarrow> 'c \<Rightarrow> lg_error + 'c" where
  "loadgen write clock howMany batch c =
     (if batch < 0 then Inl Panic
      else case lg_loop write clock batch [0..<nat howMany] [] c of
        Inl e \<Rightarrow> Inl e
      | Inr (msgs, c) \<Rightarrow> (case lg_flush write msgs c of (False, c') \<Rightarrow> Inl FinalFlush | (True, c') \<Rightarrow> Inr c'))"

text \<open>A writer that accepts everything and remembers the batches.\<close>

definition collect :: "(string list list, string) sender" where
  "collect msgs bs = (True, bs @ [msgs])"

lemma lg_loop_collect:
  "\<exists>ms bs'. lg_loop collect clock batch is msgs bs = Inr (ms, bs')
     \<and> concat bs' @ ms = concat bs @ msgs @ map (\<lambda>i. flowJSON (clock i) i) is
     \<and> (list_all (\<lambda>b. int (length b) = batch) bs \<longrightarrow> list_all (\<lambda>b. int (length b) = batch) bs')
     \<and> (int (length msgs) < batch \<longrightarrow> int (length ms) < batch)"
proof (induction "is" arbitrary: msgs bs)
  case Nil
  then show ?case by simp
next
  case (Cons i "is")
  let ?m = "msgs @ [flowJSON (clock i) i]"
  show ?case
  proof (cases "int (length ?m) = batch")
    case True
    then show ?thesis using Cons [of "[]" "bs @ [?m]"]
      by (auto simp: lg_flush_def collect_def Let_def)
  next
    case False
    then show ?thesis using Cons [of ?m bs] by (auto simp: Let_def)
  qed
qed

text \<open>Every record is published, once, in order, in full batches but for the last.\<close>

theorem loadgen_publishes:
  assumes "0 \<le> batch"
  shows "\<exists>bs. loadgen collect clock howMany batch [] = Inr bs
     \<and> concat bs = map (\<lambda>i. flowJSON (clock i) i) [0..<nat howMany]
     \<and> (0 < batch \<longrightarrow> list_all (\<lambda>b. int (length b) \<le> batch) bs \<and> list_all (\<lambda>b. int (length b) = batch) (butlast bs))"
proof -
  obtain ms bs where r: "lg_loop collect clock batch [0..<nat howMany] [] [] = Inr (ms, bs)"
    "concat bs @ ms = map (\<lambda>i. flowJSON (clock i) i) [0..<nat howMany]"
    "list_all (\<lambda>b. int (length b) = batch) bs" "0 < batch \<longrightarrow> int (length ms) < batch"
    using lg_loop_collect [of clock batch "[0..<nat howMany]" "[]" "[]"] by auto
  show ?thesis
  proof (cases "ms = []")
    case True
    then show ?thesis using r assms by (auto simp: loadgen_def lg_flush_def list_all_iff dest: in_set_butlastD)
  next
    case False
    then show ?thesis using r assms by (auto simp: loadgen_def lg_flush_def collect_def list_all_iff)
  qed
qed

end
