(* ===== verification/Schema.thy ===== *)
theory Schema
  imports Flow EventWriter DnsStore
begin

text \<open>
  The tables of ClickHouse: \<open>schemaStatements\<close> and \<open>applySchema\<close> of \<open>batchwriter.go\<close>, and the three
  kinds of INSERT the program makes (\<open>batchwriter.go\<close>, \<open>identity.go\<close>, \<open>dnsstore.go\<close>). A statement is the
  structure of its SQL text. The server is third-party code: a function that executes a statement,
  about which only the documented meaning of the statements is assumed.
\<close>

section \<open>Statements\<close>

datatype coltype =
  DateTime | StringCol | LowCardinality | UInt8 | UInt16 | UInt32 | UInt64 | Float64

datatype engine = MergeTree | ReplacingMergeTree | SummingMergeTree

text \<open>\<open>PARTITION BY toYYYYMMDD(tb_partition)\<close>; the TTL is a column and a number of days.\<close>

record table_def =
  tb_name :: string
  tb_columns :: "(string \<times> coltype) list"
  tb_engine :: engine
  tb_partition :: string
  tb_order :: "string list"
  tb_ttl :: "(string \<times> nat) option"

text \<open>The selected expressions of a materialized view with the columns they fill.\<close>

record view_def =
  vw_name :: string
  vw_to :: string
  vw_select :: "(string \<times> string) list"
  vw_source :: string
  vw_group :: "string list"

text \<open>Each is \<open>IF NOT EXISTS\<close>; an added column has the column it comes after.\<close>

datatype ddl =
    CreateTable table_def
  | AddColumns string "(string \<times> coltype \<times> string) list"
  | CreateView view_def

section \<open>The schema\<close>

definition flows_table :: table_def where
  "flows_table =
     \<lparr>tb_name = ''flows'',
      tb_columns =
        [(''timestamp'', DateTime), (''tenant_id'', UInt32), (''tenant_name'', LowCardinality),
         (''dst_tenant_id'', UInt32), (''dst_tenant_name'', LowCardinality),
         (''src_mac_token'', StringCol), (''src_user_token'', StringCol),
         (''dst_mac_token'', StringCol), (''dst_user_token'', StringCol),
         (''src_hostname'', StringCol), (''dst_hostname'', StringCol),
         (''src_ip'', StringCol), (''dst_ip'', StringCol), (''src_port'', UInt32), (''dst_port'', UInt32),
         (''protocol'', LowCardinality), (''bytes'', UInt64), (''packets'', UInt64),
         (''src_country'', LowCardinality), (''src_city'', StringCol), (''src_lat'', Float64),
         (''src_lon'', Float64), (''src_asn'', UInt32), (''src_org'', LowCardinality),
         (''dst_country'', LowCardinality), (''dst_city'', StringCol), (''dst_lat'', Float64),
         (''dst_lon'', Float64), (''dst_asn'', UInt32), (''dst_org'', LowCardinality),
         (''is_threat_src'', UInt8), (''is_threat_dst'', UInt8), (''threat_label'', LowCardinality),
         (''is_sampled'', UInt8), (''sampling_rate'', UInt64), (''expanded_bytes'', UInt64),
         (''expanded_packets'', UInt64), (''exporter_ip'', StringCol), (''flow_type'', LowCardinality)],
      tb_engine = MergeTree, tb_partition = ''timestamp'',
      tb_order = [''tenant_id'', ''timestamp'', ''src_ip'', ''dst_ip''], tb_ttl = Some (''timestamp'', 120)\<rparr>"

definition add_tenant_columns :: "(string \<times> coltype \<times> string) list" where
  "add_tenant_columns =
     [(''dst_tenant_id'', UInt32, ''tenant_name''), (''dst_tenant_name'', LowCardinality, ''dst_tenant_id'')]"

definition add_identity_columns :: "(string \<times> coltype \<times> string) list" where
  "add_identity_columns =
     [(''src_mac_token'', StringCol, ''dst_tenant_name''), (''src_user_token'', StringCol, ''src_mac_token''),
      (''dst_mac_token'', StringCol, ''src_user_token''), (''dst_user_token'', StringCol, ''dst_mac_token'')]"

definition add_dns_columns :: "(string \<times> coltype \<times> string) list" where
  "add_dns_columns =
     [(''src_hostname'', StringCol, ''dst_user_token''), (''dst_hostname'', StringCol, ''src_hostname'')]"

definition dhcp_table :: table_def where
  "dhcp_table =
     \<lparr>tb_name = ''identity_dhcp_events'',
      tb_columns =
        [(''event_time'', DateTime), (''event_id'', UInt16), (''ip'', StringCol), (''mac_token'', StringCol),
         (''host_token'', StringCol)],
      tb_engine = ReplacingMergeTree, tb_partition = ''event_time'',
      tb_order = [''ip'', ''event_time'', ''event_id'', ''mac_token'', ''host_token''],
      tb_ttl = Some (''event_time'', 120)\<rparr>"

definition radius_table :: table_def where
  "radius_table =
     \<lparr>tb_name = ''identity_radius_events'',
      tb_columns =
        [(''event_time'', DateTime), (''acct_status'', LowCardinality), (''session_id'', StringCol),
         (''user_token'', StringCol), (''mac_token'', StringCol), (''nas_ip'', StringCol)],
      tb_engine = ReplacingMergeTree, tb_partition = ''event_time'',
      tb_order = [''mac_token'', ''event_time'', ''session_id'', ''acct_status'', ''user_token'', ''nas_ip''],
      tb_ttl = Some (''event_time'', 120)\<rparr>"

definition dns_table :: table_def where
  "dns_table =
     \<lparr>tb_name = ''dns_events'',
      tb_columns =
        [(''event_time'', DateTime), (''client_ip'', StringCol), (''client_port'', UInt16),
         (''qname'', StringCol), (''qtype'', LowCardinality), (''answer_ip'', StringCol), (''ttl'', UInt32)],
      tb_engine = ReplacingMergeTree, tb_partition = ''event_time'',
      tb_order = [''client_ip'', ''qname'', ''answer_ip'', ''event_time'', ''qtype'', ''client_port'', ''ttl''],
      tb_ttl = Some (''event_time'', 120)\<rparr>"

definition rollup_table :: "string \<Rightarrow> table_def" where
  "rollup_table name =
     \<lparr>tb_name = name,
      tb_columns =
        [(''timestamp'', DateTime), (''tenant_id'', UInt32), (''src_country'', LowCardinality),
         (''dst_country'', LowCardinality), (''protocol'', LowCardinality), (''bytes'', UInt64),
         (''packets'', UInt64), (''flow_count'', UInt64)],
      tb_engine = SummingMergeTree, tb_partition = ''timestamp'',
      tb_order = [''tenant_id'', ''timestamp'', ''src_country'', ''dst_country'', ''protocol''], tb_ttl = None\<rparr>"

definition rollup_view :: "string \<Rightarrow> string \<Rightarrow> string \<Rightarrow> view_def" where
  "rollup_view name target bucket =
     \<lparr>vw_name = name, vw_to = target,
      vw_select =
        [(bucket @ ''(timestamp)'', ''timestamp''), (''tenant_id'', ''tenant_id''),
         (''src_country'', ''src_country''), (''dst_country'', ''dst_country''), (''protocol'', ''protocol''),
         (''sum(bytes)'', ''bytes''), (''sum(packets)'', ''packets''), (''count()'', ''flow_count'')],
      vw_source = ''flows'',
      vw_group = [''timestamp'', ''tenant_id'', ''src_country'', ''dst_country'', ''protocol'']\<rparr>"

definition schemaStatements :: "ddl list" where
  "schemaStatements =
     [CreateTable flows_table,
      AddColumns ''flows'' add_tenant_columns,
      AddColumns ''flows'' add_identity_columns,
      AddColumns ''flows'' add_dns_columns,
      CreateTable dhcp_table,
      CreateTable radius_table,
      CreateTable dns_table,
      CreateTable (rollup_table ''flows_1m''),
      CreateView (rollup_view ''flows_1m_mv'' ''flows_1m'' ''toStartOfMinute''),
      CreateTable (rollup_table ''flows_1h''),
      CreateView (rollup_view ''flows_1h_mv'' ''flows_1h'' ''toStartOfHour'')]"

section \<open>Applying it\<close>

text \<open>The server: executing a statement, with success or an error, and the columns of a table.\<close>

record 'db sql_server =
  sql_Exec :: "ddl \<Rightarrow> 'db \<Rightarrow> bool \<times> 'db"
  sql_columns :: "'db \<Rightarrow> string \<Rightarrow> (string \<times> coltype) list option"

fun exec_all :: "'db sql_server \<Rightarrow> ddl list \<Rightarrow> 'db \<Rightarrow> bool \<times> 'db" where
  "exec_all srv [] db = (True, db)"
| "exec_all srv (stmt # stmts) db =
     (case sql_Exec srv stmt db of
        (False, db') \<Rightarrow> (False, db')
      | (True, db') \<Rightarrow> exec_all srv stmts db')"

definition applySchema :: "'db sql_server \<Rightarrow> 'db \<Rightarrow> bool \<times> 'db" where
  "applySchema srv db = exec_all srv schemaStatements db"

text \<open>
  What a writer needs before it exists: the connection opens, the server answers, the schema applies.
  The first error is the error of \<open>NewBatchWriter\<close>; opening and pinging are arguments.
\<close>

definition connectClickHouse ::
  "'db sql_server \<Rightarrow> ('db \<Rightarrow> bool \<times> 'db) \<Rightarrow> ('db \<Rightarrow> bool \<times> 'db) \<Rightarrow> 'db \<Rightarrow> bool \<times> 'db" where
  "connectClickHouse srv openDB ping db =
     (case openDB db of
        (False, db1) \<Rightarrow> (False, db1)
      | (True, db1) \<Rightarrow>
          (case ping db1 of
             (False, db2) \<Rightarrow> (False, db2)
           | (True, db2) \<Rightarrow> applySchema srv db2))"

section \<open>The rows of the INSERT statements\<close>

text \<open>The Go types of the values handed to \<open>batch.Append\<close>, and the columns that take them.\<close>

datatype sql_value =
  VTime time | VString string | VUint8 uint8 | VUint16 uint16 | VUint32 uint32 | VUint64 uint64 | VFloat64 float64

fun accepts :: "coltype \<Rightarrow> sql_value \<Rightarrow> bool" where
  "accepts DateTime (VTime t) = True"
| "accepts StringCol (VString s) = True"
| "accepts LowCardinality (VString s) = True"
| "accepts UInt8 (VUint8 w) = True"
| "accepts UInt16 (VUint16 w) = True"
| "accepts UInt32 (VUint32 w) = True"
| "accepts UInt64 (VUint64 w) = True"
| "accepts Float64 (VFloat64 x) = True"
| "accepts _ _ = False"

definition flows_insert :: "string list" where
  "flows_insert =
     [''timestamp'', ''tenant_id'', ''tenant_name'', ''dst_tenant_id'', ''dst_tenant_name'',
      ''src_mac_token'', ''src_user_token'', ''dst_mac_token'', ''dst_user_token'',
      ''src_hostname'', ''dst_hostname'',
      ''src_ip'', ''dst_ip'', ''src_port'', ''dst_port'', ''protocol'', ''bytes'', ''packets'',
      ''src_country'', ''src_city'', ''src_lat'', ''src_lon'', ''src_asn'', ''src_org'',
      ''dst_country'', ''dst_city'', ''dst_lat'', ''dst_lon'', ''dst_asn'', ''dst_org'',
      ''is_threat_src'', ''is_threat_dst'', ''threat_label'',
      ''is_sampled'', ''sampling_rate'', ''expanded_bytes'', ''expanded_packets'',
      ''exporter_ip'', ''flow_type'']"

definition flow_values :: "FlowRow \<Rightarrow> sql_value list" where
  "flow_values r =
     [VTime (fr_Timestamp r), VUint32 (fr_TenantID r), VString (fr_TenantName r), VUint32 (fr_DstTenantID r),
      VString (fr_DstTenantName r),
      VString (fr_SrcMACToken r), VString (fr_SrcUserToken r), VString (fr_DstMACToken r),
      VString (fr_DstUserToken r),
      VString (fr_SrcHostname r), VString (fr_DstHostname r),
      VString (fr_SrcIP r), VString (fr_DstIP r), VUint32 (fr_SrcPort r), VUint32 (fr_DstPort r),
      VString (fr_Protocol r), VUint64 (fr_Bytes r), VUint64 (fr_Packets r),
      VString (fr_SrcCountry r), VString (fr_SrcCity r), VFloat64 (fr_SrcLat r), VFloat64 (fr_SrcLon r),
      VUint32 (fr_SrcASN r), VString (fr_SrcOrg r),
      VString (fr_DstCountry r), VString (fr_DstCity r), VFloat64 (fr_DstLat r), VFloat64 (fr_DstLon r),
      VUint32 (fr_DstASN r), VString (fr_DstOrg r),
      VUint8 (fr_IsThreatSrc r), VUint8 (fr_IsThreatDst r), VString (fr_ThreatLabel r),
      VUint8 (fr_IsSampled r), VUint64 (fr_SamplingRate r), VUint64 (fr_ExpandedBytes r),
      VUint64 (fr_ExpandedPackets r), VString (fr_ExporterIP r), VString (fr_FlowType r)]"

definition dhcp_insert :: "string list" where
  "dhcp_insert = [''event_time'', ''event_id'', ''ip'', ''mac_token'', ''host_token'']"

definition dhcp_values :: "DhcpEvent \<Rightarrow> sql_value list" where
  "dhcp_values r =
     (case dhcp_columns r of (t, i, ip, mac, host) \<Rightarrow>
        [VTime t, VUint16 i, VString ip, VString mac, VString host])"

definition radius_insert :: "string list" where
  "radius_insert = [''event_time'', ''acct_status'', ''session_id'', ''user_token'', ''mac_token'', ''nas_ip'']"

definition radius_values :: "RadiusEvent \<Rightarrow> sql_value list" where
  "radius_values r =
     (case radius_columns r of (t, st, sess, user, mac, nas) \<Rightarrow>
        [VTime t, VString st, VString sess, VString user, VString mac, VString nas])"

definition dns_insert :: "string list" where
  "dns_insert = [''event_time'', ''client_ip'', ''client_port'', ''qname'', ''qtype'', ''answer_ip'', ''ttl'']"

definition dns_values :: "DnsEvent \<Rightarrow> sql_value list" where
  "dns_values r =
     (case dns_columns r of (t, ip, port, qname, qtype, answer, ttl) \<Rightarrow>
        [VTime t, VString ip, VUint16 port, VString qname, VString qtype, VString answer, VUint32 ttl])"

section \<open>What the statements promise\<close>

definition columns_set :: "(string \<times> coltype \<times> string) list \<Rightarrow> (string \<times> coltype) set" where
  "columns_set adds = (\<lambda>(c, ty, a). (c, ty)) ` set adds"

text \<open>
  The documented meaning, on success: a table is created with its columns unless it exists; a column
  is added unless one of its name exists; no statement touches the columns of another table.
\<close>

fun touched :: "ddl \<Rightarrow> string" where
  "touched (CreateTable t) = tb_name t"
| "touched (AddColumns n adds) = n"
| "touched (CreateView v) = vw_name v"

definition ddl_ok :: "'db sql_server \<Rightarrow> bool" where
  "ddl_ok srv \<longleftrightarrow>
     (\<forall>s db db' n. sql_Exec srv s db = (True, db') \<and> n \<noteq> touched s \<longrightarrow> sql_columns srv db' n = sql_columns srv db n)
     \<and> (\<forall>t db db'. sql_Exec srv (CreateTable t) db = (True, db') \<longrightarrow>
          sql_columns srv db' (tb_name t) =
            (case sql_columns srv db (tb_name t) of None \<Rightarrow> Some (tb_columns t) | Some cs \<Rightarrow> Some cs))
     \<and> (\<forall>n adds db db'. sql_Exec srv (AddColumns n adds) db = (True, db') \<and> distinct (map fst adds) \<longrightarrow>
          (\<exists>old new. sql_columns srv db n = Some old \<and> sql_columns srv db' n = Some new
             \<and> set new = set old \<union> {x \<in> columns_set adds. fst x \<notin> fst ` set old}))"

lemma columns_set_append [simp]: "columns_set (xs @ ys) = columns_set xs \<union> columns_set ys"
  by (simp add: columns_set_def image_Un)

lemma ddl_other: "ddl_ok srv \<Longrightarrow> sql_Exec srv s db = (True, db') \<Longrightarrow> n \<noteq> touched s \<Longrightarrow>
    sql_columns srv db' n = sql_columns srv db n"
  unfolding ddl_ok_def by blast

lemma ddl_create: "ddl_ok srv \<Longrightarrow> sql_Exec srv (CreateTable t) db = (True, db') \<Longrightarrow>
    sql_columns srv db' (tb_name t) =
      (case sql_columns srv db (tb_name t) of None \<Rightarrow> Some (tb_columns t) | Some cs \<Rightarrow> Some cs)"
  unfolding ddl_ok_def by blast

lemma ddl_add:
  assumes "ddl_ok srv" "sql_Exec srv (AddColumns n adds) db = (True, db')" "distinct (map fst adds)"
  obtains old new where "sql_columns srv db n = Some old" "sql_columns srv db' n = Some new"
    "set new = set old \<union> {x \<in> columns_set adds. fst x \<notin> fst ` set old}"
  using assms unfolding ddl_ok_def by blast

lemma exec_all_append:
  "exec_all srv (xs @ ys) db = (True, db') \<longleftrightarrow> (\<exists>m. exec_all srv xs db = (True, m) \<and> exec_all srv ys m = (True, db'))"
  by (induction xs arbitrary: db) (auto split: prod.splits bool.splits)

lemma exec_all_Cons:
  "exec_all srv (x # ys) db = (True, db') \<longleftrightarrow> (\<exists>m. sql_Exec srv x db = (True, m) \<and> exec_all srv ys m = (True, db'))"
  by (auto split: prod.splits bool.splits)

lemma exec_all_other:
  assumes "ddl_ok srv" "exec_all srv stmts db = (True, db')" "n \<notin> touched ` set stmts"
  shows "sql_columns srv db' n = sql_columns srv db n"
  using assms(2,3)
proof (induction stmts arbitrary: db)
  case Nil
  then show ?case by simp
next
  case (Cons x xs)
  then obtain m where "sql_Exec srv x db = (True, m)" "exec_all srv xs m = (True, db')"
    unfolding exec_all_Cons by blast
  then show ?case using Cons ddl_other [OF assms(1)] by fastforce
qed

text \<open>A table with one statement of its own, which did not exist or has the columns already.\<close>

lemma table_after:
  assumes "ddl_ok srv" "exec_all srv (pre @ CreateTable t # post) db = (True, db')"
    and "tb_name t \<notin> touched ` set pre" "tb_name t \<notin> touched ` set post"
    and "\<And>cs. sql_columns srv db (tb_name t) = Some cs \<Longrightarrow> set (tb_columns t) \<subseteq> set cs"
  shows "\<exists>cs. sql_columns srv db' (tb_name t) = Some cs \<and> set (tb_columns t) \<subseteq> set cs"
proof -
  obtain m1 m2 where r: "exec_all srv pre db = (True, m1)" "sql_Exec srv (CreateTable t) m1 = (True, m2)"
    "exec_all srv post m2 = (True, db')"
    using assms(2) unfolding exec_all_append exec_all_Cons by blast
  have "sql_columns srv m1 (tb_name t) = sql_columns srv db (tb_name t)"
    using exec_all_other [OF assms(1) r(1) assms(3)] .
  then show ?thesis
    using ddl_create [OF assms(1) r(2)] exec_all_other [OF assms(1) r(3) assms(4)] assms(5)
    by (auto split: option.splits)
qed

section \<open>The flows table across its versions\<close>

text \<open>The columns that older versions of the table lack.\<close>

definition flows_added :: "(string \<times> coltype) set" where
  "flows_added = columns_set (add_tenant_columns @ add_identity_columns @ add_dns_columns)"

text \<open>A version of a table: nothing missing but added columns, and what is there has its type.\<close>

definition version_of :: "(string \<times> coltype) list \<Rightarrow> (string \<times> coltype) set \<Rightarrow> (string \<times> coltype) list \<Rightarrow> bool" where
  "version_of tab added cs \<longleftrightarrow> set tab - added \<subseteq> set cs
     \<and> (\<forall>x\<in>set cs. \<forall>y\<in>set tab. fst x = fst y \<longrightarrow> snd x = snd y)"

definition flows_version :: "(string \<times> coltype) list \<Rightarrow> bool" where
  "flows_version cs \<longleftrightarrow> version_of (tb_columns flows_table) flows_added cs"

lemma version_of_full: "distinct (map fst tab) \<Longrightarrow> version_of tab added tab"
  unfolding version_of_def by (auto dest: eq_key_imp_eq_value)

lemma version_of_subset:
  "version_of tab added tab \<Longrightarrow> set cs \<subseteq> set tab \<Longrightarrow> set tab - added \<subseteq> set cs \<Longrightarrow> version_of tab added cs"
  unfolding version_of_def by blast

lemma version_of_add:
  assumes "version_of tab added old" "columns_set adds \<subseteq> set tab" "distinct (map fst tab)"
    and new: "set new = set old \<union> {x \<in> columns_set adds. fst x \<notin> fst ` set old}"
  shows "version_of tab added new" "set old \<subseteq> set new" "columns_set adds \<subseteq> set new"
proof -
  have full: "\<forall>x\<in>set tab. \<forall>y\<in>set tab. fst x = fst y \<longrightarrow> snd x = snd y"
    using version_of_full [OF assms(3)] unfolding version_of_def by blast
  have v: "\<forall>x\<in>set old. \<forall>y\<in>set tab. fst x = fst y \<longrightarrow> snd x = snd y" "set tab - added \<subseteq> set old"
    using assms(1) unfolding version_of_def by blast+
  show "version_of tab added new"
    unfolding version_of_def new using v full assms(2) by blast
  show "set old \<subseteq> set new" unfolding new by blast
  show "columns_set adds \<subseteq> set new"
  proof
    fix x assume x: "x \<in> columns_set adds"
    show "x \<in> set new"
    proof (cases "fst x \<in> fst ` set old")
      case False
      then show ?thesis using x unfolding new by blast
    next
      case True
      then obtain z where z: "z \<in> set old" "fst x = fst z" by (rule imageE)
      then have "z = x" using v(1) x assms(2) by (metis prod_eqI subsetD)
      then show ?thesis using z(1) unfolding new by blast
    qed
  qed
qed

lemma flows_names_distinct: "distinct (map fst (tb_columns flows_table))"
  by code_simp

lemma flows_added_known: "flows_added \<subseteq> set (tb_columns flows_table)"
  by (auto simp: flows_added_def columns_set_def add_tenant_columns_def add_identity_columns_def
      add_dns_columns_def flows_table_def)

lemma flows_version_full: "flows_version (tb_columns flows_table)"
  unfolding flows_version_def by (rule version_of_full [OF flows_names_distinct])

lemma flows_alter:
  assumes "ddl_ok srv" "sql_Exec srv (AddColumns ''flows'' adds) db = (True, db')"
    and "sql_columns srv db ''flows'' = Some old" "flows_version old"
    and "columns_set adds \<subseteq> set (tb_columns flows_table)" "distinct (map fst adds)"
  obtains new where "sql_columns srv db' ''flows'' = Some new" "flows_version new" "set old \<subseteq> set new"
    "columns_set adds \<subseteq> set new"
proof -
  obtain o' new where n: "sql_columns srv db ''flows'' = Some o'" "sql_columns srv db' ''flows'' = Some new"
    "set new = set o' \<union> {x \<in> columns_set adds. fst x \<notin> fst ` set o'}"
    using ddl_add [OF assms(1,2,6)] .
  have "o' = old" using n(1) assms(3) by (rule option.inject [THEN iffD1, OF trans, OF sym])
  with n(3) have new: "set new = set old \<union> {x \<in> columns_set adds. fst x \<notin> fst ` set old}" by (simp only:)
  note v = version_of_add [OF assms(4) [unfolded flows_version_def] assms(5) flows_names_distinct new]
  show thesis by (rule that [OF n(2) _ v(2,3)]) (unfold flows_version_def, rule v(1))
qed

lemma table_names [simp]:
  "tb_name flows_table = ''flows''" "tb_name dhcp_table = ''identity_dhcp_events''"
  "tb_name radius_table = ''identity_radius_events''" "tb_name dns_table = ''dns_events''"
  "tb_name (rollup_table n) = n"
  by (simp_all add: flows_table_def dhcp_table_def radius_table_def dns_table_def rollup_table_def)

lemma touched_schema: "map touched schemaStatements =
    [''flows'', ''flows'', ''flows'', ''flows'', ''identity_dhcp_events'', ''identity_radius_events'', ''dns_events'',
     ''flows_1m'', ''flows_1m_mv'', ''flows_1h'', ''flows_1h_mv'']"
  by (simp add: schemaStatements_def rollup_view_def)

lemma touched_take: "touched ` set (take n schemaStatements) = set (take n (map touched schemaStatements))"
  by (simp add: take_map)

lemma touched_drop: "touched ` set (drop n schemaStatements) = set (drop n (map touched schemaStatements))"
  by (simp add: drop_map)

text \<open>From any version of the table, or none, the first four statements make it complete.\<close>

lemma flows_complete:
  assumes ok: "ddl_ok srv" and run: "applySchema srv db = (True, db')"
    and old: "\<And>cs. sql_columns srv db ''flows'' = Some cs \<Longrightarrow> flows_version cs"
  shows "\<exists>cs. sql_columns srv db' ''flows'' = Some cs \<and> set (tb_columns flows_table) \<subseteq> set cs"
proof -
  let ?rest = "drop 4 schemaStatements"
  have "exec_all srv (CreateTable flows_table # AddColumns ''flows'' add_tenant_columns #
      AddColumns ''flows'' add_identity_columns # AddColumns ''flows'' add_dns_columns # ?rest) db = (True, db')"
    using run by (simp add: applySchema_def schemaStatements_def)
  then obtain d1 d2 d3 d4 where r: "sql_Exec srv (CreateTable flows_table) db = (True, d1)"
    "sql_Exec srv (AddColumns ''flows'' add_tenant_columns) d1 = (True, d2)"
    "sql_Exec srv (AddColumns ''flows'' add_identity_columns) d2 = (True, d3)"
    "sql_Exec srv (AddColumns ''flows'' add_dns_columns) d3 = (True, d4)" "exec_all srv ?rest d4 = (True, db')"
    unfolding exec_all_Cons by blast
  have known: "columns_set add_tenant_columns \<subseteq> set (tb_columns flows_table)"
    "columns_set add_identity_columns \<subseteq> set (tb_columns flows_table)"
    "columns_set add_dns_columns \<subseteq> set (tb_columns flows_table)"
    using flows_added_known by (simp_all add: flows_added_def)
  have dist: "distinct (map fst add_tenant_columns)" "distinct (map fst add_identity_columns)"
    "distinct (map fst add_dns_columns)"
    by (simp_all add: add_tenant_columns_def add_identity_columns_def add_dns_columns_def)
  obtain c1 where c1: "sql_columns srv d1 ''flows'' = Some c1" "flows_version c1"
    using ddl_create [OF ok r(1)] old flows_version_full unfolding table_names by (auto split: option.splits)
  obtain c2 where c2: "sql_columns srv d2 ''flows'' = Some c2" "flows_version c2"
    "columns_set add_tenant_columns \<subseteq> set c2"
    by (rule flows_alter [OF ok r(2) c1 known(1) dist(1)]) (rule that)
  obtain c3 where c3: "sql_columns srv d3 ''flows'' = Some c3" "flows_version c3" "set c2 \<subseteq> set c3"
    "columns_set add_identity_columns \<subseteq> set c3"
    by (rule flows_alter [OF ok r(3) c2(1,2) known(2) dist(2)]) (rule that)
  obtain c4 where c4: "sql_columns srv d4 ''flows'' = Some c4" "flows_version c4" "set c3 \<subseteq> set c4"
    "columns_set add_dns_columns \<subseteq> set c4"
    by (rule flows_alter [OF ok r(4) c3(1,2) known(3) dist(3)]) (rule that)
  have "flows_added \<subseteq> set c4" using c2(3) c3(3,4) c4(3,4) unfolding flows_added_def columns_set_append by blast
  then have "set (tb_columns flows_table) \<subseteq> set c4" using c4(2) unfolding flows_version_def version_of_def by blast
  moreover have "sql_columns srv db' ''flows'' = sql_columns srv d4 ''flows''"
    by (rule exec_all_other [OF ok r(5)])
      (simp add: touched_drop touched_schema del: map_eq_conv)
  ultimately show ?thesis using c4(1) by auto
qed

section \<open>The inserts fit\<close>

definition fits :: "'db sql_server \<Rightarrow> 'db \<Rightarrow> string \<Rightarrow> string list \<Rightarrow> sql_value list \<Rightarrow> bool" where
  "fits srv db name cols vals \<longleftrightarrow>
     (\<exists>cs. sql_columns srv db name = Some cs \<and> list_all2 (\<lambda>c v. \<exists>ty. (c, ty) \<in> set cs \<and> accepts ty v) cols vals)"

lemma fits_table:
  assumes "\<exists>cs. sql_columns srv db name = Some cs \<and> set cols \<subseteq> set cs"
    and "list_all2 accepts (map snd cols) vals"
  shows "fits srv db name (map fst cols) vals"
proof -
  obtain cs where cs: "sql_columns srv db name = Some cs" "set cols \<subseteq> set cs" using assms(1) by blast
  have "list_all2 (\<lambda>x v. accepts (snd x) v) cols vals" using assms(2) by (simp add: list_all2_map1)
  then have "list_all2 (\<lambda>x v. \<exists>ty. (fst x, ty) \<in> set cs \<and> accepts ty v) cols vals"
    by (rule list.rel_mono_strong) (use cs(2) in \<open>metis prod.collapse subsetD\<close>)
  then show ?thesis unfolding fits_def using cs(1) by (auto simp: list_all2_map1)
qed

text \<open>The columns and the values of an INSERT are those of its table, one by one.\<close>

lemma insert_columns:
  "flows_insert = map fst (tb_columns flows_table)" "dhcp_insert = map fst (tb_columns dhcp_table)"
  "radius_insert = map fst (tb_columns radius_table)" "dns_insert = map fst (tb_columns dns_table)"
  by (simp_all add: flows_insert_def flows_table_def dhcp_insert_def dhcp_table_def radius_insert_def
      radius_table_def dns_insert_def dns_table_def)

lemma insert_values:
  "list_all2 accepts (map snd (tb_columns flows_table)) (flow_values r)"
  "list_all2 accepts (map snd (tb_columns dhcp_table)) (dhcp_values d)"
  "list_all2 accepts (map snd (tb_columns radius_table)) (radius_values a)"
  "list_all2 accepts (map snd (tb_columns dns_table)) (dns_values e)"
  by (simp_all add: flow_values_def flows_table_def dhcp_values_def dhcp_columns_def dhcp_table_def
      radius_values_def radius_columns_def radius_table_def dns_values_def dns_columns_def dns_table_def)

text \<open>C9. After a successful start every INSERT of the program fits the database: each column it names
  exists in its table and takes the type of the value the program gives it, for every row. The database
  may have been empty, may hold the current tables, or may hold any older flows table that lacks
  columns the migrations add, in any combination.\<close>

theorem schema_fits_inserts:
  assumes "ddl_ok srv" and "applySchema srv db = (True, db')"
    and "\<And>cs. sql_columns srv db ''flows'' = Some cs \<Longrightarrow> flows_version cs"
    and "\<And>t cs. t \<in> {dhcp_table, radius_table, dns_table} \<Longrightarrow> sql_columns srv db (tb_name t) = Some cs \<Longrightarrow>
           set (tb_columns t) \<subseteq> set cs"
  shows "fits srv db' ''flows'' flows_insert (flow_values r)
     \<and> fits srv db' ''identity_dhcp_events'' dhcp_insert (dhcp_values d)
     \<and> fits srv db' ''identity_radius_events'' radius_insert (radius_values a)
     \<and> fits srv db' ''dns_events'' dns_insert (dns_values e)"
proof -
  have split: "schemaStatements = take 4 schemaStatements @ CreateTable dhcp_table # drop 5 schemaStatements"
    "schemaStatements = take 5 schemaStatements @ CreateTable radius_table # drop 6 schemaStatements"
    "schemaStatements = take 6 schemaStatements @ CreateTable dns_table # drop 7 schemaStatements"
    by (simp_all add: schemaStatements_def)
  have run: "exec_all srv (take 4 schemaStatements @ CreateTable dhcp_table # drop 5 schemaStatements) db = (True, db')"
    "exec_all srv (take 5 schemaStatements @ CreateTable radius_table # drop 6 schemaStatements) db = (True, db')"
    "exec_all srv (take 6 schemaStatements @ CreateTable dns_table # drop 7 schemaStatements) db = (True, db')"
    using assms(2) by (simp_all only: split [symmetric] applySchema_def)
  note assms4 = assms(4) [OF insertI1] assms(4) [OF insertI2 [OF insertI1]] assms(4) [OF insertI2 [OF insertI2 [OF insertI1]]]
  have "\<exists>cs. sql_columns srv db' (tb_name dhcp_table) = Some cs \<and> set (tb_columns dhcp_table) \<subseteq> set cs"
    by (rule table_after [OF assms(1) run(1)]) (simp_all only: assms4, simp_all add: touched_take touched_drop touched_schema)
  moreover have "\<exists>cs. sql_columns srv db' (tb_name radius_table) = Some cs \<and> set (tb_columns radius_table) \<subseteq> set cs"
    by (rule table_after [OF assms(1) run(2)]) (simp_all only: assms4, simp_all add: touched_take touched_drop touched_schema)
  moreover have "\<exists>cs. sql_columns srv db' (tb_name dns_table) = Some cs \<and> set (tb_columns dns_table) \<subseteq> set cs"
    by (rule table_after [OF assms(1) run(3)]) (simp_all only: assms4, simp_all add: touched_take touched_drop touched_schema)
  moreover have "\<exists>cs. sql_columns srv db' ''flows'' = Some cs \<and> set (tb_columns flows_table) \<subseteq> set cs"
    by (rule flows_complete [OF assms(1,2)]) (rule assms(3))
  moreover have "tb_name dhcp_table = ''identity_dhcp_events''" "tb_name radius_table = ''identity_radius_events''"
    "tb_name dns_table = ''dns_events''" by (simp_all add: dhcp_table_def radius_table_def dns_table_def)
  ultimately show ?thesis
    unfolding insert_columns by (intro conjI fits_table insert_values) (simp_all only:)
qed

text \<open>A server that does what is documented, and a flows table from before the tokens and the host names.\<close>

definition add_column :: "string \<times> coltype \<times> string \<Rightarrow> (string \<times> coltype) list \<Rightarrow> (string \<times> coltype) list" where
  "add_column x cs = (case x of (c, ty, a) \<Rightarrow> if c \<in> fst ` set cs then cs else cs @ [(c, ty)])"

definition map_server :: "(string \<rightharpoonup> (string \<times> coltype) list) sql_server" where
  "map_server =
     \<lparr>sql_Exec = (\<lambda>s db. case s of
          CreateTable t \<Rightarrow> (True, if db (tb_name t) = None then db(tb_name t \<mapsto> tb_columns t) else db)
        | AddColumns n adds \<Rightarrow> (case db n of None \<Rightarrow> (False, db) | Some cs \<Rightarrow> (True, db(n \<mapsto> fold add_column adds cs)))
        | CreateView v \<Rightarrow> (True, db)),
      sql_columns = (\<lambda>db. db)\<rparr>"

definition old_flows :: "(string \<times> coltype) list" where
  "old_flows = filter (\<lambda>(c, ty). (c, ty) \<notin> columns_set (add_identity_columns @ add_dns_columns)) (tb_columns flows_table)"

lemma add_columns_set:
  "distinct (map fst adds) \<Longrightarrow>
     set (fold add_column adds cs) = set cs \<union> {x \<in> columns_set adds. fst x \<notin> fst ` set cs}"
proof (induction adds arbitrary: cs)
  case Nil
  then show ?case by (simp add: columns_set_def)
next
  case (Cons a adds)
  obtain c ty after where a: "a = (c, ty, after)" by (cases a)
  have new: "c \<notin> fst ` columns_set adds" using Cons.prems a by (force simp: columns_set_def)
  have cols: "columns_set (a # adds) = insert (c, ty) (columns_set adds)" using a by (simp add: columns_set_def)
  have d: "distinct (map fst adds)" using Cons.prems by simp
  show ?case
  proof (cases "c \<in> fst ` set cs")
    case True
    then have "set (fold add_column (a # adds) cs) = set (fold add_column adds cs)" by (simp add: a add_column_def)
    also have "\<dots> = set cs \<union> {x \<in> columns_set adds. fst x \<notin> fst ` set cs}" by (rule Cons.IH [OF d])
    also have "\<dots> = set cs \<union> {x \<in> columns_set (a # adds). fst x \<notin> fst ` set cs}"
    proof -
      have "{x \<in> insert a A. P x} = {x \<in> A. P x}" if "\<not> P a" for a A and P :: "string \<times> coltype \<Rightarrow> bool"
        using that by blast
      then show ?thesis unfolding cols using True by simp
    qed
    finally show ?thesis .
  next
    case False
    then have "set (fold add_column (a # adds) cs) = set (fold add_column adds (cs @ [(c, ty)]))"
      by (simp add: a add_column_def)
    also have "\<dots> = set (cs @ [(c, ty)]) \<union> {x \<in> columns_set adds. fst x \<notin> fst ` set (cs @ [(c, ty)])}"
      by (rule Cons.IH [OF d])
    also have "\<dots> = set cs \<union> {x \<in> columns_set (a # adds). fst x \<notin> fst ` set cs}"
    proof -
      have "{x \<in> columns_set adds. fst x \<notin> fst ` set (cs @ [(c, ty)])} = {x \<in> columns_set adds. fst x \<notin> fst ` set cs}"
        using new by (auto simp: image_iff)
      moreover have "{x \<in> insert a A. P x} = insert a {x \<in> A. P x}" if "P a" for a A and P :: "string \<times> coltype \<Rightarrow> bool"
        using that by blast
      then have "{x \<in> columns_set (a # adds). fst x \<notin> fst ` set cs}
          = insert (c, ty) {x \<in> columns_set adds. fst x \<notin> fst ` set cs}"
        unfolding cols using False by simp
      ultimately show ?thesis by simp
    qed
    finally show ?thesis .
  qed
qed

lemma map_server_ok: "ddl_ok map_server"
  unfolding ddl_ok_def
proof (intro conjI allI impI)
  fix s db db' n
  assume "sql_Exec map_server s db = (True, db') \<and> n \<noteq> touched s"
  then show "sql_columns map_server db' n = sql_columns map_server db n"
    by (cases s) (auto simp: map_server_def split: option.splits if_splits)
next
  fix t db db'
  assume "sql_Exec map_server (CreateTable t) db = (True, db')"
  then show "sql_columns map_server db' (tb_name t) =
      (case sql_columns map_server db (tb_name t) of None \<Rightarrow> Some (tb_columns t) | Some cs \<Rightarrow> Some cs)"
    by (auto simp: map_server_def split: option.splits if_splits)
next
  fix n adds db db'
  assume e: "sql_Exec map_server (AddColumns n adds) db = (True, db') \<and> distinct (map fst adds)"
  then obtain cs where "db n = Some cs" "db' = db(n \<mapsto> fold add_column adds cs)"
    by (auto simp: map_server_def split: option.splits)
  then show "\<exists>old new. sql_columns map_server db n = Some old \<and> sql_columns map_server db' n = Some new
      \<and> set new = set old \<union> {x \<in> columns_set adds. fst x \<notin> fst ` set old}"
    using add_columns_set [of adds cs] e by (auto simp: map_server_def)
qed

lemma old_flows_version: "flows_version old_flows"
  unfolding flows_version_def
proof (rule version_of_subset [OF version_of_full [OF flows_names_distinct]])
  show "set old_flows \<subseteq> set (tb_columns flows_table)" unfolding old_flows_def by auto
  have "columns_set (add_identity_columns @ add_dns_columns) \<subseteq> flows_added"
    unfolding flows_added_def by auto
  then show "set (tb_columns flows_table) - flows_added \<subseteq> set old_flows" unfolding old_flows_def by auto
qed

lemma map_server_fields:
  "sql_Exec map_server (CreateTable t) db = (True, if db (tb_name t) = None then db(tb_name t \<mapsto> tb_columns t) else db)"
  "sql_Exec map_server (AddColumns n adds) db =
     (case db n of None \<Rightarrow> (False, db) | Some cs \<Rightarrow> (True, db(n \<mapsto> fold add_column adds cs)))"
  "sql_Exec map_server (CreateView v) db = (True, db)"
  "sql_columns map_server db = db"
  by (simp_all add: map_server_def)

lemma map_server_exec:
  assumes "\<And>db2. db2 n \<noteq> None \<Longrightarrow> \<exists>db'. exec_all map_server ss db2 = (True, db')" "db n \<noteq> None"
  shows "\<exists>db'. exec_all map_server (CreateTable t # ss) db = (True, db')"
    "\<exists>db'. exec_all map_server (AddColumns n adds # ss) db = (True, db')"
    "\<exists>db'. exec_all map_server (CreateView v # ss) db = (True, db')"
  using assms(2) by (auto simp: map_server_fields intro!: assms(1))

lemma map_server_runs:
  assumes "db ''flows'' \<noteq> None"
  shows "\<exists>db'. applySchema map_server db = (True, db')"
  unfolding applySchema_def schemaStatements_def
  by (rule map_server_exec [where n = "''flows''"])+ (use assms in simp_all)

theorem schema_fits_inserts_witness:
  "\<exists>db'. applySchema map_server [''flows'' \<mapsto> old_flows] = (True, db')
     \<and> (\<forall>r d a e. fits map_server db' ''flows'' flows_insert (flow_values r)
          \<and> fits map_server db' ''identity_dhcp_events'' dhcp_insert (dhcp_values d)
          \<and> fits map_server db' ''identity_radius_events'' radius_insert (radius_values a)
          \<and> fits map_server db' ''dns_events'' dns_insert (dns_values e))"
proof -
  obtain db' where run: "applySchema map_server [''flows'' \<mapsto> old_flows] = (True, db')"
    using map_server_runs [of "[''flows'' \<mapsto> old_flows]"] by auto
  have names: "tb_name t \<noteq> ''flows''" if "t \<in> {dhcp_table, radius_table, dns_table}" for t
    using that by (auto simp: dhcp_table_def radius_table_def dns_table_def)
  have "fits map_server db' ''flows'' flows_insert (flow_values r)
     \<and> fits map_server db' ''identity_dhcp_events'' dhcp_insert (dhcp_values d)
     \<and> fits map_server db' ''identity_radius_events'' radius_insert (radius_values a)
     \<and> fits map_server db' ''dns_events'' dns_insert (dns_values e)" for r d a e
  proof (rule schema_fits_inserts [OF map_server_ok run])
    show "flows_version cs" if "sql_columns map_server [''flows'' \<mapsto> old_flows] ''flows'' = Some cs" for cs
      using that old_flows_version by (simp add: map_server_fields)
    show "set (tb_columns t) \<subseteq> set cs"
      if "t \<in> {dhcp_table, radius_table, dns_table}"
        "sql_columns map_server [''flows'' \<mapsto> old_flows] (tb_name t) = Some cs" for t cs
      using that(2) names [OF that(1)] by (simp add: map_server_fields)
  qed
  then show ?thesis using run by blast
qed

end
