(* ===== verification/Evidence.thy ===== *)
theory Evidence
  imports Schema TraceWho
begin

text \<open>
  The event tables as evidence. Offsets are kept in memory only, so a restart reads the logs from the
  start and inserts every event again; the tables are \<open>ReplacingMergeTree\<close>s and every reader uses
  \<open>FINAL\<close>. The merge is third-party: a function of the sorting key and the rows, which keeps one row
  per key. The lemmas show that the keys of \<open>schemaStatements\<close> lose no event and keep no duplicate.
\<close>

section \<open>Stored rows\<close>

text \<open>What the server stores of a value; only the column type \<open>DateTime\<close> can change it.\<close>

definition store_row :: "(time \<Rightarrow> time) \<Rightarrow> sql_value list \<Rightarrow> sql_value list" where
  "store_row dt row = map (\<lambda>v. case v of VTime t \<Rightarrow> VTime (dt t) | _ \<Rightarrow> v) row"

text \<open>The documented range of \<open>DateTime\<close>, and its resolution: the fraction of a second is cut.\<close>

definition in_DateTime :: "time \<Rightarrow> bool" where
  "in_DateTime t \<longleftrightarrow> 0 \<le> t \<and> t < 2 ^ 32 * second"

definition dt_ok :: "(time \<Rightarrow> time) \<Rightarrow> bool" where
  "dt_ok dt \<longleftrightarrow> (\<forall>t. in_DateTime t \<longrightarrow> dt t = truncateSecond t)"

definition column :: "table_def \<Rightarrow> string \<Rightarrow> sql_value list \<Rightarrow> sql_value option" where
  "column t c row = map_of (zip (map fst (tb_columns t)) row) c"

definition row_key :: "table_def \<Rightarrow> sql_value list \<Rightarrow> sql_value option list" where
  "row_key t row = map (\<lambda>c. column t c row) (tb_order t)"

type_synonym merge = "(sql_value list \<Rightarrow> sql_value option list) \<Rightarrow> sql_value list list \<Rightarrow> sql_value list list"

text \<open>\<open>SELECT \<dots> FINAL\<close>: one of the inserted rows for every key.\<close>

definition final_ok :: "merge \<Rightarrow> bool" where
  "final_ok final \<longleftrightarrow> (\<forall>key rows. set (final key rows) \<subseteq> set rows
     \<and> key ` set (final key rows) = key ` set rows \<and> distinct (map key (final key rows)))"

definition table_final ::
  "merge \<Rightarrow> (time \<Rightarrow> time) \<Rightarrow> table_def \<Rightarrow> sql_value list list \<Rightarrow> sql_value list list" where
  "table_final final dt t rows = final (row_key t) (map (store_row dt) rows)"

text \<open>The columns of the two identity queries, as \<open>Scan\<close> reads them.\<close>

definition read_dhcp :: "sql_value list \<Rightarrow> dhcpEvent option" where
  "read_dhcp row =
     (case map (\<lambda>c. column dhcp_table c row) [''event_time'', ''event_id'', ''ip'', ''mac_token''] of
        [Some (VTime t), Some (VUint16 i), Some (VString ip), Some (VString mac)] \<Rightarrow>
          Some \<lparr>de_Time = t, de_EventID = i, de_IP = ip, de_MACToken = mac\<rparr>
      | _ \<Rightarrow> None)"

definition read_radius :: "sql_value list \<Rightarrow> radiusEvent option" where
  "read_radius row =
     (case map (\<lambda>c. column radius_table c row)
             [''event_time'', ''acct_status'', ''session_id'', ''user_token'', ''mac_token''] of
        [Some (VTime t), Some (VString st), Some (VString sess), Some (VString user), Some (VString mac)] \<Rightarrow>
          Some \<lparr>re_Time = t, re_AcctStatus = st, re_SessionID = sess, re_UserToken = user, re_MACToken = mac\<rparr>
      | _ \<Rightarrow> None)"

section \<open>Keys that list every column\<close>

definition full_key :: "table_def \<Rightarrow> bool" where
  "full_key t \<longleftrightarrow> distinct (map fst (tb_columns t)) \<and> set (map fst (tb_columns t)) \<subseteq> set (tb_order t)"

lemma event_tables_full: "full_key dhcp_table" "full_key radius_table" "full_key dns_table"
  by (simp_all add: full_key_def dhcp_table_def radius_table_def dns_table_def)

lemma row_key_inj:
  assumes "full_key t" "length r = length (tb_columns t)" "length r' = length (tb_columns t)"
    and "row_key t r = row_key t r'"
  shows "r = r'"
proof (rule nth_equalityI)
  show "length r = length r'" using assms(2,3) by simp
  fix i assume i: "i < length r"
  let ?ns = "map fst (tb_columns t)"
  have d: "distinct ?ns" "set ?ns \<subseteq> set (tb_order t)" using assms(1) unfolding full_key_def by blast+
  have "?ns ! i \<in> set ?ns" using i assms(2) by (intro nth_mem) simp
  then have "?ns ! i \<in> set (tb_order t)" using d(2) by (rule subsetD [rotated])
  then have "column t (?ns ! i) r = column t (?ns ! i) r'" using assms(4) by (simp add: row_key_def)
  moreover have "column t (?ns ! i) q = Some (q ! i)" if "length q = length (tb_columns t)" for q
    unfolding column_def using d(1) that i assms(2) by (intro map_of_zip_nth) simp_all
  ultimately show "r ! i = r' ! i" using assms(2,3) by simp
qed

lemma final_inj:
  assumes "final_ok final" "inj_on key (set rows)"
  shows "set (final key rows) = set rows" "distinct (final key rows)"
proof -
  have f: "set (final key rows) \<subseteq> set rows" "key ` set (final key rows) = key ` set rows"
    "distinct (map key (final key rows))" using assms(1) unfolding final_ok_def by blast+
  show "set (final key rows) = set rows"
    using f(2) inj_on_image_eq_iff [OF assms(2) f(1) subset_refl] by blast
  show "distinct (final key rows)" using f(3) by (simp add: distinct_map)
qed

lemma length_store_row [simp]: "length (store_row dt row) = length row"
  by (simp add: store_row_def)

lemma table_final_set:
  assumes "final_ok final" "full_key t" "\<And>r. r \<in> set rows \<Longrightarrow> length r = length (tb_columns t)"
  shows "set (table_final final dt t rows) = store_row dt ` set rows" "distinct (table_final final dt t rows)"
proof -
  have "inj_on (row_key t) (set (map (store_row dt) rows))"
    by (rule inj_onI) (rule row_key_inj [OF assms(2)], auto simp: assms(3))
  from final_inj [OF assms(1) this]
  show "set (table_final final dt t rows) = store_row dt ` set rows" "distinct (table_final final dt t rows)"
    unfolding table_final_def by simp_all
qed

lemma table_final_log:
  assumes "final_ok final" "full_key t" "\<And>e. length (vals e) = length (tb_columns t)" "set replay \<subseteq> set log"
  shows "distinct (table_final final dt t (map vals (log @ replay)))"
    "set (table_final final dt t (map vals (log @ replay))) = (\<lambda>e. store_row dt (vals e)) ` set log"
proof -
  have u: "set (log @ replay) = set log" using assms(4) by auto
  have rows: "length r = length (tb_columns t)" if "r \<in> set (map vals (log @ replay))" for r
    using that assms(3) by auto
  have k: "set (table_final final dt t (map vals (log @ replay))) = store_row dt ` set (map vals (log @ replay))"
    "distinct (table_final final dt t (map vals (log @ replay)))"
    by (rule table_final_set [OF assms(1,2)], erule rows)+
  show "distinct (table_final final dt t (map vals (log @ replay)))" by (rule k(2))
  show "set (table_final final dt t (map vals (log @ replay))) = (\<lambda>e. store_row dt (vals e)) ` set log"
    using k(1) unfolding set_map u image_image .
qed

definition whole_second :: "time \<Rightarrow> bool" where
  "whole_second t \<longleftrightarrow> in_DateTime t \<and> t mod second = 0"

lemma store_values:
  assumes "dt_ok dt"
  shows "whole_second (dh_EventTime d) \<Longrightarrow> store_row dt (dhcp_values d) = dhcp_values d"
    "whole_second (ra_EventTime a) \<Longrightarrow> store_row dt (radius_values a) = radius_values a"
    "in_DateTime (dn_EventTime e) \<Longrightarrow>
       store_row dt (dns_values e) = dns_values (e\<lparr>dn_EventTime := truncateSecond (dn_EventTime e)\<rparr>)"
  using assms by (simp_all add: dt_ok_def whole_second_def truncateSecond_whole store_row_def dhcp_values_def
      dhcp_columns_def radius_values_def radius_columns_def dns_values_def dns_columns_def)

lemma values_length:
  "length (dhcp_values d) = length (tb_columns dhcp_table)"
  "length (radius_values a) = length (tb_columns radius_table)"
  "length (dns_values e) = length (tb_columns dns_table)"
  using insert_values(2-4) [THEN list_all2_lengthD] by simp_all

lemma read_values:
  "read_dhcp (dhcp_values d) = Some (to_dhcp_row d)" "read_radius (radius_values a) = Some (to_radius_row a)"
  by (simp_all add: read_dhcp_def read_radius_def column_def dhcp_values_def dhcp_columns_def dhcp_table_def
      radius_values_def radius_columns_def radius_table_def to_dhcp_row_def to_radius_row_def)

text \<open>The joins read their events as a set.\<close>

lemma dhcp_join_set: "set ds = set ds' \<Longrightarrow> dhcpBindingAt ds ip T L = dhcpBindingAt ds' ip T L"
  by (simp only: dhcp_join trace_lessees_def)

lemma radius_join_set: "set rs = set rs' \<Longrightarrow> radiusBindingAt rs mac T S = radiusBindingAt rs' mac T S"
  by (simp only: radius_join trace_sessions_def)

section \<open>Replay\<close>


text \<open>A merge that keeps the row inserted last, and a clock column that rounds down.\<close>

primrec keep_last :: "('r \<Rightarrow> 'k) \<Rightarrow> 'r list \<Rightarrow> 'r list" where
  "keep_last key [] = []"
| "keep_last key (r # rs) = (if key r \<in> key ` set rs then keep_last key rs else r # keep_last key rs)"

lemma keep_last_ok: "final_ok keep_last"
proof -
  have "set (keep_last key rows) \<subseteq> set rows \<and> key ` set (keep_last key rows) = key ` set rows
      \<and> distinct (map key (keep_last key rows))" for key :: "'r \<Rightarrow> 'k" and rows
    by (induction rows) (auto simp: insert_absorb)
  then show ?thesis unfolding final_ok_def by blast
qed

lemma truncate_ok: "dt_ok truncateSecond"
  by (simp add: dt_ok_def)

text \<open>Two sessions of one second that differ in the user only, with the log read twice.\<close>

definition ev_start :: "string \<Rightarrow> RadiusEvent" where
  "ev_start user = \<lparr>ra_EventTime = 5 * second, ra_AcctStatus = ''Start'', ra_SessionID = ''s'',
     ra_UserToken = user, ra_MACToken = ''m'', ra_NASIP = ''n''\<rparr>"


text \<open>The queries of the trace tool read with FINAL and sort by the key of the table they read.\<close>

fun comma_sep :: "string list \<Rightarrow> string" where
  "comma_sep [] = ''''"
| "comma_sep [c] = c"
| "comma_sep (c # cs) = c @ '', '' @ comma_sep cs"

lemma who_queries_follow_keys:
  "fst (buildDHCPQuery ips frm til) =
     ''SELECT event_time, event_id, ip, mac_token'' @ nl @ ''FROM '' @ tb_name dhcp_table @ '' FINAL'' @ nl
     @ ''WHERE ip IN (?) AND event_time BETWEEN ? AND ?'' @ nl @ ''ORDER BY '' @ comma_sep (tb_order dhcp_table)"
  "fst (buildRADIUSQuery macs frm til) =
     ''SELECT event_time, acct_status, session_id, user_token, mac_token'' @ nl
     @ ''FROM '' @ tb_name radius_table @ '' FINAL'' @ nl
     @ ''WHERE mac_token IN (?) AND event_time BETWEEN ? AND ?'' @ nl @ ''ORDER BY '' @ comma_sep (tb_order radius_table)"
  by (simp_all add: buildDHCPQuery_def buildRADIUSQuery_def dhcp_table_def radius_table_def)

end
