(* ===== verification/Metrics.thy ===== *)
theory Metrics
  imports Startup
begin

text \<open>
  \<open>metrics.go\<close> and \<open>logging.go\<close>: the metrics and their registration, the routes of the metrics server,
  and the logger's two settings. The Prometheus registry is third-party: a function that registers a
  collector or refuses it. Registration panics when it refuses, and \<open>ServeMux.Handle\<close> and
  \<open>WithLabelValues\<close> panic on a second pattern and on a wrong number of labels, so all three are
  modelled as options.
\<close>

section \<open>The metrics\<close>

datatype metric_kind = Counter | CounterVec "string list" | Gauge

record metric_desc =
  mt_kind :: metric_kind
  mt_Name :: string
  mt_Help :: string

definition metric_opts :: "metric_kind \<Rightarrow> string \<Rightarrow> string \<Rightarrow> metric_desc" where
  "metric_opts k name help = \<lparr>mt_kind = k, mt_Name = name, mt_Help = help\<rparr>"

text \<open>The package variables, by name.\<close>

definition metrics :: "(string \<times> metric_desc) list" where
  "metrics =
     [(''flowsReceived'', metric_opts Counter ''enricher_flows_received_total''
         ''Total flows read from Kafka.''),
      (''flowsDeduplicated'', metric_opts Counter ''enricher_flows_deduplicated_total''
         ''Flows dropped as 7-tuple duplicates within the TTL window.''),
      (''flowsWritten'', metric_opts Counter ''enricher_flows_written_total''
         ''Flows forwarded to ClickHouse or stdout.''),
      (''threatHits'', metric_opts (CounterVec [''direction'']) ''enricher_threat_hits_total''
         ''Flows matching threat intel, labeled by direction (src or dst).''),
      (''chFlushes'', metric_opts Counter ''enricher_clickhouse_flushes_total''
         ''Number of ClickHouse batch flush operations.''),
      (''chRowsWritten'', metric_opts Counter ''enricher_clickhouse_rows_written_total''
         ''Total rows written to ClickHouse across all flushes.''),
      (''chWriteErrors'', metric_opts Counter ''enricher_clickhouse_write_errors_total''
         ''ClickHouse flush attempts that failed; their rows are re-queued, not dropped.''),
      (''chRowsDropped'', metric_opts Counter ''enricher_clickhouse_rows_dropped_total''
         ''Rows dropped because the write buffer hit its hard cap during a sustained ClickHouse outage.''),
      (''chBufferRows'', metric_opts Gauge ''enricher_clickhouse_buffer_rows''
         ''Rows currently buffered awaiting a ClickHouse flush (rises during an outage).''),
      (''threatIPsLoaded'', metric_opts Gauge ''enricher_threat_ips_loaded''
         ''Current number of IPs in the threat intel store.''),
      (''identityEventsParsed'', metric_opts (CounterVec [''source'']) ''enricher_identity_events_parsed_total''
         ''Identity log events parsed and applied, labeled by source (nps or dhcp).''),
      (''identityParseErrors'', metric_opts (CounterVec [''source'']) ''enricher_identity_parse_errors_total''
         ''Malformed identity log lines skipped, labeled by source (nps or dhcp).''),
      (''identityTagHits'', metric_opts Counter ''enricher_identity_tag_hits_total''
         ''Flows where identity lookup resolved at least one MAC/user token.''),
      (''identityTagMisses'', metric_opts Counter ''enricher_identity_tag_misses_total''
         ''Flows where identity lookup resolved no token for either address.''),
      (''identityEventWriteErrors'', metric_opts Counter ''enricher_identity_event_write_errors_total''
         ''ClickHouse write attempts for identity events that failed; the batch is retried next scan.''),
      (''identityScanPanics'', metric_opts Counter ''enricher_identity_scan_panics_total''
         ''Identity poller scans that panicked and were recovered.''),
      (''dnsEventsParsed'', metric_opts Counter ''enricher_dns_events_parsed_total''
         ''DNS log events parsed and applied.''),
      (''dnsParseErrors'', metric_opts Counter ''enricher_dns_parse_errors_total''
         ''Malformed DNS log lines skipped.''),
      (''dnsTagHits'', metric_opts Counter ''enricher_dns_tag_hits_total''
         ''Flows where DNS lookup resolved at least one hostname.''),
      (''dnsTagMisses'', metric_opts Counter ''enricher_dns_tag_misses_total''
         ''Flows where DNS lookup resolved no hostname for either address.''),
      (''dnsEvictions'', metric_opts Counter ''enricher_dns_evictions_total''
         ''DNS store entries evicted under the hard size cap (expired-first, then oldest).''),
      (''dnsEventWriteErrors'', metric_opts Counter ''enricher_dns_event_write_errors_total''
         ''ClickHouse write attempts for DNS events that failed; the batch is retried next scan.''),
      (''dnsScanPanics'', metric_opts Counter ''enricher_dns_scan_panics_total''
         ''DNS poller scans that panicked and were recovered.'')]"

definition registered :: "string list" where
  "registered =
     [''flowsReceived'', ''flowsDeduplicated'', ''flowsWritten'', ''threatHits'', ''chFlushes'',
      ''chRowsWritten'', ''chWriteErrors'', ''chRowsDropped'', ''chBufferRows'', ''threatIPsLoaded'',
      ''identityEventsParsed'', ''identityParseErrors'', ''identityTagHits'', ''identityTagMisses'',
      ''identityEventWriteErrors'', ''identityScanPanics'', ''dnsEventsParsed'', ''dnsParseErrors'',
      ''dnsTagHits'', ''dnsTagMisses'', ''dnsEvictions'', ''dnsEventWriteErrors'', ''dnsScanPanics'']"

fun labels :: "metric_kind \<Rightarrow> string list" where
  "labels (CounterVec ls) = ls"
| "labels _ = []"

section \<open>Registration\<close>

record 'r registry =
  rg_Register :: "metric_desc \<Rightarrow> 'r \<Rightarrow> 'r option"
  rg_names :: "'r \<Rightarrow> string set"

text \<open>\<open>MustRegister\<close>: in order, panicking (None) at the first refusal.\<close>

fun MustRegister :: "'r registry \<Rightarrow> metric_desc list \<Rightarrow> 'r \<Rightarrow> 'r option" where
  "MustRegister rg [] r = Some r"
| "MustRegister rg (m # ms) r =
     (case rg_Register rg m r of None \<Rightarrow> None | Some r' \<Rightarrow> MustRegister rg ms r')"

definition registerMetrics :: "'r registry \<Rightarrow> 'r \<Rightarrow> 'r option" where
  "registerMetrics rg r = MustRegister rg (map (the \<circ> map_of metrics) registered) r"

text \<open>A counter of a vector: a panic (None) unless there is one value per label.\<close>

definition WithLabelValues :: "string \<Rightarrow> string list \<Rightarrow> (string \<times> string list) option" where
  "WithLabelValues v vals =
     (case map_of metrics v of
        None \<Rightarrow> None
      | Some m \<Rightarrow> if length vals = length (labels (mt_kind m)) then Some (v, vals) else None)"

text \<open>The vectors the workers and the identity poller use, with the values they give.\<close>

definition threat_labels :: "(string \<times> string list) list" where
  "threat_labels = [(''threatHits'', [''src'']), (''threatHits'', [''dst''])]"

definition source_labels :: "(string \<times> string list) list" where
  "source_labels =
     [(''identityParseErrors'', [''nps'']), (''identityEventsParsed'', [''nps'']),
      (''identityParseErrors'', [''dhcp'']), (''identityEventsParsed'', [''dhcp''])]"

section \<open>The metrics server\<close>

datatype handler = Promhttp | PprofIndex | PprofCmdline | PprofProfile | PprofSymbol | PprofTrace

definition metrics_routes :: "(string \<times> handler) list" where
  "metrics_routes =
     [(''/metrics'', Promhttp), (''/debug/pprof/'', PprofIndex), (''/debug/pprof/cmdline'', PprofCmdline),
      (''/debug/pprof/profile'', PprofProfile), (''/debug/pprof/symbol'', PprofSymbol),
      (''/debug/pprof/trace'', PprofTrace)]"

text \<open>\<open>ServeMux.Handle\<close>: a panic for an empty pattern or one already there.\<close>

fun mux_Handle :: "(string \<times> handler) list \<Rightarrow> (string \<times> handler) list \<Rightarrow> (string \<times> handler) list option" where
  "mux_Handle mux [] = Some mux"
| "mux_Handle mux ((p, h) # rs) =
     (if p = '''' \<or> p \<in> fst ` set mux then None else mux_Handle (mux @ [(p, h)]) rs)"

text \<open>
  The handler of a path: its own pattern, else the longest pattern ending in a slash that it begins
  with, else "not found".
\<close>

definition mux_serve :: "(string \<times> handler) list \<Rightarrow> string \<Rightarrow> handler option" where
  "mux_serve mux path =
     (case map_of mux path of
        Some h \<Rightarrow> Some h
      | None \<Rightarrow>
          (case filter (\<lambda>(p, h). hasSuffix p ''/'' \<and> hasPrefix path p) mux of
             [] \<Rightarrow> None
           | r # rs \<Rightarrow> Some (snd (fold (\<lambda>a b. if length (fst b) < length (fst a) then a else b) rs r))))"

text \<open>What the goroutine that serves logs: the bind address, and any error but the one of a shutdown.\<close>

datatype listen_result = ErrServerClosed | ListenFailed string

definition metrics_listen :: "string \<Rightarrow> listen_result \<Rightarrow> (string \<times> string) list" where
  "metrics_listen addr err =
     (''metrics server listening'', addr) #
     (case err of ErrServerClosed \<Rightarrow> [] | ListenFailed e \<Rightarrow> [(''metrics server error'', e)])"

section \<open>The logger\<close>

text \<open>The levels are the integers of \<open>slog\<close>.\<close>

abbreviation LevelDebug :: int where "LevelDebug \<equiv> -4"
abbreviation LevelInfo :: int where "LevelInfo \<equiv> 0"
abbreviation LevelWarn :: int where "LevelWarn \<equiv> 4"
abbreviation LevelError :: int where "LevelError \<equiv> 8"

record logger =
  lg_Level :: int
  lg_JSON :: bool

definition setupLogger :: "environ \<Rightarrow> logger" where
  "setupLogger env =
     (let v = toLower (env ''LOG_LEVEL'');
          level = (if v = ''debug'' then LevelDebug
                   else if v = ''warn'' then LevelWarn
                   else if v = ''error'' then LevelError else LevelInfo)
      in \<lparr>lg_Level = level, lg_JSON = (toLower (getenv env ''LOG_FORMAT'' ''text'') = ''json'')\<rparr>)"

definition log_Enabled :: "logger \<Rightarrow> int \<Rightarrow> bool" where
  "log_Enabled lg level \<longleftrightarrow> lg_Level lg \<le> level"

text \<open>Whether the workers log each flow, and whether the start says that they do not.\<close>

definition logFlows :: "'w option \<Rightarrow> logger \<Rightarrow> bool" where
  "logFlows writer lg \<longleftrightarrow> writer = None \<and> log_Enabled lg LevelDebug"

definition says_suppressed :: "'w option \<Rightarrow> logger \<Rightarrow> bool" where
  "says_suppressed writer lg \<longleftrightarrow> writer = None \<and> \<not> logFlows writer lg \<and> log_Enabled lg LevelInfo"

section \<open>Start-up does not panic\<close>

text \<open>The documented rules for names: of a metric, and of a label, which also must not begin with two underscores.\<close>

definition alpha :: "char \<Rightarrow> bool" where
  "alpha c \<longleftrightarrow> c = CHR ''_'' \<or> (65 \<le> (of_char c :: nat) \<and> (of_char c :: nat) \<le> 90)
     \<or> (97 \<le> (of_char c :: nat) \<and> (of_char c :: nat) \<le> 122)"

definition alnum :: "char \<Rightarrow> bool" where
  "alnum c \<longleftrightarrow> alpha c \<or> (48 \<le> (of_char c :: nat) \<and> (of_char c :: nat) \<le> 57)"

fun valid_name :: "string \<Rightarrow> bool" where
  "valid_name [] = False"
| "valid_name (c # cs) = (alpha c \<and> (\<forall>x\<in>set cs. alnum x))"

definition valid_desc :: "metric_desc \<Rightarrow> bool" where
  "valid_desc m \<longleftrightarrow> valid_name (mt_Name m) \<and> distinct (labels (mt_kind m))
     \<and> (\<forall>l\<in>set (labels (mt_kind m)). valid_name l \<and> \<not> hasPrefix l ''__'')"

text \<open>A registry takes a valid collector whose name it has not.\<close>

definition registry_ok :: "'r registry \<Rightarrow> bool" where
  "registry_ok rg \<longleftrightarrow> (\<forall>m r. valid_desc m \<and> mt_Name m \<notin> rg_names rg r \<longrightarrow>
     (\<exists>r'. rg_Register rg m r = Some r' \<and> rg_names rg r' = insert (mt_Name m) (rg_names rg r)))"

lemma MustRegister_ok:
  assumes "registry_ok rg"
  shows "list_all valid_desc ms \<Longrightarrow> distinct (map mt_Name ms) \<Longrightarrow> set (map mt_Name ms) \<inter> rg_names rg r = {} \<Longrightarrow>
    \<exists>r'. MustRegister rg ms r = Some r' \<and> rg_names rg r' = set (map mt_Name ms) \<union> rg_names rg r"
proof (induction ms arbitrary: r)
  case Nil
  show ?case by simp
next
  case (Cons m ms)
  then have "valid_desc m \<and> mt_Name m \<notin> rg_names rg r" by simp
  then obtain r1 where r1: "rg_Register rg m r = Some r1" "rg_names rg r1 = insert (mt_Name m) (rg_names rg r)"
    using assms unfolding registry_ok_def by blast
  have "set (map mt_Name ms) \<inter> rg_names rg r1 = {}" using Cons.prems r1(2) by auto
  then obtain r' where "MustRegister rg ms r1 = Some r'" "rg_names rg r' = set (map mt_Name ms) \<union> rg_names rg r1"
    using Cons.IH [of r1] Cons.prems by auto
  then show ?case using r1 by auto
qed

lemma registered_all: "registered = map fst metrics"
  by (simp add: registered_def metrics_def)

lemma metric_vars_distinct: "distinct (map fst metrics)"
  by code_simp

lemma registered_descs: "map (the \<circ> map_of metrics) registered = map snd metrics"
proof -
  have "map_of metrics (fst x) = Some (snd x)" if "x \<in> set metrics" for x
    using map_of_is_SomeI [OF metric_vars_distinct, of "fst x" "snd x"] that by simp
  then show ?thesis unfolding registered_all by simp
qed

lemma metric_names: "distinct (map (mt_Name \<circ> snd) metrics)" "list_all (\<lambda>x. hasPrefix (mt_Name (snd x)) ''enricher_'') metrics"
  by code_simp+

lemma metrics_valid: "list_all (\<lambda>x. valid_desc (snd x)) metrics"
  by code_simp

lemma label_uses_ok: "list_all (\<lambda>(v, vals). WithLabelValues v vals \<noteq> None \<and> v \<in> set registered) (threat_labels @ source_labels)"
  by code_simp

lemma routes_ok: "mux_Handle [] metrics_routes = Some metrics_routes"
  by code_simp

text \<open>C38. Bringing up the metrics never panics: on a registry that holds no "enricher_" name yet, every
  metric the program declares is registered under a name of its own, each counter the program selects by
  label is a registered one given one value per label, and the server's routes are accepted, with the
  scrape path and the profiles reaching their own handlers.\<close>

theorem metrics_start:
  assumes "registry_ok rg" "\<forall>n\<in>rg_names rg r. \<not> hasPrefix n ''enricher_''"
  shows "(\<exists>r'. registerMetrics rg r = Some r' \<and> rg_names rg r' = mt_Name ` snd ` set metrics \<union> rg_names rg r)
     \<and> distinct (map (mt_Name \<circ> snd) metrics) \<and> set registered = fst ` set metrics
     \<and> (\<forall>(v, vals)\<in>set (threat_labels @ source_labels). WithLabelValues v vals \<noteq> None \<and> v \<in> set registered)
     \<and> mux_Handle [] metrics_routes = Some metrics_routes
     \<and> mux_serve metrics_routes ''/metrics'' = Some Promhttp
     \<and> mux_serve metrics_routes ''/debug/pprof/profile'' = Some PprofProfile
     \<and> mux_serve metrics_routes ''/debug/pprof/heap'' = Some PprofIndex"
proof -
  have "set (map mt_Name (map snd metrics)) \<inter> rg_names rg r = {}"
    using metric_names(2) assms(2) by (auto simp: list_all_iff)
  then have "\<exists>r'. registerMetrics rg r = Some r' \<and> rg_names rg r' = mt_Name ` snd ` set metrics \<union> rg_names rg r"
    using MustRegister_ok [OF assms(1), of "map snd metrics" r] metric_names(1) metrics_valid
    unfolding registerMetrics_def registered_descs by (simp add: list_all_iff image_image)
  moreover have "set registered = fst ` set metrics" unfolding registered_all by simp
  moreover have "\<forall>(v, vals)\<in>set (threat_labels @ source_labels). WithLabelValues v vals \<noteq> None \<and> v \<in> set registered"
    using label_uses_ok unfolding list_all_iff .
  moreover have "mux_serve metrics_routes ''/metrics'' = Some Promhttp"
    "mux_serve metrics_routes ''/debug/pprof/profile'' = Some PprofProfile"
    "mux_serve metrics_routes ''/debug/pprof/heap'' = Some PprofIndex" by code_simp+
  ultimately show ?thesis using metric_names(1) routes_ok by blast
qed

text \<open>A registry of names, on which the runtime's own collectors are registered already.\<close>

definition name_registry :: "(string list) registry" where
  "name_registry =
     \<lparr>rg_Register = (\<lambda>m r. if valid_desc m \<and> mt_Name m \<notin> set r then Some (mt_Name m # r) else None),
      rg_names = set\<rparr>"

theorem metrics_start_witness:
  "\<exists>r'. registerMetrics name_registry [''go_goroutines''] = Some r' \<and> ''go_goroutines'' \<in> set r'
     \<and> ''enricher_flows_received_total'' \<in> set r'"
proof -
  have ok: "registry_ok name_registry" by (simp add: registry_ok_def name_registry_def)
  have own: "\<forall>n\<in>rg_names name_registry [''go_goroutines'']. \<not> hasPrefix n ''enricher_''"
    by (simp add: name_registry_def hasPrefix_def)
  obtain r' where r': "registerMetrics name_registry [''go_goroutines''] = Some r'"
    "rg_names name_registry r' = mt_Name ` snd ` set metrics \<union> rg_names name_registry [''go_goroutines'']"
    using metrics_start [OF ok own] by (elim conjE exE) (rule that)
  have "metric_opts Counter ''enricher_flows_received_total'' ''Total flows read from Kafka.'' \<in> snd ` set metrics"
    by (simp add: metrics_def)
  then have "''enricher_flows_received_total'' \<in> mt_Name ` snd ` set metrics"
    by (rule rev_image_eqI) (simp add: metric_opts_def)
  then show ?thesis using r' by (auto simp: name_registry_def)
qed

text \<open>No setting silences the errors, and flows are logged exactly when nothing stores them and debug is asked for.\<close>

lemma logger_errors: "log_Enabled (setupLogger env) LevelError"
  by (simp add: log_Enabled_def setupLogger_def Let_def)

lemma logger_levels:
  "log_Enabled (setupLogger env) LevelDebug \<longleftrightarrow> toLower (env ''LOG_LEVEL'') = ''debug''"
  "log_Enabled (setupLogger env) LevelWarn \<longleftrightarrow> toLower (env ''LOG_LEVEL'') \<noteq> ''error''"
  "log_Enabled (setupLogger env) LevelInfo \<longleftrightarrow> toLower (env ''LOG_LEVEL'') \<notin> {''warn'', ''error''}"
  by (simp_all add: log_Enabled_def setupLogger_def Let_def)

lemma logFlows_iff:
  "logFlows writer (setupLogger env) \<longleftrightarrow> writer = None \<and> toLower (env ''LOG_LEVEL'') = ''debug''"
  by (simp add: logFlows_def logger_levels)

end
