(* ===== verification/Tasks.thy ===== *)
theory Tasks
  imports Geo Tenant Threat
begin

text \<open>
  The background goroutines: \<open>StartRefresh\<close> of the GeoIP, tenant and threat stores and \<open>StartPoller\<close> of
  the identity and DNS stores. All five are one loop, a \<open>select\<close> between the cancelled context and a
  ticker. The body of a store is a parameter; what it reads of the world at each tick (files, a
  download) is its first argument. A contract of the refreshes gives what the store holds at any time.
\<close>

section \<open>The loop\<close>

text \<open>
  The ticker's channel holds one tick: later ones are dropped until it is read. The ghost \<open>tk_runs\<close> lists
  what each run of the body found, in order.
\<close>

record ('w, 's) task =
  tk_store :: 's
  tk_tick :: bool
  tk_cancelled :: bool
  tk_returned :: bool
  tk_runs :: "'w list"

definition task_start :: "'s \<Rightarrow> 'w list \<Rightarrow> ('w, 's) task" where
  "task_start s runs = \<lparr>tk_store = s, tk_tick = False, tk_cancelled = False, tk_returned = False, tk_runs = runs\<rparr>"

text \<open>When both cases of the \<open>select\<close> are ready Go takes either.\<close>

inductive task_step :: "('w \<Rightarrow> 's \<Rightarrow> 's) \<Rightarrow> ('w, 's) task \<Rightarrow> ('w, 's) task \<Rightarrow> bool"
  for body where
  fire: "task_step body t (t\<lparr>tk_tick := True\<rparr>)"
| cancel: "task_step body t (t\<lparr>tk_cancelled := True\<rparr>)"
| ctx_done: "\<not> tk_returned t \<Longrightarrow> tk_cancelled t \<Longrightarrow> task_step body t (t\<lparr>tk_returned := True\<rparr>)"
| tick: "\<not> tk_returned t \<Longrightarrow> tk_tick t \<Longrightarrow>
    task_step body t (t\<lparr>tk_tick := False, tk_store := body w (tk_store t), tk_runs := tk_runs t @ [w]\<rparr>)"

lemma task_store_fold:
  assumes "(task_step body)\<^sup>*\<^sup>* (task_start s0 runs) t" "s0 = fold body runs s"
  shows "tk_store t = fold body (tk_runs t) s"
  using assms(1)
proof (induction rule: rtranclp_induct)
  case base
  show ?case using assms(2) by (simp add: task_start_def)
next
  case (step t u)
  from step(2,3) show ?case by (induction rule: task_step.induct) simp_all
qed

lemma task_returned_stays:
  assumes "(task_step body)\<^sup>*\<^sup>* t u" "tk_returned t"
  shows "tk_returned u \<and> tk_store u = tk_store t \<and> tk_runs u = tk_runs t"
  using assms(1)
proof (induction rule: rtranclp_induct)
  case base
  show ?case using assms(2) by simp
next
  case (step v u)
  from step(2,3) show ?case by (induction rule: task_step.induct) simp_all
qed

section \<open>The five bodies\<close>

text \<open>What a refresh finds: the two databases, the file, the response. Its error is logged only.\<close>

definition geo_StartRefresh ::
  "string \<Rightarrow> string \<Rightarrow> (string \<Rightarrow> city_db option) \<times> (string \<Rightarrow> asn_db option) \<Rightarrow> GeoStore \<Rightarrow> GeoStore" where
  "geo_StartRefresh cityPath asnPath w g =
     (case w of (openCity, openASN) \<Rightarrow> snd (geo_Refresh openCity openASN cityPath asnPath g))"

definition tenant_StartRefresh ::
  "'r ranger \<Rightarrow> (string \<Rightarrow> tenantConfig option) \<Rightarrow> string option \<Rightarrow> 'r TenantStore \<Rightarrow> 'r TenantStore" where
  "tenant_StartRefresh rg yaml file s = snd (tenant_load rg yaml file s)"

definition threat_StartRefresh :: "http_response option \<Rightarrow> ThreatStore \<Rightarrow> ThreatStore" where
  "threat_StartRefresh got s = snd (threat_refresh got s)"

text \<open>
  A poller scans once before the loop, then at every tick; \<open>scan\<close> is that of its store, and the world
  is the directory listings, the clock and the connection.
\<close>

definition StartPoller :: "('w \<Rightarrow> 's \<Rightarrow> 's) \<Rightarrow> 'w \<Rightarrow> 's \<Rightarrow> ('w, 's) task" where
  "StartPoller scan w s = task_start (scan w s) [w]"

lemma poller_is_its_scans:
  "(task_step scan)\<^sup>*\<^sup>* (StartPoller scan w s) t \<Longrightarrow> tk_store t = fold scan (tk_runs t) s \<and> tk_runs t \<noteq> []"
proof -
  assume r: "(task_step scan)\<^sup>*\<^sup>* (StartPoller scan w s) t"
  then have "tk_runs t \<noteq> []"
  proof (induction rule: rtranclp_induct)
    case base
    show ?case by (simp add: StartPoller_def task_start_def)
  next
    case (step t u)
    from step(2,3) show ?case by (induction rule: task_step.induct) simp_all
  qed
  then show ?thesis using task_store_fold [OF r [unfolded StartPoller_def]] by simp
qed

text \<open>Any sequence of worlds is met by some run.\<close>

lemma poller_can_run:
  "\<exists>t. (task_step scan)\<^sup>*\<^sup>* (StartPoller scan w s) t \<and> tk_runs t = w # ws \<and> tk_store t = fold scan (w # ws) s
     \<and> \<not> tk_returned t"
proof (induction ws rule: rev_induct)
  case Nil
  show ?case by (intro exI [of _ "StartPoller scan w s"]) (simp add: StartPoller_def task_start_def)
next
  case (snoc v ws)
  then obtain t where t: "(task_step scan)\<^sup>*\<^sup>* (StartPoller scan w s) t" "tk_runs t = w # ws"
    "tk_store t = fold scan (w # ws) s" "\<not> tk_returned t" by blast
  let ?u = "t\<lparr>tk_tick := False, tk_store := scan v (tk_store t), tk_runs := tk_runs t @ [v]\<rparr>"
  have "task_step scan t (t\<lparr>tk_tick := True\<rparr>)" by (rule task_step.fire)
  moreover have "task_step scan (t\<lparr>tk_tick := True\<rparr>) ?u"
    using task_step.tick [of "t\<lparr>tk_tick := True\<rparr>" scan v] t(4) by simp
  ultimately have "(task_step scan)\<^sup>*\<^sup>* (StartPoller scan w s) ?u" using t(1) by (meson rtranclp.rtrancl_into_rtrancl)
  then show ?case using t by (intro exI [of _ ?u]) simp
qed

section \<open>The contract of a refresh\<close>

text \<open>
  \<open>load w\<close> is the store a world gives, if it gives one: a refresh that succeeds installs exactly that,
  whatever was there before, and one that fails changes nothing.
\<close>

definition newest_good :: "('w \<Rightarrow> 's option) \<Rightarrow> 's \<Rightarrow> 'w list \<Rightarrow> 's \<Rightarrow> bool" where
  "newest_good load s0 runs s \<longleftrightarrow>
     (\<forall>w\<in>set runs. load w = None) \<and> s = s0
     \<or> (\<exists>ys w zs. runs = ys @ w # zs \<and> load w = Some s \<and> (\<forall>z\<in>set zs. load z = None))"

locale reloadable =
  fixes body :: "'w \<Rightarrow> 's \<Rightarrow> 's" and load :: "'w \<Rightarrow> 's option"
  assumes body_load: "body w s = (case load w of None \<Rightarrow> s | Some t \<Rightarrow> t)"
begin

lemma fold_newest: "newest_good load s0 runs (fold body runs s0)"
proof (induction runs rule: rev_induct)
  case Nil
  show ?case by (simp add: newest_good_def)
next
  case (snoc w runs)
  show ?case
  proof (cases "load w")
    case (Some t)
    then have b: "fold body (runs @ [w]) s0 = t" by (simp add: body_load)
    show ?thesis
      unfolding newest_good_def b
      by (rule disjI2, rule exI [of _ runs], rule exI [of _ w], rule exI [of _ "[]"]) (simp add: Some)
  next
    case None
    then have b: "fold body (runs @ [w]) s0 = fold body runs s0" by (simp add: body_load)
    from snoc show ?thesis
      unfolding newest_good_def b
    proof
      assume "(\<forall>w\<in>set runs. load w = None) \<and> fold body runs s0 = s0"
      then show "(\<forall>w\<in>set (runs @ [w]). load w = None) \<and> fold body runs s0 = s0
          \<or> (\<exists>ys v zs. runs @ [w] = ys @ v # zs \<and> load v = Some (fold body runs s0) \<and> (\<forall>z\<in>set zs. load z = None))"
        using None by simp
    next
      assume "\<exists>ys v zs. runs = ys @ v # zs \<and> load v = Some (fold body runs s0) \<and> (\<forall>z\<in>set zs. load z = None)"
      then obtain ys v zs where "runs = ys @ v # zs" "load v = Some (fold body runs s0)" "\<forall>z\<in>set zs. load z = None"
        by blast
      then have "runs @ [w] = ys @ v # (zs @ [w])" "load v = Some (fold body runs s0)" "\<forall>z\<in>set (zs @ [w]). load z = None"
        using None by simp_all
      then show "(\<forall>w\<in>set (runs @ [w]). load w = None) \<and> fold body runs s0 = s0
          \<or> (\<exists>ys v zs. runs @ [w] = ys @ v # zs \<and> load v = Some (fold body runs s0) \<and> (\<forall>z\<in>set zs. load z = None))"
        by blast
    qed
  qed
qed

lemma serves_newest: "(task_step body)\<^sup>*\<^sup>* (task_start s0 []) t \<Longrightarrow> newest_good load s0 (tk_runs t) (tk_store t)"
  using task_store_fold [of body s0 "[]" t s0] fold_newest by simp

end

text \<open>What each store is loaded from. The tenant table is the one field of its store.\<close>

definition geo_load :: "string \<Rightarrow> string \<Rightarrow> (string \<Rightarrow> city_db option) \<times> (string \<Rightarrow> asn_db option) \<Rightarrow> GeoStore option" where
  "geo_load cityPath asnPath w = NewGeoStore (fst w) (snd w) cityPath asnPath"

definition tenant_table ::
  "'r ranger \<Rightarrow> (string \<Rightarrow> tenantConfig option) \<Rightarrow> string option \<Rightarrow> 'r TenantStore option" where
  "tenant_table rg yaml file =
     Option.bind (Option.bind file yaml)
       (\<lambda>cfg. Some \<lparr>ts_ranger = fold (rg_insert rg) (config_entries cfg) (rg_new rg)\<rparr>)"

interpretation geor: reloadable "geo_StartRefresh cityPath asnPath" "geo_load cityPath asnPath" for cityPath asnPath
  by unfold_locales
    (auto simp: geo_StartRefresh_def geo_load_def geo_Refresh_def NewGeoStore_def split: prod.splits option.splits)

interpretation tenr: reloadable "tenant_StartRefresh rg yaml" "tenant_table rg yaml" for rg yaml
  by unfold_locales
    (auto simp: tenant_StartRefresh_def tenant_table_def tenant_load_def split: option.splits)

interpretation thrr: reloadable threat_StartRefresh NewThreatStore
  by unfold_locales
    (auto simp: threat_StartRefresh_def NewThreatStore_def threat_refresh_def Let_def split: option.splits prod.splits)

text \<open>C10. The reference data are always whole and the newest that loaded: however ticks, reads and the
  shutdown interleave, the GeoIP, tenant and threat stores hold exactly what the last successful
  refresh read, both databases from the same one, or what they started with when none has succeeded;
  a refresh that fails, by whatever error, takes nothing away.\<close>

theorem refresh_serves_newest:
  shows "((task_step (geo_StartRefresh cityPath asnPath))\<^sup>*\<^sup>* (task_start g0 []) tg \<longrightarrow>
        newest_good (geo_load cityPath asnPath) g0 (tk_runs tg) (tk_store tg))
     \<and> ((task_step (tenant_StartRefresh rg yaml))\<^sup>*\<^sup>* (task_start t0 []) tt \<longrightarrow>
        newest_good (tenant_table rg yaml) t0 (tk_runs tt) (tk_store tt))
     \<and> ((task_step threat_StartRefresh)\<^sup>*\<^sup>* (task_start h0 []) th \<longrightarrow>
        newest_good NewThreatStore h0 (tk_runs th) (tk_store th))"
  using geor.serves_newest tenr.serves_newest thrr.serves_newest by blast

text \<open>A feed that loads, then a download that fails: the addresses stay.\<close>

definition tk_feed :: http_response where
  "tk_feed = \<lparr>resp_StatusCode = 200, resp_Body = ''10.9.8.7,443,,Emotet'', resp_err = None\<rparr>"

theorem refresh_serves_newest_witness:
  "\<exists>t :: (http_response option, ThreatStore) task. tk_runs t = [Some tk_feed, None] \<and> newest_good NewThreatStore \<lparr>th_ips = Map.empty\<rparr> (tk_runs t) (tk_store t)
     \<and> threat_Lookup (tk_store t) ''10.9.8.7'' = (True, ''Emotet'')"
proof -
  let ?b = "threat_StartRefresh" and ?s0 = "task_start \<lparr>th_ips = Map.empty\<rparr> [] :: (http_response option, ThreatStore) task"
  define t where "t = ?s0\<lparr>tk_store := ?b None (?b (Some tk_feed) \<lparr>th_ips = Map.empty\<rparr>), tk_runs := [Some tk_feed, None]\<rparr>"
  have "(task_step ?b)\<^sup>*\<^sup>* ?s0 (?s0\<lparr>tk_tick := True\<rparr>)" by (rule r_into_rtranclp) (rule task_step.fire)
  also have "(task_step ?b)\<^sup>*\<^sup>* \<dots> (?s0\<lparr>tk_store := ?b (Some tk_feed) \<lparr>th_ips = Map.empty\<rparr>, tk_runs := [Some tk_feed]\<rparr>)"
    using task_step.tick [of "?s0\<lparr>tk_tick := True\<rparr>" ?b "Some tk_feed"] by (simp add: task_start_def r_into_rtranclp)
  also have "(task_step ?b)\<^sup>*\<^sup>* \<dots> (?s0\<lparr>tk_store := ?b (Some tk_feed) \<lparr>th_ips = Map.empty\<rparr>, tk_runs := [Some tk_feed], tk_tick := True\<rparr>)"
    using task_step.fire [of ?b "?s0\<lparr>tk_store := ?b (Some tk_feed) \<lparr>th_ips = Map.empty\<rparr>, tk_runs := [Some tk_feed]\<rparr>"]
    by (simp add: task_start_def r_into_rtranclp)
  also have "(task_step ?b)\<^sup>*\<^sup>* \<dots> t"
    using task_step.tick [of "?s0\<lparr>tk_store := ?b (Some tk_feed) \<lparr>th_ips = Map.empty\<rparr>, tk_runs := [Some tk_feed], tk_tick := True\<rparr>" ?b None]
    by (simp add: task_start_def t_def r_into_rtranclp)
  finally have r: "(task_step ?b)\<^sup>*\<^sup>* ?s0 t" .
  have n: "newest_good NewThreatStore \<lparr>th_ips = Map.empty\<rparr> (tk_runs t) (tk_store t)"
    by (rule refresh_serves_newest [THEN conjunct2, THEN conjunct2, THEN mp, OF r])
  have "tk_runs t = [Some tk_feed, None]" by (simp add: t_def)
  moreover have "threat_Lookup (tk_store t) ''10.9.8.7'' = (True, ''Emotet'')"
    unfolding t_def by (simp add: task_start_def) code_simp
  ultimately show ?thesis using n by (intro exI [of _ t] conjI)
qed

end
