(* ===== verification/FileTail.thy ===== *)
theory FileTail
  imports FilePoller
begin

text \<open>
  \<open>scanAppendedDir\<close> over a whole directory and over time. The log files grow and are now and then
  emptied, or replaced by a new, shorter file of the same name. What the scans hand over is then, file
  by file, the lines of the consumed prefix of each generation, in order, each once, with the truncation
  signal between two generations, whatever listings, \<open>Stat\<close> calls and reads fail on the way. The pollers of
  the identity and DNS stores build on it.
\<close>

section \<open>Files over time\<close>

text \<open>The files a scan of a directory goes through, in order.\<close>

definition entries_of :: "string \<Rightarrow> file_entry list option \<Rightarrow> file_entry list" where
  "entries_of dir listing = (if dir = '''' then [] else case listing of None \<Rightarrow> [] | Some es \<Rightarrow> es)"

abbreviation tail_file :: "file_entry \<Rightarrow> offsets \<times> feed list \<Rightarrow> offsets \<times> feed list" where
  "tail_file f s \<equiv> (if fe_isDir f then s else readAppendedFile log_line log_trunc f s)"

lemma scan_log_entries: "scan_log dir listing offs = fold tail_file (entries_of dir listing) (offs, [])"
  by (simp add: scan_log_def scanAppendedDir_def entries_of_def split: option.splits)

text \<open>
  The tail of the files so far: the offsets of the poller, what each file held when it was last opened,
  the lines read of its earlier generations, and whether it has been cut short with no complete line read
  since.
\<close>

record tail =
  tl_offs :: offsets
  tl_seen :: "string \<Rightarrow> string"
  tl_past :: "string \<Rightarrow> string list list"
  tl_cut :: "string \<Rightarrow> bool"

definition tail_start :: tail where
  "tail_start = \<lparr>tl_offs = Map.empty, tl_seen = (\<lambda>_. ''''), tl_past = (\<lambda>_. []), tl_cut = (\<lambda>_. False)\<rparr>"

definition lines_read :: "tail \<Rightarrow> string \<Rightarrow> string list" where
  "lines_read t p = (if tl_cut t p then [] else lines_of (take (offset_of (tl_offs t) p) (tl_seen t p)))"

definition generations :: "tail \<Rightarrow> string \<Rightarrow> string list list" where
  "generations t p = tl_past t p @ [lines_read t p]"

text \<open>
  A file that has grown: what \<open>Stat\<close> reports and what is read extend it. A failing \<open>Stat\<close> or a failing
  read may happen at any time. The new content of a file that was cut short must be seen before it is as
  long as the old one: \<open>poller_truncation_forgotten\<close> shows what happens otherwise.
\<close>

definition file_grows :: "tail \<Rightarrow> file_entry \<Rightarrow> bool" where
  "file_grows t f \<longleftrightarrow> fe_isDir f \<or>
     (case fe_size f of None \<Rightarrow> True
      | Some n \<Rightarrow> \<not> tl_cut t (fe_path f) \<and> length (tl_seen t (fe_path f)) \<le> n \<and>
          (case fe_content f of None \<Rightarrow> True | Some c \<Rightarrow> hasPrefix c (tl_seen t (fe_path f)) \<and> n \<le> length c))"

text \<open>
  A file that was replaced: it is shorter than what was read of it and holds a complete line. The new
  file may share nothing with the old one.
\<close>

definition file_replaced :: "tail \<Rightarrow> file_entry \<Rightarrow> bool" where
  "file_replaced t f \<longleftrightarrow> \<not> fe_isDir f \<and>
     (case (fe_size f, fe_content f) of
        (Some n, Some c) \<Rightarrow> 0 < n \<and> n \<le> length c \<and> n < offset_of (tl_offs t) (fe_path f)
          \<and> newline \<in> set (limitRead maxScanReadBytes c)
      | _ \<Rightarrow> False)"

text \<open>
  A file that was cut short: it is shorter than what was read of it, and nothing can be read yet. It is
  empty, or cannot be opened, or holds no complete line.
\<close>

definition file_cut :: "tail \<Rightarrow> file_entry \<Rightarrow> bool" where
  "file_cut t f \<longleftrightarrow> \<not> fe_isDir f \<and>
     (case fe_size f of None \<Rightarrow> False
      | Some n \<Rightarrow> n < offset_of (tl_offs t) (fe_path f) \<and>
          (n = 0 \<or> (case fe_content f of None \<Rightarrow> True | Some c \<Rightarrow> newline \<notin> set (limitRead maxScanReadBytes c))))"

definition see_file :: "file_entry \<Rightarrow> (string \<Rightarrow> string) \<Rightarrow> string \<Rightarrow> string" where
  "see_file f seen =
     (if fe_isDir f \<or> fe_size f = None then seen
      else case fe_content f of None \<Rightarrow> seen | Some c \<Rightarrow> seen(fe_path f := c))"

definition follow :: "file_entry \<Rightarrow> tail \<Rightarrow> tail" where
  "follow f t =
     (let p = fe_path f; offs = fst (tail_file f (tl_offs t, [])); past = (tl_past t)(p := generations t p) in
      if file_cut t f then t\<lparr>tl_offs := offs, tl_past := past, tl_cut := (tl_cut t)(p := True)\<rparr>
      else if file_replaced t f then
        \<lparr>tl_offs = offs, tl_seen = see_file f (tl_seen t), tl_past = past, tl_cut = (tl_cut t)(p := False)\<rparr>
      else t\<lparr>tl_offs := offs, tl_seen := see_file f (tl_seen t)\<rparr>)"

fun files_ok :: "tail \<Rightarrow> file_entry list \<Rightarrow> bool" where
  "files_ok t [] = True"
| "files_ok t (f # fs) = ((file_grows t f \<or> file_replaced t f \<or> file_cut t f) \<and> files_ok (follow f t) fs)"

lemma files_ok_append [simp]: "files_ok t (fs @ gs) = (files_ok t fs \<and> files_ok (fold follow fs t) gs)"
  by (induction fs arbitrary: t) simp_all

definition tailed :: "tail \<Rightarrow> bool" where
  "tailed t \<longleftrightarrow> (\<forall>p. offset_of (tl_offs t) p \<le> length (tl_seen t p)
     \<and> ends_line (take (offset_of (tl_offs t) p) (tl_seen t p)))"

lemma tailed_start [simp]: "tailed tail_start" "generations tail_start p = [[]]" "tl_offs tail_start = Map.empty"
  by (simp_all add: tailed_def generations_def lines_read_def tail_start_def offset_of_def ends_line_def)

section \<open>The calls of a file\<close>

definition tail_feed :: "string \<Rightarrow> tail \<Rightarrow> feed list" where
  "tail_feed p t = concat (map (\<lambda>ls. map (FLine p) ls @ [FTruncated p]) (tl_past t p)) @ map (FLine p) (lines_read t p)"

lemma tail_feed_start [simp]: "tail_feed p tail_start = []"
  by (simp add: tail_feed_def tail_start_def lines_read_def offset_of_def)

lemma tail_feed_lines: "FLine p l \<in> set (tail_feed p t) \<longleftrightarrow> (\<exists>ls\<in>set (generations t p). l \<in> set ls)"
  by (auto simp: tail_feed_def generations_def)

text \<open>One step of the tail: the calls \<open>new\<close> it makes extend the calls of each file.\<close>

definition tail_moves :: "tail \<Rightarrow> tail \<Rightarrow> feed list \<Rightarrow> bool" where
  "tail_moves t t' new \<longleftrightarrow> tailed t' \<and> (\<forall>p. tail_feed p t' = tail_feed p t @ filter (\<lambda>f. feed_path f = p) new)"

lemma tail_moves_trans: "tail_moves t u xs \<Longrightarrow> tail_moves u v ys \<Longrightarrow> tail_moves t v (xs @ ys)"
  by (simp add: tail_moves_def)

lemma filter_feed [simp]:
  "filter (\<lambda>f. feed_path f = p) (map (FLine q) ls) = (if q = p then map (FLine q) ls else [])"
  by (induction ls) auto

text \<open>A step that leaves the other files alone.\<close>

lemma tail_moves_file:
  assumes "tailed t" "\<And>q. q \<noteq> p \<Longrightarrow> offset_of (tl_offs t') q = offset_of (tl_offs t) q
      \<and> tl_seen t' q = tl_seen t q \<and> tl_past t' q = tl_past t q \<and> tl_cut t' q = tl_cut t q"
    and "offset_of (tl_offs t') p \<le> length (tl_seen t' p)" "ends_line (take (offset_of (tl_offs t') p) (tl_seen t' p))"
    and "tail_feed p t' = tail_feed p t @ new" "feed_path ` set new \<subseteq> {p}"
  shows "tail_moves t t' new"
proof -
  have "filter (\<lambda>f. feed_path f = q) new = (if q = p then new else [])" for q
    using assms(6) by (auto simp: filter_empty_conv intro!: filter_True)
  moreover have "tail_feed q t' = tail_feed q t" if "q \<noteq> p" for q
    using assms(2) [OF that] by (simp add: tail_feed_def lines_read_def)
  moreover have "tailed t'"
    using assms(1-4) unfolding tailed_def by metis
  ultimately show ?thesis using assms(5) by (simp add: tail_moves_def)
qed

lemma tail_file_quiet:
  assumes "tailed t" "file_grows t f" "fe_isDir f \<or> fe_size f = None \<or> fe_content f = None"
  shows "tail_file f (tl_offs t, log) = (tl_offs t, log) \<and> follow f t = t"
proof -
  have "\<not> fe_isDir f \<Longrightarrow> fe_size f = Some n \<Longrightarrow> \<not> n < offset_of (tl_offs t) (fe_path f)" for n
    using assms(1,2) le_trans [of "offset_of (tl_offs t) (fe_path f)" "length (tl_seen t (fe_path f))" n]
    by (auto simp: tailed_def file_grows_def)
  then show ?thesis using assms(3)
    by (auto simp: readAppendedFile_def see_file_def follow_def file_replaced_def file_cut_def Let_def split: option.splits)
qed

lemma tail_file_grows:
  assumes t: "tailed t" and g: "file_grows t f" "\<not> fe_isDir f" "fe_size f = Some n" "fe_content f = Some s"
  shows "\<exists>new. tail_file f (tl_offs t, log) = (tl_offs (follow f t), log @ new)
    \<and> tail_moves t (follow f t) new \<and> feed_path ` set new \<subseteq> {fe_path f}"
proof -
  let ?p = "fe_path f" and ?offs = "tl_offs t"
  let ?off = "offset_of ?offs ?p"
  have g': "length (tl_seen t ?p) \<le> n" "prefix (tl_seen t ?p) s" "n \<le> length s"
    using g by (simp_all add: file_grows_def hasPrefix_iff)
  have t': "?off \<le> length (tl_seen t ?p)" "ends_line (take ?off (tl_seen t ?p))" using t by (simp_all add: tailed_def)
  have pre: "take ?off s = take ?off (tl_seen t ?p)" using g'(2) t'(1) by (auto simp: prefix_def)
  have old: "\<not> file_replaced t f" "\<not> file_cut t f" "\<not> tl_cut t ?p"
    using g t'(1) g'(1) by (simp_all add: file_replaced_def file_cut_def file_grows_def)
  obtain offs' more where r: "readAppendedFile log_line log_trunc f (?offs, log) = (offs', fold (log_line ?p) more log)"
    and l: "lines_of (take (offset_of offs' ?p) s) = lines_of (take ?off s) @ more"
    and o: "offset_of offs' ?p = (if n = ?off then ?off else consumed ?off s)"
    and q: "\<forall>q. q \<noteq> ?p \<longrightarrow> offs' q = ?offs q"
    using readAppendedFile_grow [OF g(3,4) refl, of ?offs log_line log_trunc log] g' t' pre by fastforce
  have "fst (readAppendedFile log_line log_trunc f (?offs, log)) = fst (readAppendedFile log_line log_trunc f (?offs, []))"
    by (simp add: readAppendedFile_def Let_def split: option.splits)
  then have fol: "follow f t = t\<lparr>tl_offs := offs', tl_seen := (tl_seen t)(?p := s)\<rparr>"
    using g r old by (simp add: follow_def see_file_def Let_def)
  have "tail_moves t (follow f t) (map (FLine ?p) more)"
  proof (rule tail_moves_file [OF t])
    show "offset_of (tl_offs (follow f t)) ?p \<le> length (tl_seen (follow f t) ?p)"
      "ends_line (take (offset_of (tl_offs (follow f t)) ?p) (tl_seen (follow f t) ?p))"
      using o consumed_bounds [of ?off s] ends_line_consumed [of ?off s] g' t' pre by (auto simp: fol)
  qed (use q l pre old(3) in \<open>auto simp: fol offset_of_def tail_feed_def lines_read_def\<close>)
  then show ?thesis using r g(2)
    by (intro exI [of _ "map (FLine ?p) more"]) (auto simp: fold_log_line fol)
qed

lemma tail_file_replaced:
  assumes t: "tailed t" and rep: "file_replaced t f"
  shows "\<exists>new. tail_file f (tl_offs t, log) = (tl_offs (follow f t), log @ new)
    \<and> tail_moves t (follow f t) new \<and> feed_path ` set new \<subseteq> {fe_path f}"
proof -
  let ?p = "fe_path f" and ?offs = "tl_offs t"
  from rep obtain n c where f: "\<not> fe_isDir f" "fe_size f = Some n" "fe_content f = Some c" "0 < n" "n \<le> length c"
    "n < offset_of ?offs ?p" "newline \<in> set (limitRead maxScanReadBytes c)"
    by (auto simp: file_replaced_def split: option.splits)
  obtain k where k: "lastIndexByte (limitRead maxScanReadBytes c) newline = Some k"
    using f(7) indexByte_None [of "rev (limitRead maxScanReadBytes c)" newline]
    by (cases "lastIndexByte (limitRead maxScanReadBytes c) newline") (auto simp: lastIndexByte_def)
  have con: "consumed 0 c = k + 1" using k by (simp add: consumed_def)
  have tk: "take (k + 1) c = take (k + 1) (limitRead maxScanReadBytes c)"
    using take_consumed [of 0 c] k by (simp add: con)
  let ?new = "FTruncated ?p # map (FLine ?p) (lines_of (take (k + 1) c))"
  have r: "readAppendedFile log_line log_trunc f (?offs, l) = (?offs(?p \<mapsto> k + 1), l @ ?new)" for l
    using f k by (simp add: readAppendedFile_def Let_def feed_lines_of fold_log_line tk del: add_Suc_right One_nat_def)
  have fol: "follow f t = \<lparr>tl_offs = ?offs(?p \<mapsto> k + 1), tl_seen = (tl_seen t)(?p := c),
      tl_past = (tl_past t)(?p := generations t ?p), tl_cut = (tl_cut t)(?p := False)\<rparr>"
    using f r rep by (simp add: follow_def see_file_def file_cut_def Let_def)
  have "tail_moves t (follow f t) ?new"
  proof (rule tail_moves_file [OF t])
    show "offset_of (tl_offs (follow f t)) ?p \<le> length (tl_seen (follow f t) ?p)"
      "ends_line (take (offset_of (tl_offs (follow f t)) ?p) (tl_seen (follow f t) ?p))"
      using consumed_bounds [of 0 c] ends_line_consumed [of 0 c]
      by (simp_all add: fol offset_of_def con ends_line_def)
  qed (auto simp: fol offset_of_def tail_feed_def lines_read_def generations_def)
  then show ?thesis using r [of log] f(1) by (intro exI [of _ ?new]) (auto simp: fol)
qed

lemma tail_file_cut:
  assumes t: "tailed t" and cut: "file_cut t f"
  shows "\<exists>new. tail_file f (tl_offs t, log) = (tl_offs (follow f t), log @ new)
    \<and> tail_moves t (follow f t) new \<and> feed_path ` set new \<subseteq> {fe_path f}"
proof -
  let ?p = "fe_path f"
  have nl: "newline \<notin> set s \<Longrightarrow> lastIndexByte s newline = None" for s
    using indexByte_None [of "rev s" newline] by (simp add: lastIndexByte_def)
  have r: "tail_file f (tl_offs t, l) = (tl_offs t, l @ [FTruncated ?p])" for l
    using cut nl by (auto simp: file_cut_def readAppendedFile_def Let_def split: option.splits)
  have fol: "follow f t = t\<lparr>tl_past := (tl_past t)(?p := generations t ?p), tl_cut := (tl_cut t)(?p := True)\<rparr>"
    using cut r [of "[]"] by (simp add: follow_def Let_def)
  have "tail_moves t (follow f t) [FTruncated ?p]"
    by (rule tail_moves_file [OF t, where p = ?p])
      (use t in \<open>simp_all add: fol tailed_def tail_feed_def lines_read_def generations_def\<close>)
  then show ?thesis using r by (intro exI [of _ "[FTruncated ?p]"]) (simp add: fol)
qed

lemma tail_file_moves:
  assumes "tailed t" "file_grows t f \<or> file_replaced t f \<or> file_cut t f"
  shows "\<exists>new. tail_file f (tl_offs t, log) = (tl_offs (follow f t), log @ new)
    \<and> tail_moves t (follow f t) new \<and> feed_path ` set new \<subseteq> {fe_path f}"
proof (cases "file_replaced t f \<or> file_cut t f")
  case True
  then show ?thesis using tail_file_replaced [OF assms(1)] tail_file_cut [OF assms(1)] by blast
next
  case False
  then have g: "file_grows t f" using assms(2) by simp
  show ?thesis
  proof (cases "fe_isDir f \<or> fe_size f = None \<or> fe_content f = None")
    case True
    then show ?thesis using tail_file_quiet [OF assms(1) g True] assms(1)
      by (intro exI [of _ "[]"]) (simp add: tail_moves_def)
  next
    case False
    then show ?thesis using tail_file_grows [OF assms(1) g] by auto
  qed
qed

lemma tail_files_move:
  assumes "tailed t" "files_ok t fs"
  shows "\<exists>new. fold tail_file fs (tl_offs t, log) = (tl_offs (fold follow fs t), log @ new)
    \<and> tail_moves t (fold follow fs t) new \<and> feed_path ` set new \<subseteq> fe_path ` set fs"
  using assms
proof (induction fs arbitrary: t log)
  case Nil
  then show ?case by (simp add: tail_moves_def)
next
  case (Cons f fs)
  obtain new1 where 1: "tail_file f (tl_offs t, log) = (tl_offs (follow f t), log @ new1)"
    "tail_moves t (follow f t) new1" "feed_path ` set new1 \<subseteq> {fe_path f}"
    using tail_file_moves [of t f log] Cons.prems by auto
  obtain new2 where 2: "fold tail_file fs (tl_offs (follow f t), log @ new1)
        = (tl_offs (fold follow fs (follow f t)), (log @ new1) @ new2)"
    "tail_moves (follow f t) (fold follow fs (follow f t)) new2" "feed_path ` set new2 \<subseteq> fe_path ` set fs"
    using Cons.IH [of "follow f t" "log @ new1"] 1(2) Cons.prems(2) by (auto simp: tail_moves_def)
  have "fold tail_file (f # fs) (tl_offs t, log) = (tl_offs (fold follow (f # fs) t), log @ (new1 @ new2))"
    using 2(1) by (simp only: fold.simps comp_def 1(1) append_assoc)
  then show ?case using tail_moves_trans [OF 1(2) 2(2)] 1(3) 2(3)
    by (intro exI [of _ "new1 @ new2"]) auto
qed

text \<open>A scan of a directory.\<close>

lemma scan_log_moves:
  assumes "tailed t" "files_ok t (entries_of dir listing)"
  defines "t' \<equiv> fold follow (entries_of dir listing) t"
  shows "fst (scan_log dir listing (tl_offs t)) = tl_offs t'"
    and "tail_moves t t' (snd (scan_log dir listing (tl_offs t)))"
    and "feed_path ` set (snd (scan_log dir listing (tl_offs t))) \<subseteq> fe_path ` set (entries_of dir listing)"
  using tail_files_move [OF assms(1,2), of "[]"] by (auto simp: scan_log_entries t'_def)

text \<open>The lines of a log, by file.\<close>

definition lines_for :: "string \<Rightarrow> feed list \<Rightarrow> string set" where
  "lines_for p log = {l. FLine p l \<in> set log}"

lemma tail_feed_all: "\<Union> (set ` set (generations t p)) = {l. FLine p l \<in> set (tail_feed p t)}"
  by (auto simp: tail_feed_lines)

lemma tail_moves_lines:
  assumes "tail_moves t t' new"
  shows "\<Union> (set ` set (generations t' p)) = \<Union> (set ` set (generations t p)) \<union> lines_for p new"
proof -
  have "tail_feed p t' = tail_feed p t @ filter (\<lambda>f. feed_path f = p) new"
    using assms by (simp add: tail_moves_def)
  then show ?thesis unfolding tail_feed_all lines_for_def by auto
qed

end
