(* ===== verification/IdentityPoller.thy ===== *)
theory IdentityPoller
  imports IdentityScan FileTail Tasks
begin

text \<open>
  The identity poller from the log files to the answers: the ticker loop around \<open>scan\<close> over the two
  directories it tails, and what \<open>Lookup\<close> says at any moment in terms of the lines written so far.
\<close>

section \<open>The poller's ticks\<close>

text \<open>What a tick meets: the two listings (\<open>None\<close>: \<open>ReadDir\<close> failed) and the clock.\<close>

type_synonym identity_world = "file_entry list option \<times> file_entry list option \<times> time"

definition identity_tick where
  "identity_tick xmlFields sendD sendR w sn =
     (case w of (listNPS, listDHCP, now) \<Rightarrow> scan xmlFields sendD sendR listNPS listDHCP now sn)"

text \<open>The operations of one tick on the store, and those of a whole run; only the configuration and
  the offsets of the store given here are used.\<close>

definition scan_ops :: "xml_decoder \<Rightarrow> identity_world \<Rightarrow> IdentityStore \<Rightarrow> identity_event store_op list" where
  "scan_ops xmlFields w s =
     (case w of (listNPS, listDHCP, now) \<Rightarrow>
        map (Ev \<circ> Radius) (scan_radius_events xmlFields listNPS s)
        @ map (Ev \<circ> Dhcp) (scan_dhcp_events listNPS listDHCP s) @ [Sweep now])"

definition scan_next :: "identity_world \<Rightarrow> IdentityStore \<Rightarrow> IdentityStore" where
  "scan_next w s =
     (case w of (listNPS, listDHCP, now) \<Rightarrow> s\<lparr>is_offsets := scan_offsets listNPS listDHCP s\<rparr>)"

primrec poll_ops :: "xml_decoder \<Rightarrow> identity_world list \<Rightarrow> IdentityStore \<Rightarrow> identity_event store_op list" where
  "poll_ops xmlFields [] s = []"
| "poll_ops xmlFields (w # ws) s = scan_ops xmlFields w s @ poll_ops xmlFields ws (scan_next w s)"

lemma same_config_next:
  assumes "same_config s t"
  shows "scan_ops xmlFields w s = scan_ops xmlFields w t" "same_config (scan_next w s) (scan_next w t)"
  using assms
  by (simp_all add: same_config_def scan_ops_def scan_next_def scan_offsets_def scan_radius_events_def
      scan_dhcp_events_def split: prod.splits)

lemma same_config_ops: "same_config s t \<Longrightarrow> poll_ops xmlFields ws s = poll_ops xmlFields ws t"
proof (induction ws arbitrary: s t)
  case Nil
  show ?case by simp
next
  case (Cons w ws)
  show ?case using same_config_next [OF Cons.prems] Cons.IH by simp
qed

lemma same_config_fold: "same_config s t \<Longrightarrow> same_config (fold scan_next ws s) (fold scan_next ws t)"
  by (induction ws arbitrary: s t) (simp_all add: same_config_next)

lemma same_state_run: "same_state s t \<Longrightarrow> same_state (identity_run ops s) (identity_run ops t)"
proof (induction ops arbitrary: s t)
  case Nil
  then show ?case by (simp add: identity_run_def)
next
  case (Cons op ops)
  have "same_state (identity_step op s) (identity_step op t)"
  proof (cases op)
    case (Ev e)
    then show ?thesis using Cons.prems by (cases e) (simp_all add: same_state_dhcp same_state_radius)
  next
    case (Sweep now)
    then show ?thesis using Cons.prems by (simp add: same_state_evict)
  qed
  then show ?case using Cons.IH by (simp add: identity_run_def)
qed

lemma identity_run_append: "identity_run (ops @ ops') s = identity_run ops' (identity_run ops s)"
  by (simp add: identity_run_def)

lemma scan_ops_run:
  "identity_run (scan_ops xmlFields (ln, ld, now) s) v =
     evictExpired now (fold apply_event (map Radius (scan_radius_events xmlFields ln s)
       @ map Dhcp (scan_dhcp_events ln ld s)) v)"
proof -
  have "identity_step (Ev e) = apply_event e" for e by (rule ext) simp
  then show ?thesis by (simp add: identity_run_def scan_ops_def fold_map comp_def)
qed

lemma tick_effect:
  fixes c :: 'c
  defines "t \<equiv> \<lambda>xmlFields sendD sendR w s (c :: 'c). fst (identity_tick xmlFields sendD sendR w (s, c))"
  shows "same_state (t xmlFields sendD sendR w s c) (identity_run (scan_ops xmlFields w s) s)"
    and "same_config (t xmlFields sendD sendR w s c) (scan_next w s)"
proof -
  obtain ln ld now where w: "w = (ln, ld, now)" by (cases w)
  show "same_state (t xmlFields sendD sendR w s c) (identity_run (scan_ops xmlFields w s) s)"
    "same_config (t xmlFields sendD sendR w s c) (scan_next w s)"
    using scan_effect(1,3) by (simp_all add: t_def w identity_tick_def scan_ops_run scan_next_def)
qed

lemma ticks_effect:
  "same_state (fst (fold (identity_tick xmlFields sendD sendR) ws (s, c))) (identity_run (poll_ops xmlFields ws s) s)
   \<and> same_config (fst (fold (identity_tick xmlFields sendD sendR) ws (s, c))) (fold scan_next ws s)"
proof (induction ws arbitrary: s c)
  case Nil
  show ?case by (simp add: identity_run_def)
next
  case (Cons w ws)
  obtain s1 c1 where 1: "identity_tick xmlFields sendD sendR w (s, c) = (s1, c1)" by fastforce
  note e = tick_effect [of xmlFields sendD sendR w s c, unfolded 1, simplified]
  have "same_state (identity_run (poll_ops xmlFields ws s1) s1)
      (identity_run (poll_ops xmlFields ws s1) (identity_run (scan_ops xmlFields w s) s))"
    by (rule same_state_run [OF e(1)])
  then have "same_state (identity_run (poll_ops xmlFields ws s1) s1) (identity_run (poll_ops xmlFields (w # ws) s) s)"
    by (simp add: identity_run_append same_config_ops [OF e(2)])
  moreover have "same_config (fold scan_next ws s1) (fold scan_next (w # ws) s)"
    using same_config_fold [OF e(2)] by simp
  ultimately show ?case using Cons.IH [of s1 c1] 1
    by (auto intro: same_state_trans simp: same_config_def)
qed

section \<open>The events the files hold\<close>

text \<open>The directories a store reads and the files it meets there over a run.\<close>

definition tick_files :: "IdentityStore \<Rightarrow> identity_world \<Rightarrow> file_entry list" where
  "tick_files s w =
     (case w of (listNPS, listDHCP, now) \<Rightarrow> entries_of (npsDir s) listNPS @ entries_of (dhcpDir s) listDHCP)"

definition nps_paths :: "IdentityStore \<Rightarrow> identity_world list \<Rightarrow> string set" where
  "nps_paths s ws = (\<Union>(listNPS, listDHCP, now)\<in>set ws. fe_path ` set (entries_of (npsDir s) listNPS))"

definition dhcp_paths :: "IdentityStore \<Rightarrow> identity_world list \<Rightarrow> string set" where
  "dhcp_paths s ws = (\<Union>(listNPS, listDHCP, now)\<in>set ws. fe_path ` set (entries_of (dhcpDir s) listDHCP))"

text \<open>What the files hold of events: those their consumed lines parse to, in every generation.\<close>

definition file_events :: "(feed \<Rightarrow> 'e option) \<Rightarrow> string set \<Rightarrow> tail \<Rightarrow> 'e set" where
  "file_events ev P t = {e. \<exists>p\<in>P. \<exists>l\<in>\<Union> (set ` set (generations t p)). ev (FLine p l) = Some e}"

definition log_events ::
  "xml_decoder \<Rightarrow> IdentityStore \<Rightarrow> string set \<Rightarrow> string set \<Rightarrow> tail \<Rightarrow> identity_event set" where
  "log_events xmlFields s P D t =
     Radius ` file_events (nps_event xmlFields (is_tok s) (npsLoc s)) P t
     \<union> Dhcp ` file_events (dhcp_event (is_tok s) (dhcpLoc s)) D t"

lemma log_events_start: "log_events xmlFields s P D tail_start = {}"
  by (simp add: log_events_def file_events_def)

lemma feed_events_set:
  assumes "feed_path ` set new \<subseteq> P" "\<And>p. ev (FTruncated p) = None"
  shows "set (List.map_filter ev new) = {e. \<exists>p\<in>P. \<exists>l\<in>lines_for p new. ev (FLine p l) = Some e}"
proof -
  have "(\<exists>f\<in>set new. ev f = Some e) \<longleftrightarrow> (\<exists>p\<in>P. \<exists>l\<in>lines_for p new. ev (FLine p l) = Some e)" for e
  proof
    assume "\<exists>f\<in>set new. ev f = Some e"
    then obtain f where f: "f \<in> set new" "ev f = Some e" by blast
    with assms(2) obtain p l where "f = FLine p l" by (cases f) auto
    moreover have "feed_path f \<in> P" using assms(1) f(1) by blast
    ultimately show "\<exists>p\<in>P. \<exists>l\<in>lines_for p new. ev (FLine p l) = Some e" using f by (auto simp: lines_for_def)
  qed (auto simp: lines_for_def)
  moreover have "set (List.map_filter ev new) = {e. \<exists>f\<in>set new. ev f = Some e}" by (force simp: map_filter_def)
  ultimately show ?thesis by simp
qed

lemma file_events_move:
  assumes "\<And>p. p \<in> P \<Longrightarrow> \<Union> (set ` set (generations t' p)) = \<Union> (set ` set (generations t p)) \<union> lines_for p new"
    and "feed_path ` set new \<subseteq> P" "\<And>p. ev (FTruncated p) = None"
  shows "file_events ev P t' = file_events ev P t \<union> set (List.map_filter ev new)"
  unfolding feed_events_set [of new P ev, OF assms(2,3)] file_events_def using assms(1) by auto

lemma lines_for_other: "feed_path ` set new \<subseteq> D \<Longrightarrow> p \<notin> D \<Longrightarrow> lines_for p new = {}"
  by (fastforce simp: lines_for_def image_subset_iff)

lemma events_of_scan_ops:
  "set (events_of (scan_ops xmlFields (ln, ld, now) s)) =
     Radius ` set (scan_radius_events xmlFields ln s) \<union> Dhcp ` set (scan_dhcp_events ln ld s)"
  by (auto simp: scan_ops_def)

lemma tick_log:
  assumes t: "tailed t" "is_offsets s = tl_offs t" and g: "files_ok t (tick_files s w)"
    and P: "nps_paths s [w] \<subseteq> P" and D: "dhcp_paths s [w] \<subseteq> D" and PD: "P \<inter> D = {}"
  defines "t' \<equiv> fold follow (tick_files s w) t"
  shows "tailed t'" "is_offsets (scan_next w s) = tl_offs t'"
    and "log_events xmlFields s P D t' = log_events xmlFields s P D t \<union> set (events_of (scan_ops xmlFields w s))"
proof -
  obtain ln ld now where w: "w = (ln, ld, now)" by (cases w)
  let ?t1 = "fold follow (entries_of (npsDir s) ln) t"
  let ?n = "snd (scan_log (npsDir s) ln (tl_offs t))" and ?d = "snd (scan_log (dhcpDir s) ld (tl_offs ?t1))"
  have g1: "files_ok t (entries_of (npsDir s) ln)" and g2: "files_ok ?t1 (entries_of (dhcpDir s) ld)"
    using g by (simp_all add: w tick_files_def)
  have t': "t' = fold follow (entries_of (dhcpDir s) ld) ?t1" by (simp add: t'_def w tick_files_def)
  note n = scan_log_moves [OF t(1) g1]
  have t1: "tailed ?t1" using n(2) by (simp add: tail_moves_def)
  note d = scan_log_moves [OF t1 g2, folded t']
  have nP: "feed_path ` set ?n \<subseteq> P" and dD: "feed_path ` set ?d \<subseteq> D"
    using n(3) d(3) P D by (auto simp: w nps_paths_def dhcp_paths_def)
  show "tailed t'" using d(2) by (simp add: tail_moves_def)
  show "is_offsets (scan_next w s) = tl_offs t'" using n(1) d(1) t(2) by (simp add: scan_next_def w scan_offsets_def)
  note lines = tail_moves_lines [OF n(2)] tail_moves_lines [OF d(2)]
  have other: "p \<in> P \<Longrightarrow> lines_for p ?d = {}" "p \<in> D \<Longrightarrow> lines_for p ?n = {}" for p
    using lines_for_other [OF dD] lines_for_other [OF nP] PD by blast+
  have lP: "p \<in> P \<Longrightarrow> \<Union> (set ` set (generations t' p)) = \<Union> (set ` set (generations t p)) \<union> lines_for p ?n" for p
    using other(1) [of p] by (simp only: lines Un_empty_right)
  have lD: "p \<in> D \<Longrightarrow> \<Union> (set ` set (generations t' p)) = \<Union> (set ` set (generations t p)) \<union> lines_for p ?d" for p
    using other(2) [of p] by (simp only: lines Un_empty_right)
  have "file_events (nps_event xmlFields (is_tok s) (npsLoc s)) P t' =
      file_events (nps_event xmlFields (is_tok s) (npsLoc s)) P t \<union> set (scan_radius_events xmlFields ln s)"
    unfolding scan_radius_events_def dir_feed_def t(2)
    by (rule file_events_move [OF lP nP]) (simp_all add: nps_event_def)
  moreover have "file_events (dhcp_event (is_tok s) (dhcpLoc s)) D t' =
      file_events (dhcp_event (is_tok s) (dhcpLoc s)) D t \<union> set (scan_dhcp_events ln ld s)"
    unfolding scan_dhcp_events_def dir_feed_def t(2) n(1)
    by (rule file_events_move [OF lD dD]) (simp_all add: dhcp_event_def)
  ultimately show "log_events xmlFields s P D t'
      = log_events xmlFields s P D t \<union> set (events_of (scan_ops xmlFields w s))"
    unfolding log_events_def w events_of_scan_ops by (simp add: image_Un Un_ac)
qed

lemma ticks_log:
  assumes "tailed t" "is_offsets s = tl_offs t" "files_ok t (concat (map (tick_files s) ws))"
    and "nps_paths s ws \<subseteq> P" "dhcp_paths s ws \<subseteq> D" "P \<inter> D = {}"
  shows "log_events xmlFields s P D (fold follow (concat (map (tick_files s) ws)) t)
           = log_events xmlFields s P D t \<union> set (events_of (poll_ops xmlFields ws s))"
  using assms
proof (induction ws arbitrary: s t)
  case Nil
  show ?case by simp
next
  case (Cons w ws)
  let ?s = "scan_next w s" and ?t = "fold follow (tick_files s w) t"
  have same: "tick_files ?s = tick_files s" "nps_paths ?s = nps_paths s" "dhcp_paths ?s = dhcp_paths s"
    "log_events xmlFields ?s = log_events xmlFields s"
    by (auto simp: scan_next_def tick_files_def nps_paths_def dhcp_paths_def log_events_def fun_eq_iff split: prod.splits)
  have sub: "nps_paths s [w] \<subseteq> P" "dhcp_paths s [w] \<subseteq> D" "nps_paths s ws \<subseteq> P" "dhcp_paths s ws \<subseteq> D"
    using Cons.prems(4,5) by (auto simp: nps_paths_def dhcp_paths_def)
  note l = tick_log [OF Cons.prems(1,2) _ sub(1,2) Cons.prems(6)]
  show ?case using Cons.IH [of ?t ?s] l Cons.prems(3,6) sub(3,4)
    by (simp add: same Un_assoc)
qed

text \<open>
  The logs of a run as a whole: every file grows, or is cut short or replaced at each scan, the two
  directories do not share a file, and the events are those of all lines read.
\<close>

definition logs_ok :: "IdentityStore \<Rightarrow> identity_world list \<Rightarrow> bool" where
  "logs_ok s ws \<longleftrightarrow> files_ok tail_start (concat (map (tick_files s) ws)) \<and> nps_paths s ws \<inter> dhcp_paths s ws = {}"

definition identity_log :: "xml_decoder \<Rightarrow> IdentityStore \<Rightarrow> identity_world list \<Rightarrow> identity_event set" where
  "identity_log xmlFields s ws =
     log_events xmlFields s (nps_paths s ws) (dhcp_paths s ws) (fold follow (concat (map (tick_files s) ws)) tail_start)"

lemma identity_log_ops:
  assumes "is_offsets s = Map.empty" "logs_ok s ws"
  shows "identity_log xmlFields s ws = set (events_of (poll_ops xmlFields ws s))"
  using ticks_log [of tail_start s ws _ _ xmlFields, OF _ _ _ order_refl order_refl] assms
  by (simp add: identity_log_def logs_ok_def log_events_start)

section \<open>What the poller answers\<close>

lemma resolves_set:
  assumes "set es = set es'"
  shows "resolves L S T es ip m u = resolves L S T es' ip m u"
proof -
  have "set (ip_acts ip es) = set (ip_acts ip es')" "set (mac_acts m es) = set (mac_acts m es')"
    using assms by (simp_all add: set_acts_for)
  then show ?thesis by (simp add: resolves_def)
qed

lemma sweeps_poll_ops: "(\<forall>(listNPS, listDHCP, now)\<in>set ws. now \<le> T) \<Longrightarrow> sweeps_before T (poll_ops xmlFields ws s)"
proof (induction ws arbitrary: s)
  case Nil
  show ?case by simp
next
  case (Cons w ws)
  then show ?case by (cases w) (auto simp: scan_ops_def sweeps_before_def)
qed

text \<open>The store of a running poller.\<close>

lemma identity_poll_state:
  fixes c :: 'c and t :: "(identity_world, IdentityStore \<times> 'c) task"
  assumes "(task_step (identity_tick xmlFields sendD sendR))\<^sup>*\<^sup>*
      (StartPoller (identity_tick xmlFields sendD sendR) w (s0, c)) t"
  shows "Lookup T (fst (tk_store t)) ip = Lookup T (identity_run (poll_ops xmlFields (tk_runs t) s0) s0) ip"
proof -
  have "tk_store t = fold (identity_tick xmlFields sendD sendR) (tk_runs t) (s0, c)"
    using poller_is_its_scans [OF assms] by simp
  then show ?thesis
    using ticks_effect [of xmlFields sendD sendR "tk_runs t" s0 c] same_state_Lookup by auto
qed


text \<open>
  A lease log read four times: its second row half written, then whole, then the log emptied, then a new
  one that starts over.
\<close>

definition demo_row1 :: string where
  "demo_row1 = ''10,07/13/26,08:00:00,Assign,10.0.0.66,h,m1''"

definition demo_row2 :: string where
  "demo_row2 = ''11,07/13/26,08:30:00,Renew,10.0.0.66,h,m1''"

definition demo_row3 :: string where
  "demo_row3 = ''10,07/13/26,09:30:00,Assign,10.0.0.66,h,m2''"

definition demo_log :: "string \<Rightarrow> file_entry" where
  "demo_log c = \<lparr>fe_path = ''/d/a'', fe_isDir = False, fe_size = Some (length c), fe_content = Some c\<rparr>"

definition demo_worlds :: "identity_world list" where
  "demo_worlds =
     [(None, Some [demo_log (demo_row1 @ newline # take 12 demo_row2)], 0),
      (None, Some [demo_log (demo_row1 @ newline # demo_row2 @ [newline])], 0),
      (None, Some [demo_log ''''], 0),
      (None, Some [demo_log (demo_row3 @ [newline])], 0)]"

definition demo_store :: IdentityStore where
  "demo_store = NewIdentityStore UpstreamPseudonymTokenizer '''' ''/d'' None None (24 * hour) (24 * hour) False"

abbreviation demo_tick :: "identity_world \<Rightarrow> IdentityStore \<times> unit \<Rightarrow> IdentityStore \<times> unit" where
  "demo_tick \<equiv> identity_tick (\<lambda>_. Inr []) (\<lambda>_ c. (True, c)) (\<lambda>_ c. (True, c))"

definition demo_es :: "identity_event list" where
  "demo_es = map Dhcp
     [\<lparr>dh_EventTime = 1783929600000000000, dh_EventID = 10, dh_IP = ''10.0.0.66'', dh_MACToken = ''m1'', dh_HostToken = ''h''\<rparr>,
      \<lparr>dh_EventTime = 1783931400000000000, dh_EventID = 11, dh_IP = ''10.0.0.66'', dh_MACToken = ''m1'', dh_HostToken = ''h''\<rparr>,
      \<lparr>dh_EventTime = 1783935000000000000, dh_EventID = 10, dh_IP = ''10.0.0.66'', dh_MACToken = ''m2'', dh_HostToken = ''h''\<rparr>]"

lemma demo_facts:
  "events_of (poll_ops (\<lambda>_. Inr []) demo_worlds demo_store) = demo_es"
  "files_ok tail_start (concat (map (tick_files demo_store) demo_worlds))"
  "Lookup 1783957200000000000 (fst (fold demo_tick demo_worlds (demo_store, ()))) ''10.0.0.66'' = (''m2'', '''')"
  by code_simp+

lemma demo_ok: "logs_ok demo_store demo_worlds" "identity_log (\<lambda>_. Inr []) demo_store demo_worlds = set demo_es"
proof -
  have "nps_paths demo_store demo_worlds = {}"
    by (simp add: nps_paths_def demo_worlds_def demo_store_def NewIdentityStore_def entries_of_def)
  then show ok: "logs_ok demo_store demo_worlds" by (simp add: logs_ok_def demo_facts(2))
  have "is_offsets demo_store = Map.empty" by (simp add: demo_store_def NewIdentityStore_def)
  then show "identity_log (\<lambda>_. Inr []) demo_store demo_worlds = set demo_es"
    by (simp only: identity_log_ops [OF _ ok] demo_facts(1))
qed


end
