(* ===== verification/DnsPoller.thy ===== *)
theory DnsPoller
  imports DnsScan TcpdumpLog FileTail Tasks
begin

text \<open>
  The DNS poller from the log files to the answers: the ticker loop around the scan, and where a host
  name that \<open>Lookup\<close> gives at any moment was read.
\<close>

section \<open>The events of a file\<close>

text \<open>The parser of one file over its lines.\<close>

primrec parse_lines :: "'p dns_parser \<Rightarrow> string list \<Rightarrow> 'p \<Rightarrow> DnsEvent list" where
  "parse_lines lp [] q = []"
| "parse_lines lp (l # ls) q = (let (r, q') = lp_feed lp l q in good_events r @ parse_lines lp ls q')"

text \<open>The parsers after a feed.\<close>

fun feed_parsers :: "'p dns_parser \<Rightarrow> feed list \<Rightarrow> (string \<rightharpoonup> 'p) \<Rightarrow> (string \<rightharpoonup> 'p)" where
  "feed_parsers lp [] ps = ps"
| "feed_parsers lp (FLine path line # fs) ps =
     feed_parsers lp fs (ps(path \<mapsto> snd (lp_feed lp line (parser_of lp ps path))))"
| "feed_parsers lp (FTruncated path # fs) ps = feed_parsers lp fs (ps(path := None))"

lemma feed_events_append:
  "feed_events lp (xs @ ys) ps = feed_events lp xs ps @ feed_events lp ys (feed_parsers lp xs ps)"
  by (induction lp xs ps rule: feed_events.induct) (simp_all add: Let_def split: prod.split del: fun_upd_apply)

lemma feed_parsers_append: "feed_parsers lp (xs @ ys) ps = feed_parsers lp ys (feed_parsers lp xs ps)"
  by (induction lp xs ps rule: feed_parsers.induct) (simp_all del: fun_upd_apply)

lemma feed_events_lines:
  "concat (map (good_events \<circ> snd) (feed_events lp (map (FLine p) ls) ps)) = parse_lines lp ls (parser_of lp ps p)"
proof (induction ls arbitrary: ps)
  case Nil
  show ?case by simp
next
  case (Cons l ls)
  obtain r q where f: "lp_feed lp l (parser_of lp ps p) = (r, q)" by fastforce
  have "parser_of lp (ps(p \<mapsto> q)) p = q" by (simp add: parser_of_def)
  then show ?case using Cons.IH [of "ps(p \<mapsto> q)"] f by (simp add: Let_def del: fun_upd_apply)
qed

lemma feed_events_path: "(q, r) \<in> set (feed_events lp fs ps) \<Longrightarrow> q \<in> feed_path ` set fs"
  by (induction lp fs ps rule: feed_events.induct) (auto simp: Let_def simp del: fun_upd_apply split: prod.splits)

text \<open>
  The events of a file, generation by generation: a truncation makes the next line start a new parser.
\<close>

definition file_dns_events :: "'p dns_parser \<Rightarrow> tail \<Rightarrow> string \<Rightarrow> DnsEvent list" where
  "file_dns_events lp t p = concat (map (\<lambda>ls. parse_lines lp ls (lp_init lp)) (generations t p))"

lemma feed_events_past:
  "ps p = None \<Longrightarrow>
   concat (map (good_events \<circ> snd)
     (feed_events lp (concat (map (\<lambda>ls. map (FLine p) ls @ [FTruncated p]) gs) @ map (FLine p) ls) ps))
   = concat (map (\<lambda>ls. parse_lines lp ls (lp_init lp)) (gs @ [ls]))"
proof (induction gs arbitrary: ps)
  case Nil
  then show ?case using feed_events_lines [of lp p ls ps] by (simp add: parser_of_def comp_def)
next
  case (Cons g gs)
  let ?ps = "(feed_parsers lp (map (FLine p) g) ps)(p := None)"
  have "concat (map (good_events \<circ> snd) (feed_events lp (map (FLine p) g) ps)) = parse_lines lp g (lp_init lp)"
    using Cons.prems by (simp add: feed_events_lines parser_of_def)
  moreover have "?ps p = None" by simp
  note Cons.IH [of ?ps, OF this]
  ultimately show ?case by (simp add: feed_events_append comp_def del: fun_upd_apply)
qed

text \<open>Every event of a log is one of the parser of a single file.\<close>

lemma feed_event_file:
  assumes "e \<in> set (concat (map (good_events \<circ> snd) (feed_events lp log Map.empty)))"
    and "\<And>p. filter (\<lambda>f. feed_path f = p) log = tail_feed p t"
  shows "\<exists>p. e \<in> set (file_dns_events lp t p)"
proof -
  from assms(1) obtain p r where r: "(p, r) \<in> set (feed_events lp log Map.empty)" "e \<in> set (good_events r)"
    by auto
  have "(p, r) \<in> set (filter (\<lambda>(q, r). q = p) (feed_events lp log Map.empty))" using r(1) by simp
  then have "(p, r) \<in> set (feed_events lp (tail_feed p t) Map.empty)"
    unfolding dns_files_isolated assms(2) by simp
  then have "e \<in> set (concat (map (good_events \<circ> snd) (feed_events lp (tail_feed p t) Map.empty)))"
    using r(2) by force
  then show ?thesis
    unfolding tail_feed_def feed_events_past [of Map.empty p, OF refl] file_dns_events_def generations_def by blast
qed

section \<open>The poller's ticks\<close>

type_synonym dns_world = "file_entry list option \<times> time"

definition dns_tick where
  "dns_tick lp rng send w sn = (case w of (listing, now) \<Rightarrow> dns_scan lp rng send listing now sn)"

definition dns_tail :: "string \<Rightarrow> dns_world list \<Rightarrow> tail" where
  "dns_tail dir ws = fold follow (concat (map (entries_of dir \<circ> fst) ws)) tail_start"

definition dns_logs_ok :: "string \<Rightarrow> dns_world list \<Rightarrow> bool" where
  "dns_logs_ok dir ws \<longleftrightarrow> files_ok tail_start (concat (map (entries_of dir \<circ> fst) ws))"

text \<open>What the poller has been fed: the log of all its ticks.\<close>

primrec dns_poll_log :: "string \<Rightarrow> dns_world list \<Rightarrow> offsets \<Rightarrow> feed list" where
  "dns_poll_log dir [] offs = []"
| "dns_poll_log dir (w # ws) offs =
     snd (scan_log dir (fst w) offs) @ dns_poll_log dir ws (fst (scan_log dir (fst w) offs))"

lemma dns_poll_log_moves:
  assumes "tailed t" "files_ok t (concat (map (entries_of dir \<circ> fst) ws))"
  shows "tail_moves t (fold follow (concat (map (entries_of dir \<circ> fst) ws)) t) (dns_poll_log dir ws (tl_offs t))"
  using assms
proof (induction ws arbitrary: t)
  case Nil
  then show ?case by (simp add: tail_moves_def)
next
  case (Cons w ws)
  let ?t = "fold follow (entries_of dir (fst w)) t"
  have "files_ok t (entries_of dir (fst w))" using Cons.prems(2) by simp
  note m = scan_log_moves [OF Cons.prems(1) this]
  then have "tailed ?t" by (simp add: tail_moves_def)
  then show ?case using tail_moves_trans [OF m(2) Cons.IH] Cons.prems(2) m(1) by simp
qed

text \<open>Every binding of the store comes from one of the events.\<close>

definition backed :: "DnsEvent set \<Rightarrow> (dnsKey \<rightharpoonup> dnsBinding) \<Rightarrow> bool" where
  "backed E m \<longleftrightarrow> (\<forall>k b. m k = Some b \<longrightarrow>
     (\<exists>e\<in>E. k = dns_key e \<and> db_hostname b = dn_QName e \<and> db_deadline b \<le> dn_EventTime e + hour))"

lemma backed_scan_apply: "backed E (entries s) \<Longrightarrow> backed (insert e E) (entries (scan_apply rng now e s))"
  using dns_ttl_bounds [of e] unfolding backed_def scan_apply_def by (fastforce dest: dns_put_entries)

lemma backed_fold: "backed E (entries s) \<Longrightarrow> backed (set evs \<union> E) (entries (fold (scan_apply rng now) evs s))"
proof (induction evs arbitrary: s E)
  case Nil
  then show ?case by simp
next
  case (Cons e evs)
  show ?case using Cons.IH [OF backed_scan_apply [OF Cons.prems, of e rng now]] by simp
qed

lemma backed_evict: "backed E (entries s) \<Longrightarrow> backed E (entries (dns_evictExpired now s))"
  by (auto simp: backed_def dns_evictExpired_def evict_map_Some)

lemma applyDNS_dir [simp]: "dnsDir (applyDNS ks now e s) = dnsDir s"
  by (auto simp: applyDNS_def dns_put_def Let_def split: option.splits)

lemma ingestDNS_parsers:
  "parsers (ingestDNS lp rng now p l s) = (parsers s)(p \<mapsto> snd (lp_feed lp l (parser_of lp (parsers s) p)))"
  "dnsDir (ingestDNS lp rng now p l s) = dnsDir s"
proof -
  have d: "dnsDir (fold (ingest_event rng now) evs u) = dnsDir u" for evs and u :: "'a DNSStore"
    by (induction evs arbitrary: u) (simp_all add: ingest_event_def Let_def split: option.split)
  have p: "parsers (fold (ingest_event rng now) evs u) = parsers u" for evs and u :: "'a DNSStore"
    by (induction evs arbitrary: u) (simp_all add: ingest_event_effect(3))
  show "parsers (ingestDNS lp rng now p l s) = (parsers s)(p \<mapsto> snd (lp_feed lp l (parser_of lp (parsers s) p)))"
    "dnsDir (ingestDNS lp rng now p l s) = dnsDir s"
    by (simp_all add: ingestDNS_def parser_of_def Let_def d p split: prod.split sum.split)
qed

lemma dns_feed_parsers:
  "parsers (fold (dns_feed lp rng now) fs s) = feed_parsers lp fs (parsers s)
   \<and> dnsDir (fold (dns_feed lp rng now) fs s) = dnsDir s"
proof (induction fs arbitrary: s)
  case Nil
  show ?case by simp
next
  case (Cons f fs)
  then show ?case by (cases f) (simp_all add: ingestDNS_parsers dns_onTruncate_def del: fun_upd_apply)
qed

lemma dns_tick_effect:
  fixes lp rng send listing now s c
  defines "log \<equiv> snd (scan_log (dnsDir s) listing (dn_offsets s))"
    and "u \<equiv> fst (dns_tick lp rng send (listing, now) (s, c))"
  shows "dn_offsets u = fst (scan_log (dnsDir s) listing (dn_offsets s))" "dnsDir u = dnsDir s"
    and "parsers u = feed_parsers lp log (parsers s)"
    and "entries u = entries (dns_evictExpired now
           (fold (scan_apply rng now) (concat (map (good_events \<circ> snd) (feed_events lp log (parsers s)))) s))"
proof -
  show "entries u = entries (dns_evictExpired now
           (fold (scan_apply rng now) (concat (map (good_events \<circ> snd) (feed_events lp log (parsers s)))) s))"
    using dns_scan_refines [where lp = lp and rng = rng and send = send and listing = listing and now = now and s = s and c = c]
    unfolding u_def log_def dns_tick_def by simp
  show "dn_offsets u = fst (scan_log (dnsDir s) listing (dn_offsets s))" "dnsDir u = dnsDir s"
    "parsers u = feed_parsers lp log (parsers s)"
    using dns_feed_parsers [of lp rng now log s]
    by (auto simp: u_def log_def dns_tick_def dns_scan_def scanAppendedDir_log dns_flush_def dns_evictExpired_def
        split: option.splits prod.splits)
qed

text \<open>The offsets after a run, and what a run makes of the store.\<close>

definition dns_poll_offsets :: "string \<Rightarrow> dns_world list \<Rightarrow> offsets \<Rightarrow> offsets" where
  "dns_poll_offsets dir ws offs = fold (\<lambda>w offs. fst (scan_log dir (fst w) offs)) ws offs"

lemma dns_ticks_effect:
  assumes "backed E (entries s)"
  shows "dn_offsets (fst (fold (dns_tick lp rng send) ws (s, c))) = dns_poll_offsets (dnsDir s) ws (dn_offsets s)
   \<and> backed (set (concat (map (good_events \<circ> snd)
         (feed_events lp (dns_poll_log (dnsDir s) ws (dn_offsets s)) (parsers s)))) \<union> E)
       (entries (fst (fold (dns_tick lp rng send) ws (s, c))))"
  using assms
proof (induction ws arbitrary: s c E)
  case Nil
  then show ?case by (simp add: dns_poll_offsets_def)
next
  case (Cons w ws)
  obtain listing now where w: "w = (listing, now)" by (cases w)
  let ?log = "snd (scan_log (dnsDir s) listing (dn_offsets s))"
  let ?evs = "concat (map (good_events \<circ> snd) (feed_events lp ?log (parsers s)))"
  obtain u c1 where u: "dns_tick lp rng send w (s, c) = (u, c1)" by fastforce
  note e = dns_tick_effect [of lp rng send listing now s c, folded w, unfolded u fst_conv]
  have "backed (set ?evs \<union> E) (entries u)"
    unfolding e(4) by (intro backed_evict backed_fold Cons.prems)
  from Cons.IH [OF this, of c1] show ?case
    by (simp add: u [unfolded w] e(1,2,3) dns_poll_offsets_def w feed_events_append Un_assoc Un_left_commute)
qed

text \<open>The events of a run, the store of a running poller, and what its files hold.\<close>

definition dns_poll_events :: "'p dns_parser \<Rightarrow> string \<Rightarrow> dns_world list \<Rightarrow> DnsEvent list" where
  "dns_poll_events lp dir ws = concat (map (good_events \<circ> snd) (feed_events lp (dns_poll_log dir ws Map.empty) Map.empty))"

lemma dns_poll_state:
  fixes c :: 'c and t :: "(dns_world, 'p DNSStore \<times> 'c) task"
  assumes s0: "s0 = NewDNSStore dir loc conn"
    and run: "(task_step (dns_tick lp rng send))\<^sup>*\<^sup>* (StartPoller (dns_tick lp rng send) w (s0, c)) t"
  shows "backed (set (dns_poll_events lp dir (tk_runs t))) (entries (fst (tk_store t)))"
proof -
  have st: "tk_store t = fold (dns_tick lp rng send) (tk_runs t) (s0, c)"
    using poller_is_its_scans [OF run] by simp
  have start: "dnsDir s0 = dir" "dn_offsets s0 = Map.empty" "parsers s0 = Map.empty" "backed {} (entries s0)"
    by (simp_all add: s0 NewDNSStore_def backed_def)
  show ?thesis
    using dns_ticks_effect [OF start(4), of lp rng send "tk_runs t" c, folded st, unfolded start]
    by (simp add: dns_poll_events_def)
qed

lemma dns_poll_files:
  assumes "dns_logs_ok dir ws" "e \<in> set (dns_poll_events lp dir ws)"
  shows "\<exists>p. e \<in> set (file_dns_events lp (dns_tail dir ws) p)"
proof -
  have "tail_moves tail_start (dns_tail dir ws) (dns_poll_log dir ws Map.empty)"
    using dns_poll_log_moves [of tail_start dir ws] assms(1) by (simp add: dns_tail_def dns_logs_ok_def)
  then have "filter (\<lambda>f. feed_path f = p) (dns_poll_log dir ws Map.empty) = tail_feed p (dns_tail dir ws)" for p
    by (simp add: tail_moves_def)
  from feed_event_file [OF assms(2) [unfolded dns_poll_events_def] this] show ?thesis .
qed

lemma backed_Lookup:
  assumes "backed E (entries s)" "dns_Lookup now s client answered = h" "h \<noteq> ''''"
  shows "\<exists>e\<in>E. dn_ClientIP e = client \<and> dn_AnswerIP e = answered \<and> dn_QName e = h \<and> now \<le> dn_EventTime e + hour"
proof -
  obtain b where b: "entries s \<lparr>k_clientIP = client, k_answerIP = answered\<rparr> = Some b"
    "db_hostname b = h" "now \<le> db_deadline b"
    using assms(2,3) by (auto simp: dns_Lookup_def split: option.splits if_splits)
  then obtain e where "e \<in> E" "dns_key e = \<lparr>k_clientIP = client, k_answerIP = answered\<rparr>"
    "dn_QName e = h" "db_deadline b \<le> dn_EventTime e + hour"
    using assms(1) by (fastforce simp: backed_def)
  then show ?thesis using b(3) by (fastforce simp: dns_key_def)
qed

section \<open>What the poller answers\<close>

text \<open>C8. A host name on a flow was read: at any point of the DNS poller's life, after any number of
  ticks over resolver logs that grow, are emptied or are replaced by shorter ones, with any listing, \<open>Stat\<close> or read
  failing, lines half written and bindings evicted or swept, a host name \<open>Lookup\<close> gives for a client
  and an address is backed by the log of a single file: the parser of that file, run from its start
  over the complete lines read of one of its generations and over no other file's, yields an event that
  answers that client with that address for that name, at most an hour before the question.\<close>

theorem dns_poller_answers:
  fixes c :: 'c and t :: "(dns_world, 'p DNSStore \<times> 'c) task"
  assumes s0: "s0 = NewDNSStore dir loc conn"
    and run: "(task_step (dns_tick lp rng send))\<^sup>*\<^sup>* (StartPoller (dns_tick lp rng send) w (s0, c)) t"
    and ok: "dns_logs_ok dir (tk_runs t)"
    and ans: "dns_Lookup now (fst (tk_store t)) client answered = h" "h \<noteq> ''''"
  shows "\<exists>p. \<exists>ls\<in>set (generations (dns_tail dir (tk_runs t)) p). \<exists>e\<in>set (parse_lines lp ls (lp_init lp)).
    dn_ClientIP e = client \<and> dn_AnswerIP e = answered \<and> dn_QName e = h \<and> now \<le> dn_EventTime e + hour"
proof -
  obtain e where e: "e \<in> set (dns_poll_events lp dir (tk_runs t))"
    "dn_ClientIP e = client \<and> dn_AnswerIP e = answered \<and> dn_QName e = h \<and> now \<le> dn_EventTime e + hour"
    using backed_Lookup [OF dns_poll_state [OF s0 run] ans] by blast
  then show ?thesis using dns_poll_files [OF ok e(1)] by (fastforce simp: file_dns_events_def)
qed


text \<open>One packet of a text capture read in two scans, its second line half written at first.\<close>

definition resolver_log :: string where
  "resolver_log =
     ''15:39:41.068677 IP (tos 0x0, ttl 128, proto UDP (17), length 63)'' @ [newline]
     @ ''    10.0.0.3.53 > 10.0.0.66.51578: 31291 1/0/0 I.x. A 9.8.7.6 (35)'' @ [newline]"

definition resolver_parser :: "tcpdumpDNSParser dns_parser" where
  "resolver_parser = tcpdump_parser UTC (1783900800 * second) ''10.0.0.3''"

definition resolver_file :: "string \<Rightarrow> file_entry" where
  "resolver_file c = \<lparr>fe_path = ''/q/a'', fe_isDir = False, fe_size = Some (length c), fe_content = Some c\<rparr>"

abbreviation resolver_scan1 :: "file_entry list option" where
  "resolver_scan1 \<equiv> Some [resolver_file (take 90 resolver_log)]"

abbreviation resolver_scan2 :: "file_entry list option" where
  "resolver_scan2 \<equiv> Some [resolver_file resolver_log]"

definition resolver_worlds :: "dns_world list" where
  "resolver_worlds = [(resolver_scan1, 0), (resolver_scan2, 0)]"

abbreviation resolver_tick :: "dns_world \<Rightarrow> tcpdumpDNSParser DNSStore \<times> unit \<Rightarrow> tcpdumpDNSParser DNSStore \<times> unit" where
  "resolver_tick \<equiv> dns_tick resolver_parser (\<lambda>_. []) (\<lambda>_ c. (True, c))"

definition resolver_store :: "tcpdumpDNSParser DNSStore" where
  "resolver_store = NewDNSStore ''/q'' None False"

definition resolver_event :: DnsEvent where
  "resolver_event = \<lparr>dn_EventTime = 1783957181068677000, dn_ClientIP = ''10.0.0.66'', dn_ClientPort = 51578,
     dn_QName = ''i.x'', dn_QType = ''A'', dn_AnswerIP = ''9.8.7.6'', dn_TTL = 0, dn_TTLUnknown = True\<rparr>"

lemma resolver_facts:
  "dns_logs_ok ''/q'' resolver_worlds"
  "concat (map (good_events \<circ> snd) (feed_events resolver_parser (snd (scan_log ''/q'' resolver_scan1 Map.empty)) Map.empty)) = []"
  "concat (map (good_events \<circ> snd) (feed_events resolver_parser
      (snd (scan_log ''/q'' resolver_scan2 (fst (scan_log ''/q'' resolver_scan1 Map.empty))))
      (feed_parsers resolver_parser (snd (scan_log ''/q'' resolver_scan1 Map.empty)) Map.empty))) = [resolver_event]"
  by code_simp+

lemma applyDNS_first:
  "entries s = Map.empty \<Longrightarrow> dn_AnswerIP e \<noteq> '''' \<Longrightarrow> dn_QName e \<noteq> '''' \<Longrightarrow>
   entries (applyDNS [] now e s) = [dns_key e \<mapsto> \<lparr>db_hostname = dn_QName e, db_eventTime = dn_EventTime e,
      db_deadline = dn_EventTime e + dns_ttl e\<rparr>]"
  by (simp add: applyDNS_entries selectEvictions_def dns_delete_def Let_def)

lemma resolver_lookup:
  "dns_Lookup 1783957200000000000 (fst (fold resolver_tick resolver_worlds (resolver_store, ())))
     ''10.0.0.66'' ''9.8.7.6'' = ''i.x''"
proof -
  define u1 where "u1 = fst (resolver_tick (resolver_scan1, 0) (resolver_store, ()))"
  have "resolver_tick (resolver_scan1, 0) (resolver_store, ()) = (u1, ())" by (simp add: u1_def prod_eq_iff)
  then have w: "fold resolver_tick resolver_worlds (resolver_store, ()) = resolver_tick (resolver_scan2, 0) (u1, ())"
    by (simp add: resolver_worlds_def)
  have s: "dnsDir resolver_store = ''/q''" "dn_offsets resolver_store = Map.empty" "parsers resolver_store = Map.empty"
    "entries resolver_store = Map.empty"
    by (simp_all add: resolver_store_def NewDNSStore_def)
  note e1 = dns_tick_effect [of resolver_parser "\<lambda>_. []" "\<lambda>_ c. (True, c)" resolver_scan1 0 resolver_store "()",
      folded u1_def, unfolded s resolver_facts(2)]
  note e2 = dns_tick_effect(4) [of resolver_parser "\<lambda>_. []" "\<lambda>_ c. (True, c)" resolver_scan2 0 u1 "()",
      unfolded e1(1,2,3) resolver_facts(3)]
  have "entries u1 = Map.empty" unfolding e1(4) by (simp add: dns_evictExpired_def evict_map_apply fun_eq_iff s)
  from applyDNS_first [OF this, of resolver_event 0] show ?thesis
    by (simp add: w dns_Lookup_def e2 scan_apply_def dns_evictExpired_def evict_map_apply dns_key_def
        resolver_event_def dns_ttl_def)
qed

theorem dns_poller_answers_witness:
  "\<exists>t p. (task_step resolver_tick)\<^sup>*\<^sup>* (StartPoller resolver_tick (hd resolver_worlds) (resolver_store, ())) t
     \<and> tk_runs t = resolver_worlds
     \<and> dns_Lookup 1783957200000000000 (fst (tk_store t)) ''10.0.0.66'' ''9.8.7.6'' = ''i.x''
     \<and> (\<exists>ls\<in>set (generations (dns_tail ''/q'' resolver_worlds) p). \<exists>e\<in>set (parse_lines resolver_parser ls (lp_init resolver_parser)).
          dn_ClientIP e = ''10.0.0.66'' \<and> dn_AnswerIP e = ''9.8.7.6'' \<and> dn_QName e = ''i.x'')"
proof -
  obtain w ws where w: "resolver_worlds = w # ws" by (simp add: resolver_worlds_def)
  obtain t where run: "(task_step resolver_tick)\<^sup>*\<^sup>* (StartPoller resolver_tick w (resolver_store, ())) t"
    and t: "tk_runs t = resolver_worlds" "tk_store t = fold resolver_tick resolver_worlds (resolver_store, ())"
    using poller_can_run [of resolver_tick w "(resolver_store, ())" ws] unfolding w by blast
  from dns_poller_answers [OF resolver_store_def run, of 1783957200000000000 "''10.0.0.66''" "''9.8.7.6''" "''i.x''"]
  show ?thesis
    using resolver_facts(1) resolver_lookup run t by (intro exI [of _ t]) (auto simp: w)
qed

end
