(* ===== verification/LiveRows.thy ===== *)
theory LiveRows
  imports Pipeline IdentityPoller DnsPoller
begin

text \<open>
  The worker pool beside the two pollers: the rows of the flows, and the lines of the log files that
  their attributions come from.
\<close>

section \<open>The machine\<close>

text \<open>
  A worker that emits a flow looks its addresses up in the stores as the pollers have left them, or
  in none: the subsystem is off, or its first scan has not ended. Everything else it does, and what the
  other stores say, is as in the pool. The look-ups of one flow are one step.
\<close>

record ('l, 'p, 'c, 'd) live =
  lv_pool :: "'l pool"
  lv_identity :: "(identity_world, IdentityStore \<times> 'c) task"
  lv_dns :: "(dns_world, 'p DNSStore \<times> 'd) task"

inductive live_step ::
  "'l lru \<Rightarrow> (string \<Rightarrow> FlowMessage option) \<Rightarrow> 'r ranger \<Rightarrow> bool \<Rightarrow> bool
    \<Rightarrow> (identity_world \<Rightarrow> IdentityStore \<times> 'c \<Rightarrow> IdentityStore \<times> 'c)
    \<Rightarrow> (dns_world \<Rightarrow> 'p DNSStore \<times> 'd \<Rightarrow> 'p DNSStore \<times> 'd)
    \<Rightarrow> ('l, 'p, 'c, 'd) live \<Rightarrow> ('l, 'p, 'c, 'd) live \<Rightarrow> bool"
  for lr unmarshal rg enabled writer itick dtick where
  work: "pool_step lr unmarshal rg TYPE('p) enabled writer (lv_pool s) p \<Longrightarrow> po_out p = po_out (lv_pool s) \<Longrightarrow>
    live_step lr unmarshal rg enabled writer itick dtick s (s\<lparr>lv_pool := p\<rparr>)"
| emit: "i < length (po_workers (lv_pool s)) \<Longrightarrow> po_workers (lv_pool s) ! i = Passed f \<Longrightarrow>
    ident = None \<or> ident = Some (fst (tk_store (lv_identity s))) \<Longrightarrow>
    dns = None \<or> dns = Some (fst (tk_store (lv_dns s))) \<Longrightarrow>
    live_step lr unmarshal rg enabled writer itick dtick s
      (s\<lparr>lv_pool := worker_emit writer f (enrich rg clk f geo tenant threat ident dns)
          ((lv_pool s)\<lparr>po_workers := (po_workers (lv_pool s))[i := Idle]\<rparr>)\<rparr>)"
| poll_identity: "task_step itick (lv_identity s) t \<Longrightarrow>
    live_step lr unmarshal rg enabled writer itick dtick s (s\<lparr>lv_identity := t\<rparr>)"
| poll_dns: "task_step dtick (lv_dns s) t' \<Longrightarrow>
    live_step lr unmarshal rg enabled writer itick dtick s (s\<lparr>lv_dns := t'\<rparr>)"

text \<open>Every step is a step of one component: the machine projects onto the pool and onto the pollers.\<close>

lemma live_pool:
  fixes s :: "('l, 'p, 'c, 'd) live"
  assumes "live_step lr unmarshal rg enabled writer itick dtick s t"
  shows "lv_pool t = lv_pool s \<or> pool_step lr unmarshal rg TYPE('p) enabled writer (lv_pool s) (lv_pool t)"
  using assms by (induction rule: live_step.induct) (auto intro: pool_step.emit)

lemma live_tasks:
  assumes "(live_step lr unmarshal rg enabled writer itick dtick)\<^sup>*\<^sup>* s t"
  shows "(task_step itick)\<^sup>*\<^sup>* (lv_identity s) (lv_identity t) \<and> (task_step dtick)\<^sup>*\<^sup>* (lv_dns s) (lv_dns t)"
  using assms
proof (induction rule: rtranclp_induct)
  case base
  show ?case by simp
next
  case (step t u)
  from step(2,3) show ?case
    by (induction rule: live_step.induct) (auto intro: rtranclp.rtrancl_into_rtrancl)
qed

text \<open>At the start the pool is idle and each poller has scanned once.\<close>

definition live_start where
  "live_start d n ti td = \<lparr>lv_pool = pool_start d n, lv_identity = ti, lv_dns = td\<rparr>"

section \<open>Rows and evidence\<close>

text \<open>The device of an address and its user, and the name of a destination, in the events that were read.\<close>

definition attributed :: "identity_event set \<Rightarrow> string \<Rightarrow> string \<Rightarrow> string \<Rightarrow> bool" where
  "attributed E ip m u \<longleftrightarrow>
     (m \<noteq> '''' \<longrightarrow> (\<exists>e. Dhcp e \<in> E \<and> dh_IP e = ip \<and> dh_MACToken e = m \<and> dh_EventID e \<in> {10, 11}))
   \<and> (u \<noteq> '''' \<longrightarrow> m \<noteq> '''' \<and> (\<exists>e. Radius e \<in> E \<and> ra_MACToken e = m \<and> ra_UserToken e = u
         \<and> ra_AcctStatus e \<in> {''Start'', ''Interim-Update''}))"

definition resolved :: "DnsEvent set \<Rightarrow> string \<Rightarrow> string \<Rightarrow> string \<Rightarrow> bool" where
  "resolved E client answered h \<longleftrightarrow>
     (h \<noteq> '''' \<longrightarrow> (\<exists>e\<in>E. dn_ClientIP e = client \<and> dn_AnswerIP e = answered \<and> dn_QName e = h))"

definition row_backed :: "identity_event set \<Rightarrow> DnsEvent set \<Rightarrow> FlowRow \<Rightarrow> bool" where
  "row_backed EI ED r \<longleftrightarrow>
     attributed EI (fr_SrcIP r) (fr_SrcMACToken r) (fr_SrcUserToken r)
   \<and> attributed EI (fr_DstIP r) (fr_DstMACToken r) (fr_DstUserToken r)
   \<and> resolved ED (fr_SrcIP r) (fr_DstIP r) (fr_DstHostname r)
   \<and> resolved ED (fr_DstIP r) (fr_SrcIP r) (fr_SrcHostname r)"

lemma row_backed_mono: "row_backed EI ED r \<Longrightarrow> EI \<subseteq> EI' \<Longrightarrow> ED \<subseteq> ED' \<Longrightarrow> row_backed EI' ED' r"
  unfolding row_backed_def attributed_def resolved_def by blast

lemma attributed_Lookup:
  assumes "Lookup T s ip = Lookup T (identity_run ops (NewIdentityStore tok n d nl dl L S conn)) ip"
  shows "attributed (set (events_of ops)) ip (fst (Lookup T s ip)) (snd (Lookup T s ip))"
proof -
  have wf: "identity_wf L S (identity_run ops (NewIdentityStore tok n d nl dl L S conn))"
    by (intro identity_wf_run identity_wf_new)
  have "fst (Lookup T s ip) = '''' \<Longrightarrow> snd (Lookup T s ip) = ''''"
    unfolding assms Lookup_slots [OF wf] using ip_holder_nonempty [OF wf]
    by (auto split: option.splits prod.splits)
  then show ?thesis
    using identity_lookup_provenance [OF refl, of T ops tok n d nl dl L S conn ip] unfolding assms attributed_def
    by (metis prod.collapse)
qed

text \<open>A row is backed by the events of the two stores it was enriched from.\<close>

lemma row_of_enrich:
  fixes f :: FlowMessage and clk :: "nat \<Rightarrow> time" and rg :: "'r ranger" and dns :: "'p DNSStore option"
    and geo tenant threat ident
  defines "r \<equiv> toFlowRow (fst (enrich rg clk f geo tenant threat ident dns))"
  shows "fr_SrcIP r = fm_SrcAddr f" "fr_DstIP r = fm_DstAddr f"
    "(fr_SrcMACToken r, fr_SrcUserToken r) = the_tokens (clk 0) ident (fm_SrcAddr f)"
    "(fr_DstMACToken r, fr_DstUserToken r) = the_tokens (clk 1) ident (fm_DstAddr f)"
    "fr_DstHostname r = the_host (clk 2) dns (fm_SrcAddr f) (fm_DstAddr f)"
    "fr_SrcHostname r = the_host (clk 3) dns (fm_DstAddr f) (fm_SrcAddr f)"
  using raw_fields [OF raw_enrich [of rg clk f geo tenant threat ident dns]]
  by (simp_all add: r_def toFlowRow_def Let_def enrich_source)

lemma row_backed_enrich:
  fixes f :: FlowMessage and clk :: "nat \<Rightarrow> time" and rg :: "'r ranger" and dns :: "'p DNSStore option"
  assumes "\<And>s T ip. ident = Some s \<Longrightarrow> attributed EI ip (fst (Lookup T s ip)) (snd (Lookup T s ip))"
    and "\<And>s. dns = Some s \<Longrightarrow> backed ED (entries s)"
  shows "row_backed EI ED (toFlowRow (fst (enrich rg clk f geo tenant threat ident dns)))"
proof -
  have t: "attributed EI ip (fst (the_tokens T ident ip)) (snd (the_tokens T ident ip))" for T ip
    using assms(1) by (cases ident) (simp_all add: the_tokens_def attributed_def)
  have h: "resolved ED c a (the_host T dns c a)" for T c a
  proof (cases dns)
    case None
    then show ?thesis by (simp add: the_host_def resolved_def)
  next
    case (Some s)
    then show ?thesis
      using backed_Lookup [OF assms(2) [OF Some] refl, of T c a] unfolding the_host_def resolved_def by auto
  qed
  show ?thesis
    unfolding row_backed_def row_of_enrich(1,2,5,6)
    using t [of "fm_SrcAddr f" "clk 0"] t [of "fm_DstAddr f" "clk 1"] h
    unfolding row_of_enrich(3,4) [where rg = rg and clk = clk and f = f and geo = geo and tenant = tenant
        and threat = threat and ident = ident and dns = dns, symmetric] by simp
qed

section \<open>Evidence accumulates\<close>

lemma poll_ops_append: "poll_ops xmlFields (ws @ ws') s = poll_ops xmlFields ws s @ poll_ops xmlFields ws' (fold scan_next ws s)"
  by (induction ws arbitrary: s) simp_all

lemma dns_poll_log_append:
  "dns_poll_log dir (ws @ ws') offs = dns_poll_log dir ws offs @ dns_poll_log dir ws' (dns_poll_offsets dir ws offs)"
  by (induction ws arbitrary: offs) (simp_all add: dns_poll_offsets_def)

lemma task_runs_grow: "task_step body t t' \<Longrightarrow> \<exists>ws. tk_runs t' = tk_runs t @ ws"
  by (induction rule: task_step.induct) simp_all

lemma identity_evidence_grows:
  "task_step body t t' \<Longrightarrow>
   set (events_of (poll_ops xmlFields (tk_runs t) s)) \<subseteq> set (events_of (poll_ops xmlFields (tk_runs t') s))"
  using task_runs_grow [of body t t'] by (auto simp: poll_ops_append)

lemma dns_evidence_grows:
  "task_step body t t' \<Longrightarrow> set (dns_poll_events lp dir (tk_runs t)) \<subseteq> set (dns_poll_events lp dir (tk_runs t'))"
  using task_runs_grow [of body t t']
  by (auto simp: dns_poll_events_def dns_poll_log_append feed_events_append)

lemma pool_rows_kept: "pool_step lr unmarshal rg ty enabled writer p p' \<Longrightarrow> po_out p' = po_out p \<Longrightarrow> po_rows p' = po_rows p"
  by (induction rule: pool_step.induct) (simp_all add: worker_emit_def)

text \<open>The invariant: the rows are backed by what the two pollers have read.\<close>

definition evidence_ok :: "xml_decoder \<Rightarrow> IdentityStore \<Rightarrow> 'p dns_parser \<Rightarrow> string \<Rightarrow> ('l, 'p, 'c, 'd) live \<Rightarrow> bool" where
  "evidence_ok xmlFields sI lp dir s \<longleftrightarrow>
     (\<forall>r\<in>set (po_rows (lv_pool s)).
        row_backed (set (events_of (poll_ops xmlFields (tk_runs (lv_identity s)) sI)))
          (set (dns_poll_events lp dir (tk_runs (lv_dns s)))) r)"

lemma evidence_step:
  fixes s :: "('l, 'p, 'c, 'd) live"
  assumes "live_step lr unmarshal rg enabled writer itick dtick s t" "evidence_ok xmlFields sI lp dir s"
    and look: "\<And>T ip. attributed (set (events_of (poll_ops xmlFields (tk_runs (lv_identity s)) sI))) ip
        (fst (Lookup T (fst (tk_store (lv_identity s))) ip)) (snd (Lookup T (fst (tk_store (lv_identity s))) ip))"
    and named: "backed (set (dns_poll_events lp dir (tk_runs (lv_dns s)))) (entries (fst (tk_store (lv_dns s))))"
  shows "evidence_ok xmlFields sI lp dir t"
  using assms(1)
proof cases
  case (work p)
  then show ?thesis using assms(2) pool_rows_kept by (fastforce simp: evidence_ok_def)
next
  case (emit i f ident dns clk geo tenant threat)
  have "row_backed (set (events_of (poll_ops xmlFields (tk_runs (lv_identity s)) sI)))
      (set (dns_poll_events lp dir (tk_runs (lv_dns s)))) (toFlowRow (fst (enrich rg clk f geo tenant threat ident dns)))"
    using emit(4,5) look named by (intro row_backed_enrich) auto
  then show ?thesis using assms(2) emit(1) by (simp add: evidence_ok_def worker_emit_def)
next
  case (poll_identity ti)
  note identity_evidence_grows [OF poll_identity(2), of xmlFields sI]
  then show ?thesis
    using assms(2) poll_identity(1) row_backed_mono unfolding evidence_ok_def by simp (meson order_refl)
next
  case (poll_dns td)
  note dns_evidence_grows [OF poll_dns(2), of lp dir]
  then show ?thesis
    using assms(2) poll_dns(1) row_backed_mono unfolding evidence_ok_def by simp (meson order_refl)
qed

lemma evidence_reach:
  fixes sI :: IdentityStore and sD :: "'p DNSStore" and c :: 'c and c' :: 'd
  assumes it: "itick = identity_tick xmlFields sendD sendR" and dt: "dtick = dns_tick lp rng send"
    and sI: "sI = NewIdentityStore tok npsD dhcpD npsL dhcpL L S conn" and sD: "sD = NewDNSStore dir loc conn'"
    and run: "(live_step lr unmarshal rg enabled writer itick dtick)\<^sup>*\<^sup>*
      (live_start d n (StartPoller itick wI (sI, c)) (StartPoller dtick wD (sD, c'))) s"
  shows "evidence_ok xmlFields sI lp dir s"
  using run
proof (induction rule: rtranclp_induct)
  case base
  show ?case by (simp add: evidence_ok_def live_start_def pool_start_def)
next
  case (step s t)
  have ti: "(task_step itick)\<^sup>*\<^sup>* (StartPoller itick wI (sI, c)) (lv_identity s)"
    and td: "(task_step dtick)\<^sup>*\<^sup>* (StartPoller dtick wD (sD, c')) (lv_dns s)"
    using live_tasks [OF step.hyps(1)] by (simp_all add: live_start_def)
  show ?case
    using step.hyps(2) step.IH
  proof (rule evidence_step)
    show "attributed (set (events_of (poll_ops xmlFields (tk_runs (lv_identity s)) sI))) ip
        (fst (Lookup T (fst (tk_store (lv_identity s))) ip)) (snd (Lookup T (fst (tk_store (lv_identity s))) ip))" for T ip
      by (rule attributed_Lookup) (use identity_poll_state [OF ti [unfolded it]] sI in simp)
    show "backed (set (dns_poll_events lp dir (tk_runs (lv_dns s)))) (entries (fst (tk_store (lv_dns s))))"
      by (rule dns_poll_state [OF sD td [unfolded dt]])
  qed
qed

section \<open>Property\<close>

definition dns_log :: "'p dns_parser \<Rightarrow> string \<Rightarrow> dns_world list \<Rightarrow> DnsEvent set" where
  "dns_log lp dir ws = (\<Union>p. set (file_dns_events lp (dns_tail dir ws) p))"


text \<open>One flow of the client of the two demonstration logs, emitted after both were read.\<close>

lemma live_polls:
  "(task_step itick)\<^sup>*\<^sup>* (lv_identity s) t \<Longrightarrow>
     (live_step lr unmarshal rg enabled writer itick dtick)\<^sup>*\<^sup>* s (s\<lparr>lv_identity := t\<rparr>)"
  "(task_step dtick)\<^sup>*\<^sup>* (lv_dns s) t' \<Longrightarrow>
     (live_step lr unmarshal rg enabled writer itick dtick)\<^sup>*\<^sup>* s (s\<lparr>lv_dns := t'\<rparr>)"
proof -
  assume "(task_step itick)\<^sup>*\<^sup>* (lv_identity s) t"
  then show "(live_step lr unmarshal rg enabled writer itick dtick)\<^sup>*\<^sup>* s (s\<lparr>lv_identity := t\<rparr>)"
  proof (induction rule: rtranclp_induct)
    case base
    show ?case by simp
  next
    case (step t u)
    have "live_step lr unmarshal rg enabled writer itick dtick (s\<lparr>lv_identity := t\<rparr>) (s\<lparr>lv_identity := u\<rparr>)"
      using live_step.poll_identity [of itick "s\<lparr>lv_identity := t\<rparr>" u] step.hyps(2) by simp
    then show ?case by (rule rtranclp.rtrancl_into_rtrancl [OF step.IH])
  qed
next
  assume "(task_step dtick)\<^sup>*\<^sup>* (lv_dns s) t'"
  then show "(live_step lr unmarshal rg enabled writer itick dtick)\<^sup>*\<^sup>* s (s\<lparr>lv_dns := t'\<rparr>)"
  proof (induction rule: rtranclp_induct)
    case base
    show ?case by simp
  next
    case (step t u)
    have "live_step lr unmarshal rg enabled writer itick dtick (s\<lparr>lv_dns := t\<rparr>) (s\<lparr>lv_dns := u\<rparr>)"
      using live_step.poll_dns [of dtick "s\<lparr>lv_dns := t\<rparr>" u] step.hyps(2) by simp
    then show ?case by (rule rtranclp.rtrancl_into_rtrancl [OF step.IH])
  qed
qed

definition live_flow :: FlowMessage where
  "live_flow = noFlow\<lparr>fm_SrcAddr := ''10.0.0.66'', fm_DstAddr := ''9.8.7.6''\<rparr>"

abbreviation demo_live_step where
  "demo_live_step \<equiv> live_step list_lru (\<lambda>_. Some live_flow) no_ranger False True demo_tick resolver_tick"

abbreviation demo_live_start where
  "demo_live_start \<equiv> live_start (NewDedupStore list_lru 160 (60 * second)) 1
     (StartPoller demo_tick (hd demo_worlds) (demo_store, ()))
     (StartPoller resolver_tick (hd resolver_worlds) (resolver_store, ()))"

text \<open>A flow that arrives when the pool is idle and is emitted at once.\<close>

lemma live_flow_through:
  fixes s :: "('l, 'p, 'c, 'd) live"
  assumes p: "lv_pool s = pool_start d 1" and msg: "unmarshal msg = Some f"
  shows "\<exists>t. (live_step lr unmarshal rg False True itick dtick)\<^sup>*\<^sup>* s t
     \<and> lv_identity t = lv_identity s \<and> lv_dns t = lv_dns s
     \<and> po_rows (lv_pool t) = [toFlowRow (fst (enrich rg (\<lambda>_. now) f geo tenant threat
           (Some (fst (tk_store (lv_identity s)))) (Some (fst (tk_store (lv_dns s))))))]"
proof -
  let ?step = "live_step lr unmarshal rg False True itick dtick" and ?p = "lv_pool s"
  let ?e = "enrich rg (\<lambda>_. now) f geo tenant threat (Some (fst (tk_store (lv_identity s)))) (Some (fst (tk_store (lv_dns s))))"
  have p0: "po_workers ?p = [Idle]" "po_chan ?p = []" "po_rows ?p = []" by (simp_all add: p pool_start_def)
  define s1 where "s1 = s\<lparr>lv_pool := ?p\<lparr>po_chan := [msg]\<rparr>\<rparr>"
  define s2 where "s2 = s\<lparr>lv_pool := ?p\<lparr>po_chan := [], po_count := count [FlowsReceived] (po_count ?p),
    po_workers := [Passed f], po_decoded := po_decoded ?p @ [f]\<rparr>\<rparr>"
  define s3 where "s3 = s2\<lparr>lv_pool := worker_emit True f ?e ((lv_pool s2)\<lparr>po_workers := [Idle]\<rparr>)\<rparr>"
  have "?step s s1"
    unfolding s1_def using pool_step.read [of lr unmarshal rg "TYPE('p)" False True ?p msg] p0
    by (intro live_step.work) simp_all
  moreover have "?step s1 s2"
    using live_step.work [of lr unmarshal rg False True s1 "lv_pool s2" itick dtick]
      pool_step.decode [of "lv_pool s1" msg "[]" 0 unmarshal f lr rg "TYPE('p)" False True] p0 msg
    by (simp add: s1_def s2_def)
  moreover have "?step s2 s3"
    using live_step.emit [of 0 s2 f "Some (fst (tk_store (lv_identity s)))" "Some (fst (tk_store (lv_dns s)))"]
    by (simp add: s2_def s3_def)
  ultimately have "?step\<^sup>*\<^sup>* s s3" by (meson converse_rtranclp_into_rtranclp rtranclp.rtrancl_refl)
  then show ?thesis by (intro exI [of _ s3]) (simp add: s3_def s2_def worker_emit_def p0)
qed


end
