(* ===== verification/EventShutdown.thy ===== *)
theory EventShutdown
  imports IdentityScan DnsScan
begin

text \<open>
  The end of the process for the event tables: \<open>main.go\<close> cancels the context, waits for the readers and
  the workers, and calls \<open>FinalFlush(5)\<close> of the identity and of the DNS store; it does not wait for
  their pollers, so a scan in flight may run beside the flushes. One machine serves both stores: the
  operations of the writer, atomic under its mutex, are a parameter.
\<close>

section \<open>Main and one poller\<close>

text \<open>
  Main: before the final flush, about to make attempt \<open>i\<close>, about to count what it left, past the
  flush with the number it returned, gone.
\<close>

datatype end_phase = Serving | Flushing int | Counting int | Flushed nat | Gone nat

text \<open>
  \<open>ee_scan\<close> is what the scan in flight has still to do to the writer. The last two are ghosts: the
  operations done, in order, and whether the poller had returned when main began.
\<close>

record ('op, 'm) event_end =
  ee_main :: end_phase
  ee_cancelled :: bool
  ee_polling :: bool
  ee_scan :: "'op list"
  ee_m :: 'm
  ee_ops :: "'op list"
  ee_alone :: bool

definition end_start :: "'m \<Rightarrow> ('op, 'm) event_end" where
  "end_start m = \<lparr>ee_main = Serving, ee_cancelled = False, ee_polling = True, ee_scan = [], ee_m = m,
     ee_ops = [], ee_alone = False\<rparr>"

definition running :: "('op, 'm) event_end \<Rightarrow> bool" where
  "running s \<longleftrightarrow> (\<forall>n. ee_main s \<noteq> Gone n)"

definition do_op :: "('op \<Rightarrow> 'm \<Rightarrow> 'm) \<Rightarrow> 'op \<Rightarrow> ('op, 'm) event_end \<Rightarrow> ('op, 'm) event_end" where
  "do_op step op s = s\<lparr>ee_m := step op (ee_m s), ee_ops := ee_ops s @ [op]\<rparr>"

text \<open>
  The poller: a tick starts a scan, which appends any events and then flushes, and may be ended early
  by a panic that is recovered; it returns only between scans, and only when the context is cancelled.
\<close>

inductive end_poll :: "('op \<Rightarrow> 'm \<Rightarrow> 'm) \<Rightarrow> 'op set \<Rightarrow> 'op \<Rightarrow> ('op, 'm) event_end \<Rightarrow> ('op, 'm) event_end \<Rightarrow> bool"
  for step adds fl where
  scan: "running s \<Longrightarrow> ee_polling s \<Longrightarrow> ee_scan s = [] \<Longrightarrow> set evs \<subseteq> adds \<Longrightarrow>
    end_poll step adds fl s (s\<lparr>ee_scan := evs @ [fl]\<rparr>)"
| work: "running s \<Longrightarrow> ee_scan s = op # ops \<Longrightarrow> end_poll step adds fl s (do_op step op (s\<lparr>ee_scan := ops\<rparr>))"
| recovered: "running s \<Longrightarrow> end_poll step adds fl s (s\<lparr>ee_scan := []\<rparr>)"
| leave: "running s \<Longrightarrow> ee_cancelled s \<Longrightarrow> ee_scan s = [] \<Longrightarrow> end_poll step adds fl s (s\<lparr>ee_polling := False\<rparr>)"

text \<open>Main: the signal, the wait for readers and workers, the loop of \<open>FinalFlush\<close>, the exit.\<close>

inductive end_main :: "('op \<Rightarrow> 'm \<Rightarrow> 'm) \<Rightarrow> 'op \<Rightarrow> ('m \<Rightarrow> nat) \<Rightarrow> int \<Rightarrow> ('op, 'm) event_end \<Rightarrow> ('op, 'm) event_end \<Rightarrow> bool"
  for step fl remaining attempts where
  signal: "end_main step fl remaining attempts s (s\<lparr>ee_cancelled := True\<rparr>)"
| begin_flush: "ee_main s = Serving \<Longrightarrow> ee_cancelled s \<Longrightarrow>
    end_main step fl remaining attempts s (s\<lparr>ee_main := Flushing 0, ee_alone := \<not> ee_polling s\<rparr>)"
| attempt: "ee_main s = Flushing i \<Longrightarrow>
    end_main step fl remaining attempts s (do_op step fl (s\<lparr>ee_main := Counting i\<rparr>))"
| again: "ee_main s = Counting i \<Longrightarrow> remaining (ee_m s) \<noteq> 0 \<Longrightarrow> i < attempts - 1 \<Longrightarrow>
    end_main step fl remaining attempts s (s\<lparr>ee_main := Flushing (i + 1)\<rparr>)"
| report: "ee_main s = Counting i \<Longrightarrow> remaining (ee_m s) = 0 \<or> attempts - 1 \<le> i \<Longrightarrow>
    end_main step fl remaining attempts s (s\<lparr>ee_main := Flushed (remaining (ee_m s))\<rparr>)"
| exit: "ee_main s = Flushed n \<Longrightarrow> end_main step fl remaining attempts s (s\<lparr>ee_main := Gone n\<rparr>)"

definition end_step where
  "end_step step adds fl remaining attempts s s' \<longleftrightarrow>
     end_poll step adds fl s s' \<or> end_main step fl remaining attempts s s'"

section \<open>What every run keeps\<close>

definition flushed_with :: "end_phase \<Rightarrow> nat option" where
  "flushed_with ph = (case ph of Flushed n \<Rightarrow> Some n | Gone n \<Rightarrow> Some n | _ \<Rightarrow> None)"

text \<open>
  The writer is the run of the operations done; the number returned is what was buffered after some
  of them; and once main has begun alone only main does any.
\<close>

definition reported :: "('op \<Rightarrow> 'm \<Rightarrow> 'm) \<Rightarrow> ('m \<Rightarrow> nat) \<Rightarrow> 'm \<Rightarrow> 'op list \<Rightarrow> bool \<Rightarrow> nat \<Rightarrow> bool" where
  "reported step remaining m0 ops alone n \<longleftrightarrow>
     (\<exists>done late. ops = done @ late \<and> n = remaining (fold step done m0) \<and> (alone \<longrightarrow> late = []))"

lemma reported_now: "reported step remaining m0 ops alone (remaining (fold step ops m0))"
  unfolding reported_def by (intro exI [of _ ops] exI [of _ "[]"]) simp

lemma reported_snoc:
  assumes "reported step remaining m0 ops False n"
  shows "reported step remaining m0 (ops @ [op]) False n"
proof -
  obtain xs ys where "ops = xs @ ys" "n = remaining (fold step xs m0)" using assms unfolding reported_def by blast
  then show ?thesis unfolding reported_def by (intro exI [of _ xs] exI [of _ "ys @ [op]"]) simp
qed

definition end_inv :: "('op \<Rightarrow> 'm \<Rightarrow> 'm) \<Rightarrow> ('m \<Rightarrow> nat) \<Rightarrow> 'm \<Rightarrow> ('op, 'm) event_end \<Rightarrow> bool" where
  "end_inv step remaining m0 s \<longleftrightarrow>
     ee_m s = fold step (ee_ops s) m0
     \<and> (ee_alone s \<longrightarrow> \<not> ee_polling s \<and> ee_main s \<noteq> Serving)
     \<and> (\<not> ee_polling s \<longrightarrow> ee_scan s = [])
     \<and> (\<forall>n. flushed_with (ee_main s) = Some n \<longrightarrow> reported step remaining m0 (ee_ops s) (ee_alone s) n)"

lemma end_inv_poll:
  assumes "end_poll step adds fl s s'" "end_inv step remaining m0 s"
  shows "end_inv step remaining m0 s'"
  using assms
proof (induction rule: end_poll.induct)
  case (work s op ops)
  then have p: "ee_polling s" "\<not> ee_alone s" by (auto simp: end_inv_def)
  then show ?case using work(3) by (simp add: end_inv_def do_op_def reported_snoc)
qed (auto simp: end_inv_def)

lemma end_inv_main:
  assumes "end_main step fl remaining attempts s s'" "end_inv step remaining m0 s"
  shows "end_inv step remaining m0 s'"
  using assms
  by (induction rule: end_main.induct) (simp_all add: end_inv_def do_op_def flushed_with_def reported_now)

lemma end_inv_run:
  assumes "(end_step step adds fl remaining attempts)\<^sup>*\<^sup>* (end_start m0) s"
  shows "end_inv step remaining m0 s"
  using assms
proof (induction rule: rtranclp_induct)
  case base
  show ?case by (simp add: end_inv_def end_start_def flushed_with_def)
next
  case (step t u)
  from step(2) have "end_poll step adds fl t u \<or> end_main step fl remaining attempts t u"
    unfolding end_step_def .
  then show ?case using end_inv_poll [OF _ step(3)] end_inv_main [OF _ step(3)] by blast
qed

lemma gone_account:
  assumes "(end_step step adds fl remaining attempts)\<^sup>*\<^sup>* (end_start m0) s" "ee_main s = Gone n"
  obtains "done" late where "ee_m s = fold step (done @ late) m0" "ee_ops s = done @ late"
    "n = remaining (fold step done m0)" "ee_alone s \<Longrightarrow> late = []"
proof -
  have i: "ee_m s = fold step (ee_ops s) m0" "reported step remaining m0 (ee_ops s) (ee_alone s) n"
    using end_inv_run [OF assms(1)] assms(2) unfolding end_inv_def by (simp_all add: flushed_with_def)
  obtain xs ys where x: "ee_ops s = xs @ ys" "n = remaining (fold step xs m0)" "ee_alone s \<longrightarrow> ys = []"
    using i(2) unfolding reported_def by blast
  show thesis by (rule that [of xs ys]) (use i(1) x in simp_all)
qed

section \<open>The two stores\<close>

abbreviation "id_end sd sr \<equiv> end_step (ew_step sd sr) (range AddDHCP \<union> range AddRadius) Flush
  (\<lambda>m. ew_remaining (ew_writer m))"

abbreviation "dns_end send \<equiv> end_step (dw_step send) (range DwAdd) DwFlush (\<lambda>m. length (dw_dns (dwm_writer m)))"

definition dw_new :: "nat \<Rightarrow> 'c \<Rightarrow> 'c dw_state" where
  "dw_new cap c = \<lparr>dwm_writer = \<lparr>dw_dns = [], dw_maxBuffer = cap\<rparr>, dwm_net = (c, [])\<rparr>"


section \<open>Concrete runs\<close>

text \<open>A schedule, and the run it drives; it stops where an action is not possible.\<close>

datatype 'op action = AScan "'op list" | AWork | ASignal | ALeave | ABegin | AAttempt | AAgain | AReport | AExit

fun drive1 :: "('op \<Rightarrow> 'm \<Rightarrow> 'm) \<Rightarrow> 'op \<Rightarrow> ('m \<Rightarrow> nat) \<Rightarrow> int \<Rightarrow> 'op action \<Rightarrow> ('op, 'm) event_end \<Rightarrow> ('op, 'm) event_end" where
  "drive1 step fl remaining attempts (AScan evs) s = s\<lparr>ee_scan := evs @ [fl]\<rparr>"
| "drive1 step fl remaining attempts AWork s = do_op step (hd (ee_scan s)) (s\<lparr>ee_scan := tl (ee_scan s)\<rparr>)"
| "drive1 step fl remaining attempts ASignal s = s\<lparr>ee_cancelled := True\<rparr>"
| "drive1 step fl remaining attempts ALeave s = s\<lparr>ee_polling := False\<rparr>"
| "drive1 step fl remaining attempts ABegin s = s\<lparr>ee_main := Flushing 0, ee_alone := \<not> ee_polling s\<rparr>"
| "drive1 step fl remaining attempts AAttempt s =
     do_op step fl (s\<lparr>ee_main := (case ee_main s of Flushing i \<Rightarrow> Counting i | p \<Rightarrow> p)\<rparr>)"
| "drive1 step fl remaining attempts AAgain s =
     s\<lparr>ee_main := (case ee_main s of Counting i \<Rightarrow> Flushing (i + 1) | p \<Rightarrow> p)\<rparr>"
| "drive1 step fl remaining attempts AReport s = s\<lparr>ee_main := Flushed (remaining (ee_m s))\<rparr>"
| "drive1 step fl remaining attempts AExit s =
     s\<lparr>ee_main := (case ee_main s of Flushed n \<Rightarrow> Gone n | p \<Rightarrow> p)\<rparr>"

fun possible :: "'op set \<Rightarrow> ('m \<Rightarrow> nat) \<Rightarrow> int \<Rightarrow> 'op action \<Rightarrow> ('op, 'm) event_end \<Rightarrow> bool" where
  "possible adds remaining attempts (AScan evs) s = (running s \<and> ee_polling s \<and> ee_scan s = [] \<and> set evs \<subseteq> adds)"
| "possible adds remaining attempts AWork s = (running s \<and> ee_scan s \<noteq> [])"
| "possible adds remaining attempts ASignal s = True"
| "possible adds remaining attempts ALeave s = (running s \<and> ee_cancelled s \<and> ee_scan s = [])"
| "possible adds remaining attempts ABegin s = (ee_main s = Serving \<and> ee_cancelled s)"
| "possible adds remaining attempts AAttempt s = (\<exists>i. ee_main s = Flushing i)"
| "possible adds remaining attempts AAgain s = (\<exists>i. ee_main s = Counting i \<and> remaining (ee_m s) \<noteq> 0 \<and> i < attempts - 1)"
| "possible adds remaining attempts AReport s = (\<exists>i. ee_main s = Counting i \<and> (remaining (ee_m s) = 0 \<or> attempts - 1 \<le> i))"
| "possible adds remaining attempts AExit s = (\<exists>n. ee_main s = Flushed n)"

primrec drive where
  "drive step adds fl remaining attempts [] s = Some s"
| "drive step adds fl remaining attempts (a # as) s =
     (if possible adds remaining attempts a s
      then drive step adds fl remaining attempts as (drive1 step fl remaining attempts a s) else None)"

lemma drive1_step:
  assumes "possible adds remaining attempts a s"
  shows "end_step step adds fl remaining attempts s (drive1 step fl remaining attempts a s)"
proof (cases a)
  case AWork
  then show ?thesis using assms end_poll.work [of s "hd (ee_scan s)" "tl (ee_scan s)" step adds fl]
    by (simp add: end_step_def)
qed (use assms in \<open>auto simp: end_step_def intro: end_poll.intros end_main.intros\<close>)

lemma drive_run: "drive step adds fl remaining attempts as s = Some t \<Longrightarrow> (end_step step adds fl remaining attempts)\<^sup>*\<^sup>* s t"
  by (induction as arbitrary: s) (auto split: if_splits intro: converse_rtranclp_into_rtranclp drive1_step)

text \<open>A scan whose write fails, the signal, the poller's return, a second attempt that succeeds.\<close>

definition es_calm :: "'op \<Rightarrow> 'op action list" where
  "es_calm e = [AScan [e], AWork, AWork, ASignal, ALeave, ABegin, AAttempt, AAgain, AAttempt, AReport, AExit]"

text \<open>The same, but the poller is still appending when main has counted.\<close>

definition es_late :: "'op \<Rightarrow> 'op action list" where
  "es_late e = [ASignal, AScan [e], ABegin, AAttempt, AReport, AWork, AExit]"

definition es_drive_id where
  "es_drive_id as c = drive (ew_step ex_sender ex_sender) (range AddDHCP \<union> range AddRadius) Flush
     (\<lambda>m. ew_remaining (ew_writer m)) 5 as (end_start (ew_new 100 c))"

definition es_drive_dns where
  "es_drive_dns as c = drive (dw_step dw_ex_sender) (range DwAdd) DwFlush
     (\<lambda>m. length (dw_dns (dwm_writer m))) 5 as (end_start (dw_new 100 c))"

lemmas es_eval = es_calm_def es_late_def es_drive_id_def es_drive_dns_def drive.simps drive1.simps possible.simps
  end_start_def running_def do_op_def ew_new_def dw_new_def ew_remaining_def ew_flush_def dw_flush_def
  flush_buffer_def ackD_def ackR_def recording_def addDHCP_def dw_add_def ex_sender_def dw_ex_sender_def


text \<open>An event read by a scan that overlaps the flush is neither written nor reported.\<close>

lemma late_event_unreported:
  "\<exists>s. es_drive_id (es_late (AddDHCP (dhcp_ev 10 ''a'' ''m'' 1))) [] = Some s
     \<and> ee_main s = Gone 0 \<and> ew_ackedD (ee_m s) = [] \<and> length (ew_dhcp (ew_writer (ee_m s))) = 1"
  by (simp add: es_eval)

end
