(* ===== verification/TraceRender.thy ===== *)
theory TraceRender
  imports TraceWho GoFormat
begin

text \<open>
  \<open>cmd/trace/main.go\<close>, the output: \<open>render\<close>, \<open>scanRow\<close>, \<open>renderWho\<close> and \<open>tokenStatus\<close>, and \<open>main\<close> from the
  flags to the exit. The database and the JSON encoder are arguments. A row that cannot be scanned
  ends the output: what was written by then differs between the table, which is written at the end,
  and the JSON lines, which are written one by one.
\<close>

section \<open>The rows\<close>

record flowRow =
  fw_Timestamp :: time
  fw_SrcIP :: string
  fw_SrcPort :: uint32
  fw_DstIP :: string
  fw_DstPort :: uint32
  fw_Protocol :: string
  fw_Bytes :: uint64
  fw_DstASN :: uint32
  fw_DstOrg :: string
  fw_ExporterIP :: string
  fw_TenantName :: string

text \<open>
  \<open>chRows\<close>: each call of \<open>Next\<close> that gives a row comes with the outcome of its \<open>Scan\<close>; then the error
  the iteration ended with, if any. \<open>scanRow\<close> turns the time to UTC, which changes no instant.
\<close>

record chRows =
  cr_rows :: "(string + flowRow) list"
  cr_Err :: "string option"

text \<open>What a run leaves: standard output, standard error, and the error returned.\<close>

record outcome =
  oc_stdout :: string
  oc_stderr :: string
  oc_err :: "string option"

definition tabbed :: "string list \<Rightarrow> string" where
  "tabbed cells = concat (map (\<lambda>c. c @ [tabchar]) (butlast cells)) @ last cells @ [newline]"

section \<open>Flows mode\<close>

definition flow_header :: "string list" where
  "flow_header = [''TIMESTAMP(UTC)'', ''SRC_IP'', ''SPORT'', ''DST_IP'', ''DPORT'', ''PROTO'', ''BYTES'',
     ''DST_ASN'', ''DST_ORG'', ''EXPORTER'', ''TENANT'']"

definition flow_cells :: "flowRow \<Rightarrow> string list" where
  "flow_cells r =
     [formatDateTime (fw_Timestamp r), fw_SrcIP r, formatNat (unat (fw_SrcPort r)), fw_DstIP r,
      formatNat (unat (fw_DstPort r)), fw_Protocol r, formatNat (unat (fw_Bytes r)),
      formatNat (unat (fw_DstASN r)), fw_DstOrg r, fw_ExporterIP r, fw_TenantName r]"

fun render_json :: "(flowRow \<Rightarrow> string + string) \<Rightarrow> (string + flowRow) list \<Rightarrow> string option \<Rightarrow> string \<Rightarrow> outcome" where
  "render_json enc [] e out = \<lparr>oc_stdout = out, oc_stderr = '''', oc_err = e\<rparr>"
| "render_json enc (Inl err # rs) e out = \<lparr>oc_stdout = out, oc_stderr = '''', oc_err = Some err\<rparr>"
| "render_json enc (Inr r # rs) e out =
     (case enc r of
        Inl err \<Rightarrow> \<lparr>oc_stdout = out, oc_stderr = '''', oc_err = Some err\<rparr>
      | Inr line \<Rightarrow> render_json enc rs e (out @ line))"

text \<open>The text given to the tabwriter, with the number of rows, or the error of a scan.\<close>

fun table_rows :: "(string + flowRow) list \<Rightarrow> string \<Rightarrow> nat \<Rightarrow> string + string \<times> nat" where
  "table_rows [] text n = Inr (text, n)"
| "table_rows (Inl err # rs) text n = Inl err"
| "table_rows (Inr r # rs) text n = table_rows rs (text @ tabbed (flow_cells r)) (n + 1)"

definition render :: "(flowRow \<Rightarrow> string + string) \<Rightarrow> chRows \<Rightarrow> bool \<Rightarrow> outcome" where
  "render enc rows asJSON =
     (if asJSON then render_json enc (cr_rows rows) (cr_Err rows) ''''
      else case table_rows (cr_rows rows) (tabbed flow_header) 0 of
          Inl err \<Rightarrow> \<lparr>oc_stdout = '''', oc_stderr = '''', oc_err = Some err\<rparr>
        | Inr (text, n) \<Rightarrow>
            (case cr_Err rows of
               Some err \<Rightarrow> \<lparr>oc_stdout = '''', oc_stderr = '''', oc_err = Some err\<rparr>
             | None \<Rightarrow> \<lparr>oc_stdout = tabwriter text, oc_stderr = formatNat n @ '' flow(s)'' @ [newline], oc_err = None\<rparr>))"

section \<open>Who mode\<close>

definition who_header :: "string list" where
  "who_header = [''CLIENT_IP'', ''QNAME'', ''ANSWER_IP'', ''RESOLUTIONS'', ''FIRST_SEEN(UTC)'', ''LAST_SEEN(UTC)'',
     ''MAC_TOKEN'', ''USER_TOKEN'']"

definition who_cells :: "whoRow \<Rightarrow> string list" where
  "who_cells r =
     [wr_ClientIP r, wr_QName r, wr_AnswerIP r, formatNat (unat (wr_Resolutions r)),
      formatDateTime (wr_FirstSeen r), formatDateTime (wr_LastSeen r),
      tokenStatus (wr_MACToken r) (wr_MACAmbiguous r), tokenStatus (wr_UserToken r) (wr_UserAmbiguous r)]"

fun encode_all :: "('r \<Rightarrow> string + string) \<Rightarrow> 'r list \<Rightarrow> string \<Rightarrow> string \<times> string option" where
  "encode_all enc [] out = (out, None)"
| "encode_all enc (r # rs) out =
     (case enc r of Inl err \<Rightarrow> (out, Some err) | Inr line \<Rightarrow> encode_all enc rs (out @ line))"

definition renderWho :: "(whoRow \<Rightarrow> string + string) \<Rightarrow> whoRow list \<Rightarrow> bool \<Rightarrow> outcome" where
  "renderWho enc rows asJSON =
     (let summary = formatNat (length rows) @ '' resolution(s)'' @ [newline]
      in if asJSON then
           (case encode_all enc rows '''' of
              (out, Some err) \<Rightarrow> \<lparr>oc_stdout = out, oc_stderr = '''', oc_err = Some err\<rparr>
            | (out, None) \<Rightarrow> \<lparr>oc_stdout = out, oc_stderr = summary, oc_err = None\<rparr>)
         else \<lparr>oc_stdout = tabwriter (concat (map tabbed (who_header # map who_cells rows))),
                oc_stderr = summary, oc_err = None\<rparr>)"

section \<open>The run of the tool\<close>

text \<open>The database: what opening, pinging and the flow query answer, and the three who queries.\<close>

record trace_db =
  td_Open :: "string \<Rightarrow> string \<Rightarrow> string \<Rightarrow> string \<Rightarrow> string option"
  td_Ping :: "string option"
  td_Query :: "query \<Rightarrow> string + chRows"
  td_who :: clickhouse

text \<open>How \<open>main\<close> ends: by \<open>log.Fatalf\<close>, for the flags or for an error with its prefix, or with an outcome.\<close>

datatype trace_exit = BadFlags trace_error | Fatal string string | Finished outcome

definition fatal_or :: "outcome \<Rightarrow> trace_exit" where
  "fatal_or o' = (case oc_err o' of Some err \<Rightarrow> Fatal '''' err | None \<Rightarrow> Finished o')"

definition trace_main ::
  "(string \<Rightarrow> duration option) \<Rightarrow> environ \<Rightarrow> trace_db \<Rightarrow> (flowRow \<Rightarrow> string + string) \<Rightarrow> (whoRow \<Rightarrow> string + string)
     \<Rightarrow> trace_error + traceFilter \<Rightarrow> bool \<Rightarrow> trace_exit" where
  "trace_main parseDuration env db enc encWho flags asJSON =
     (case flags of
        Inl e \<Rightarrow> BadFlags e
      | Inr f \<Rightarrow>
          (case (if tf_who f then Inr ('''', []) else buildQuery f) of
             Inl e \<Rightarrow> BadFlags e
           | Inr q \<Rightarrow>
               (case td_Open db (getenv env ''CLICKHOUSE_ADDR'' ''localhost:9000'') (getenv env ''CLICKHOUSE_DB'' ''default'')
                        (getenv env ''CLICKHOUSE_USER'' ''default'') (env ''CLICKHOUSE_PASSWORD'') of
                  Some err \<Rightarrow> Fatal ''clickhouse open'' err
                | None \<Rightarrow>
                    (case td_Ping db of
                       Some err \<Rightarrow> Fatal ''clickhouse ping'' err
                     | None \<Rightarrow>
                         if tf_who f then
                           (case runWho parseDuration env (td_who db) f of
                              Inl err \<Rightarrow> Fatal '''' err
                            | Inr rows \<Rightarrow> fatal_or (renderWho encWho rows asJSON))
                         else
                           (case td_Query db q of
                              Inl err \<Rightarrow> Fatal ''query'' err
                            | Inr rows \<Rightarrow> fatal_or (render enc rows asJSON))))))"

section \<open>Columns line up\<close>

text \<open>A line of the table: every cell but the last filled up to the width of its column.\<close>

definition aligned :: "(nat \<Rightarrow> nat) \<Rightarrow> string list \<Rightarrow> string" where
  "aligned w cells = concat (map (\<lambda>j. padRight (w j) (cells ! j)) [0..<length cells - 1]) @ last cells @ [newline]"

definition widest :: "string list list \<Rightarrow> nat \<Rightarrow> nat" where
  "widest rows j = fold max (map (\<lambda>l. textWidth (l ! j) + 2) rows) 0"

definition plain :: "string \<Rightarrow> bool" where
  "plain c \<longleftrightarrow> tabchar \<notin> set c \<and> newline \<notin> set c"

lemma splitOn_notin: "c \<notin> set s \<Longrightarrow> splitOn c s = [s]"
  by (induction s) auto

lemma splitOn_app: "c \<notin> set s \<Longrightarrow> splitOn c (s @ c # r) = s # splitOn c r"
  by (induction s) auto

text \<open>The cells of a line, without its newline.\<close>

definition line_text :: "string list \<Rightarrow> string" where
  "line_text cells = concat (map (\<lambda>c. c @ [tabchar]) (butlast cells)) @ last cells"

lemma tabbed_line: "tabbed cells = line_text cells @ [newline]"
  by (simp add: tabbed_def line_text_def)

lemma line_text_Cons: "cs \<noteq> [] \<Longrightarrow> line_text (c # cs) = c @ tabchar # line_text cs"
  by (simp add: line_text_def)

lemma line_text_split: "cells \<noteq> [] \<Longrightarrow> \<forall>c\<in>set cells. plain c \<Longrightarrow> splitOn tabchar (line_text cells) = cells"
proof (induction cells)
  case (Cons c cs)
  then show ?case
    by (cases "cs = []") (simp_all add: line_text_Cons splitOn_app splitOn_notin plain_def line_text_def)
qed simp

lemma line_text_newline: "cells \<noteq> [] \<Longrightarrow> \<forall>c\<in>set cells. plain c \<Longrightarrow> newline \<notin> set (line_text cells)"
proof (induction cells)
  case (Cons c cs)
  then show ?case by (cases "cs = []") (simp_all add: line_text_Cons plain_def line_text_def)
qed simp

lemma lines_split:
  "\<forall>r\<in>set rows. r \<noteq> [] \<and> (\<forall>c\<in>set r. plain c) \<Longrightarrow>
     splitOn newline (concat (map tabbed rows)) = map line_text rows @ [[]]"
proof (induction rows)
  case (Cons r rows)
  have "newline \<notin> set (line_text r)" using Cons.prems by (intro line_text_newline) simp_all
  then show ?case using Cons by (simp add: tabbed_line splitOn_app)
qed simp

lemma rows_split:
  assumes "\<forall>r\<in>set rows. r \<noteq> [] \<and> (\<forall>c\<in>set r. plain c)"
  shows "map (splitOn tabchar) (splitOn newline (concat (map tabbed rows))) = rows @ [[[]]]"
  using assms by (simp add: lines_split line_text_split map_idI)

lemma join_lines_snoc: "join_lines (ls @ [[]]) = concat (map (\<lambda>l. l @ [newline]) ls)"
proof (induction ls)
  case (Cons l ls)
  then show ?case by (cases ls) simp_all
qed simp

lemma column_run_all:
  assumes "\<forall>r\<in>set rows. length r = n" "i < length rows" "Suc j < n"
  shows "column_run (rows @ [[[]]]) i j = rev (take i rows) @ drop i rows"
proof -
  have "takeWhile (\<lambda>l. Suc j < length l) (rev (take i rows)) = rev (take i rows)"
    using assms(1,3) by (intro takeWhile_eq_all_conv [THEN iffD2]) (auto dest: in_set_takeD)
  moreover have "takeWhile (\<lambda>l. Suc j < length l) (drop i rows @ [[[]]]) = drop i rows"
    using assms(1,3) by (subst takeWhile_append2) (auto dest: in_set_dropD)
  ultimately show ?thesis using assms(2) by (simp add: column_run_def)
qed

lemma fold_max_mset:
  fixes xs ys :: "nat list"
  assumes "mset xs = mset ys"
  shows "fold max xs a = fold max ys a"
proof -
  have "fold max zs a = Max (insert a (set zs))" for zs :: "nat list"
    by (induction zs rule: rev_induct) (simp_all add: max.commute Max_insert [symmetric] insert_commute del: Max_insert)
  then show ?thesis using mset_eq_setD [OF assms] by simp
qed

lemma column_width_all:
  assumes "\<forall>r\<in>set rows. length r = n" "i < length rows" "Suc j < n"
  shows "column_width (rows @ [[[]]]) i j = widest rows j"
proof -
  have "mset (map (\<lambda>l. textWidth (l ! j) + 2) (rev (take i rows) @ drop i rows))
      = mset (map (\<lambda>l. textWidth (l ! j) + 2) (take i rows @ drop i rows))"
    unfolding mset_map mset_append mset_rev ..
  then show ?thesis
    unfolding column_width_def column_run_all [OF assms] widest_def append_take_drop_id by (rule fold_max_mset)
qed

lemma tabwriter_aligned:
  assumes "\<forall>r\<in>set rows. length r = n \<and> (\<forall>c\<in>set r. plain c)" "0 < n"
  shows "tabwriter (concat (map tabbed rows)) = concat (map (aligned (widest rows)) rows)"
proof -
  have ne: "\<forall>r\<in>set rows. r \<noteq> [] \<and> (\<forall>c\<in>set r. plain c)" using assms by auto
  have n: "\<forall>r\<in>set rows. length r = n" using assms(1) by blast
  let ?R = "rows @ [[[]]]"
  have l: "layout_line ?R i @ [newline] = aligned (widest rows) (rows ! i)" if "i < length rows" for i
  proof -
    have len: "length (rows ! i) = n" using n that by simp
    have c: "map (\<lambda>j. padRight (column_width ?R i j) (rows ! i ! j)) [0..<n - 1]
        = map (\<lambda>j. padRight (widest rows j) (rows ! i ! j)) [0..<n - 1]"
      by (rule map_cong) (simp_all add: column_width_all [OF n that])
    have R: "?R ! i = rows ! i" using that by (simp add: nth_append)
    show ?thesis unfolding layout_line_def Let_def R aligned_def len c by simp
  qed
  have "layout_line ?R (length rows) = []" by (simp add: layout_line_def)
  then have "tabwriter (concat (map tabbed rows)) = concat (map (\<lambda>i. layout_line ?R i @ [newline]) [0..<length rows])"
    by (simp add: tabwriter_def rows_split [OF ne] join_lines_snoc comp_def)
  also have "\<dots> = concat (map (\<lambda>i. aligned (widest rows) (rows ! i)) [0..<length rows])"
    using l by (intro arg_cong [of _ _ concat] map_cong) simp_all
  also have "\<dots> = concat (map (aligned (widest rows)) rows)" 
    by (rule arg_cong [of _ _ concat], rule nth_equalityI) simp_all
  finally show ?thesis .
qed

text \<open>Numbers and instants have no control characters.\<close>

lemma plain_append [simp]: "plain (a @ b) \<longleftrightarrow> plain a \<and> plain b"
  by (auto simp: plain_def)

lemma plain_Cons [simp]: "plain [] = True" "plain (c # s) \<longleftrightarrow> c \<noteq> tabchar \<and> c \<noteq> newline \<and> plain s"
  by (auto simp: plain_def)

lemma plain_digits: "list_all isDigit s \<Longrightarrow> plain s"
  by (auto simp: plain_def list_all_iff isDigit_def)

lemma plain_formatNat [simp]: "plain (formatNat n)"
  by (rule plain_digits) (rule formatNat_digits)

lemma plain_pad0 [simp]: "plain (pad0 w n)"
  by (simp add: pad0_def Let_def) (simp add: plain_def)

lemma plain_formatDateTime [simp]: "plain (formatDateTime t)"
  by (cases "civilOfDays (t div second div 86400)")
    (simp add: formatDateTime_def format_date_def format_clock_def format_year_def)

section \<open>What is shown can be asked for\<close>

lemma civil_year_range:
  assumes "civilOfDays D = (y, m, d)" "0 \<le> D" "D < 49711"
  shows "0 \<le> y" "y < 10000"
proof -
  have "0 \<le> (D + 719468) div 146097" "(D + 719468) div 146097 \<le> 5" using assms(2,3) by auto
  then show "0 \<le> y" "y < 10000" using civilOfDays_correct(6,7) [OF assms(1)] by linarith+
qed

lemma formatDateTime_ends:
  assumes "0 \<le> t" "t < 2 ^ 32 * second"
  shows "trimSpace (formatDateTime t) = formatDateTime t"
    and "parseInLocation (hd timeLayouts) (formatDateTime t) UTC = Some (truncateSecond t)"
proof -
  obtain y m d where c: "civilOfDays (t div second div 86400) = (y, m, d)" by (cases "civilOfDays (t div second div 86400)")
  have D: "0 \<le> t div second div 86400" "t div second div 86400 < 49711" using assms by auto
  have y: "0 \<le> y" "y < 10000" using civil_year_range [OF c D] .
  show "parseInLocation (hd timeLayouts) (formatDateTime t) UTC = Some (truncateSecond t)"
    using parse_formatDateTime [OF c y] by (simp add: timeLayouts_def)
  have dig: "isDigit (hd (format_year y))" "format_year y \<noteq> []"
    using y by (simp_all add: format_year_def pad0_4 digitChar_digit less_mult_imp_div_less)
  let ?s = "pad0 2 (nat (t div second mod 86400 mod 60))"
  have sec: "isDigit (last ?s)" "?s \<noteq> []" by (simp_all add: pad0_2 digitChar_digit nat_less_iff)
  have sp: "isDigit c \<Longrightarrow> \<not> isSpace c" for c by (auto simp: isDigit_def isSpace_def)
  have "formatDateTime t \<noteq> []" "hd (formatDateTime t) = hd (format_year y)" "last (formatDateTime t) = last ?s"
    using dig(2) sec(2) by (simp_all add: formatDateTime_def format_date_def format_clock_def c)
  then show "trimSpace (formatDateTime t) = formatDateTime t"
    using dig(1) sec(1) sp by (intro trimSpace_joinWith_id) simp_all
qed



section \<open>All of the table or none of it\<close>

definition plain_row :: "flowRow \<Rightarrow> bool" where
  "plain_row r \<longleftrightarrow> plain (fw_SrcIP r) \<and> plain (fw_DstIP r) \<and> plain (fw_Protocol r) \<and> plain (fw_DstOrg r)
     \<and> plain (fw_ExporterIP r) \<and> plain (fw_TenantName r)"

lemma plain_flow_cells: "plain_row r \<Longrightarrow> length (flow_cells r) = 11 \<and> (\<forall>c\<in>set (flow_cells r). plain c)"
  by (simp add: plain_row_def flow_cells_def)

lemma plain_flow_header: "length flow_header = 11 \<and> (\<forall>c\<in>set flow_header. plain c)"
  by (simp add: flow_header_def plain_def)

lemma table_rows_all:
  "table_rows (map Inr rs) acc n = Inr (acc @ concat (map (tabbed \<circ> flow_cells) rs), n + length rs)"
  by (induction rs arbitrary: acc n) simp_all

lemma table_rows_err: "Inl err \<in> set rs \<Longrightarrow> \<exists>e. table_rows rs acc n = Inl e"
proof (induction rs arbitrary: acc n)
  case (Cons x rs)
  then show ?case by (cases x) auto
qed simp

lemma all_scanned: "\<forall>err. Inl err \<notin> set xs \<Longrightarrow> \<exists>rs. xs = map Inr rs"
proof (induction xs)
  case (Cons x xs)
  then obtain rs where "xs = map Inr rs" by auto
  moreover obtain r where "x = Inr r" using Cons.prems by (cases x) auto
  ultimately show ?case by (intro exI [of _ "r # rs"]) simp
qed simp


definition demo_flow :: flowRow where
  "demo_flow = \<lparr>fw_Timestamp = 1784104974 * second, fw_SrcIP = ''10.0.0.7'', fw_SrcPort = 51000,
     fw_DstIP = ''203.0.113.9'', fw_DstPort = 443, fw_Protocol = ''TCP'', fw_Bytes = 1200, fw_DstASN = 15169,
     fw_DstOrg = ''Google LLC'', fw_ExporterIP = ''192.0.2.1'', fw_TenantName = ''lab''\<rparr>"


text \<open>Bad flags end the run before anything is dialled.\<close>

lemma trace_main_bad_flags:
  "trace_main pd env db enc encWho (Inl e) j = BadFlags e"
  "\<not> tf_who f \<Longrightarrow> buildQuery f = Inl e \<Longrightarrow> trace_main pd env db enc encWho (Inr f) j = BadFlags e"
  by (simp_all add: trace_main_def)

end
