(* ===== verification/DnsReportPrint.thy ===== *)
theory DnsReportPrint
  imports DnsReport GoFormat
begin

text \<open>
  \<open>cmd/dnsscan/main.go\<close>, \<open>main\<close> and \<open>print\<close>: the flags with their exit codes, and the text of the report.
  The verbs for a duration and for a rate with two decimals are arguments, as are the zone database,
  the clock and the file. The lemmas show what the report can reveal of the clients.
\<close>

section \<open>The text\<close>

abbreviation eol :: string where "eol \<equiv> [newline]"

definition padLeft :: "nat \<Rightarrow> string \<Rightarrow> string" where
  "padLeft w s = replicate (w - textWidth s) (CHR '' '') @ s"

definition zoneOf :: "location option \<Rightarrow> location" where
  "zoneOf loc = (case loc of None \<Rightarrow> UTC | Some l \<Rightarrow> l)"

definition format_date_in :: "location \<Rightarrow> time \<Rightarrow> string" where
  "format_date_in loc t = format_date (wallClock loc t div 86400)"

definition format_clock_in :: "location \<Rightarrow> time \<Rightarrow> string" where
  "format_clock_in loc t = format_clock (wallClock loc t mod 86400)"

record printer =
  pr_duration :: "duration \<Rightarrow> string"
  pr_rate :: "nat \<Rightarrow> duration \<Rightarrow> string"

definition print_head :: "string \<Rightarrow> string \<Rightarrow> location \<Rightarrow> time \<Rightarrow> string \<Rightarrow> string" where
  "print_head path zone loc baseDate resolverIP =
     ''dnsscan report for '' @ path @ eol
     @ ''  timezone='' @ zone @ ''  base-date='' @ format_date_in loc baseDate @ ''  resolver=''
     @ (if resolverIP = '''' then ''(none)'' else resolverIP) @ eol @ eol"

definition print_lines :: "report \<Rightarrow> string" where
  "print_lines r =
     ''lines read . . . . . . . '' @ formatNat (rp_totalLines r) @ eol
     @ ''packets  . . . . . . . . '' @ formatNat (rp_packets r) @ eol
     @ ''responses  . . . . . . . '' @ formatNat (rp_responses r) @ eol
     @ ''parse errors . . . . . . '' @ formatNat (rp_parseErr r) @ eol
     @ ''silent skips . . . . . . '' @ formatNat (rp_silentSkip r) @ eol @ eol"

text \<open>\<open>qs\<close> and \<open>ns\<close> are the orders in which the two maps are ranged over.\<close>

definition print_queries :: "string list \<Rightarrow> report \<Rightarrow> string" where
  "print_queries qs r =
     ''queries by qtype (raw, incl. upstream leg):'' @ eol
     @ concat (map (\<lambda>(k, n). ''  '' @ padRight 6 k @ '' '' @ formatNat n @ eol) (sortedByCountDesc qs (rp_queriesByType r)))
     @ ''client queries (excl. upstream) . '' @ formatNat (rp_clientQueries r) @ eol @ eol"

definition print_events :: "report \<Rightarrow> string" where
  "print_events r =
     ''events:'' @ eol
     @ ''  answer A . . . . . . . '' @ formatNat (rp_answerA r) @ eol
     @ ''  answer AAAA  . . . . . '' @ formatNat (rp_answerAAAA r) @ eol
     @ ''  query-only . . . . . . '' @ formatNat (rp_queryOnly r) @ eol
     @ ''  fallback (no address). '' @ formatNat (rp_fallback r) @ eol
     @ ''  total events . . . . . '' @ formatNat (rp_totalEvents r) @ eol @ eol
     @ ''status words:'' @ eol
     @ ''  NXDomain . . . . . . . '' @ formatNat (rp_nxDomain r) @ eol
     @ ''  ServFail . . . . . . . '' @ formatNat (rp_servFail r) @ eol @ eol"

definition print_names :: "string list \<Rightarrow> report \<Rightarrow> string" where
  "print_names ns r =
     ''unique clients . . . . . '' @ formatNat (card (rp_uniqueClients r)) @ '' (count only; IPs not printed)'' @ eol
     @ ''unique qnames  . . . . . '' @ formatNat (card (rp_uniqueQNames r)) @ eol @ eol
     @ ''top 15 qnames by query count:'' @ eol
     @ concat (map (\<lambda>(k, n). ''  '' @ padLeft 5 (formatNat n) @ ''  '' @ k @ eol)
         (take 15 (sortedByCountDesc ns (rp_qnameQueries r))))
     @ eol"

definition print_span :: "printer \<Rightarrow> location \<Rightarrow> report \<Rightarrow> string" where
  "print_span pr loc r =
     (if rp_haveSpan r then
        (let span = rp_lastSeen r - rp_firstSeen r
         in ''event-time span  . . . . '' @ format_clock_in loc (rp_firstSeen r) @ '' .. ''
            @ format_clock_in loc (rp_lastSeen r) @ '' ('' @ pr_duration pr span @ '')'' @ eol
            @ (if 0 < span then ''avg client queries/sec . '' @ pr_rate pr (rp_clientQueries r) span @ eol else ''''))
      else '''')
     @ eol @ ''dedup preview: '' @ formatNat (rp_totalEvents r) @ '' events -> ''
     @ formatNat (card (rp_dedupKeys r)) @ '' distinct (client,qname,answer) triples'' @ eol"

definition report_print ::
  "printer \<Rightarrow> string \<Rightarrow> string \<Rightarrow> location \<Rightarrow> time \<Rightarrow> string \<Rightarrow> string list \<Rightarrow> string list \<Rightarrow> report \<Rightarrow> string" where
  "report_print pr path zone loc baseDate resolverIP qs ns r =
     print_head path zone loc baseDate resolverIP @ print_lines r @ print_queries qs r @ print_events r
     @ print_names ns r @ print_span pr loc r"

section \<open>The run of the tool\<close>

datatype scan_exit = Usage | BadZone string | BadDate string | CannotOpen string | Report string

definition exit_code :: "scan_exit \<Rightarrow> nat" where
  "exit_code e = (case e of Report out \<Rightarrow> 0 | CannotOpen f \<Rightarrow> 1 | _ \<Rightarrow> 2)"

text \<open>A file is its contents and the error its reading ends with; \<open>rng\<close> gives the range order of a map.\<close>

definition dnsscan_main ::
  "printer \<Rightarrow> (string \<Rightarrow> location option) \<Rightarrow> time \<Rightarrow> (string \<Rightarrow> (string \<times> string option) option)
     \<Rightarrow> ((string \<rightharpoonup> nat) \<Rightarrow> string list) \<Rightarrow> string \<Rightarrow> string \<Rightarrow> string \<Rightarrow> string \<Rightarrow> scan_exit" where
  "dnsscan_main pr zones now openFile rng file' tz date resolver =
     (if file' = '''' then Usage
      else case zones tz of
        None \<Rightarrow> BadZone tz
      | Some loc \<Rightarrow>
          (case (if date = '''' then Some now
                 else parseInLocation [Year4, Lit ''-'', Month2, Lit ''-'', Day2] date loc) of
             None \<Rightarrow> BadDate date
           | Some baseDate \<Rightarrow>
               (case openFile file' of
                  None \<Rightarrow> CannotOpen file'
                | Some (contents, readErr) \<Rightarrow>
                    (let r = dnsscan_scan contents readErr (Some loc) baseDate resolver
                     in Report (report_print pr file' tz loc baseDate resolver
                          (rng (rp_queriesByType r)) (rng (rp_qnameQueries r)) r)))))"

section \<open>What the report reveals\<close>

text \<open>Two reports that differ in who the clients were, not in how many.\<close>

definition same_but_clients :: "report \<Rightarrow> report \<Rightarrow> bool" where
  "same_but_clients r r' \<longleftrightarrow>
     (\<exists>cs ks. r' = r\<lparr>rp_uniqueClients := cs, rp_dedupKeys := ks\<rparr> \<and> card cs = card (rp_uniqueClients r)
        \<and> card ks = card (rp_dedupKeys r))"

text \<open>The text is a function of the tallies: neither the clients' addresses nor the order of a map show.\<close>

lemma report_hides_clients:
  assumes "same_but_clients r r'" "mset qs = mset qs'" "mset ns = mset ns'"
  shows "report_print pr path zone loc baseDate resolverIP qs ns r
    = report_print pr path zone loc baseDate resolverIP qs' ns' r'"
proof -
  obtain cs ks where r': "r' = r\<lparr>rp_uniqueClients := cs, rp_dedupKeys := ks\<rparr>"
    "card cs = card (rp_uniqueClients r)" "card ks = card (rp_dedupKeys r)"
    using assms(1) unfolding same_but_clients_def by blast
  have q: "sortedByCountDesc qs m = sortedByCountDesc qs' m" "sortedByCountDesc ns m = sortedByCountDesc ns' m" for m
    using sortedByCountDesc_order assms(2,3) by blast+
  show ?thesis
    unfolding report_print_def print_lines_def print_queries_def print_events_def print_names_def print_span_def r'(1) q
    by (simp add: r'(2,3) Let_def)
qed

lemma exit_codes: "exit_code (dnsscan_main pr zones now openFile rng file' tz date resolver) = 0 \<longleftrightarrow>
    file' \<noteq> '''' \<and> (\<exists>loc. zones tz = Some loc
      \<and> (date = '''' \<or> parseInLocation [Year4, Lit ''-'', Month2, Lit ''-'', Day2] date loc \<noteq> None))
    \<and> openFile file' \<noteq> None"
  by (auto simp: dnsscan_main_def exit_code_def Let_def split: option.splits if_splits)

end
