(* ===== verification/Spec2Isabelle.thy ===== *)
theory Spec2Isabelle
  imports IdentityJoin DnsScan BatchWriter Geo Tenant TcpdumpProps DnstapProps Dedup Threat FailClosed
    Enrich Pipeline Shutdown Startup TraceQuery TraceWho DnsCopy DnsReport LoadGen Schema Evidence Metrics Tasks
    LiveRows EventShutdown TraceRender DnsReportPrint
begin

text \<open>
  The Network enricher, a Go service that tags NetFlow records with who and what is behind their
  addresses. This file is the root of its verification library and documents it.

  \<^bold>\<open>The program.\<close> Exporters send flows through goflow2 and Kafka to the enricher. Readers
  (\<open>main.go\<close>) put the raw payloads on a channel; a pool of workers decodes each payload, drops
  repeats within a time window (\<open>dedup.go\<close>), enriches the flow with location and network owner
  (\<open>geoip.go\<close>), tenant (\<open>tenant.go\<close>), identity (\<open>identity.go\<close>), resolved host name
  (\<open>dnsstore.go\<close>) and threat label (\<open>threat.go\<close>), and hands a row to a buffered ClickHouse writer
  (\<open>batchwriter.go\<close>). Two pollers follow growing log files (\<open>filepoller.go\<close>): one feeds the identity
  store with DHCP leases and RADIUS sessions (\<open>dhcplog.go\<close>, \<open>npslog.go\<close>) after replacing every
  identifier by a keyed digest (\<open>pseudonym.go\<close>), the other feeds the DNS store from BIND, tcpdump or
  dnstap text (\<open>dnslog.go\<close>, \<open>tcpdumplog.go\<close>, \<open>dnstaplog.go\<close>); both also persist their events to
  ClickHouse. \<open>cmd/trace\<close> later answers, from the persisted tables, who reached a destination;
  \<open>cmd/dnsscan\<close> reports on a capture before the tcpdump source is switched on.

  \<^bold>\<open>Conventions.\<close> A Go \<open>string\<close> is a list of bytes (\<open>char list\<close>). \<open>time.Time\<close> and
  \<open>time.Duration\<close> are integers counting nanoseconds; the zero time is its real value. Machine
  integers whose width matters are words (\<open>uint64\<close> counters and the sampling product of the flow,
  \<open>uint32\<close> ASNs). A Go map is a partial function; where the program ranges over a map and the order
  can be observed, the order is an argument (\<open>applyDNS\<close>, \<open>keysOf\<close>, \<open>sortedByCountDesc\<close>). Errors are
  \<open>option\<close> or a sum. Clocks are explicit arguments, one for each call of \<open>time.Now\<close> or \<open>s.now\<close>.

  \<^bold>\<open>Theories, in dependency order.\<close>
  \<^item> \<open>Prelude\<close>: instants, the expiring maps shared by the stores (locale \<open>expiring_store\<close>), generic
    lemmas. \<open>GoStrings\<close>, \<open>GoTime\<close>, \<open>GoNet\<close>, \<open>GoRegexp\<close>, \<open>GoScanner\<close>, \<open>GoHeap\<close>, \<open>GoFormat\<close>:
    the parts of the standard library the program uses (splitting and trimming, \<open>strconv\<close>, calendar dates
    and layouts, decimal verbs, printed instants and the columns of \<open>tabwriter\<close>,
    \<open>net.ParseIP\<close> and \<open>ParseCIDR\<close>, the regular expressions of the BIND parser, \<open>bufio.Scanner\<close> with
    its token limit, \<open>container/heap\<close>; locale \<open>max_queue\<close> states what the heap promises).
  \<^item> \<open>Pseudonym\<close> (\<open>pseudonym.go\<close>): normalisers and tokenizers; the locale \<open>identity_tokenizer\<close> is the
    Go interface, interpreted on the keyed and on the upstream tokenizer. \<open>DhcpLog\<close>, \<open>NpsLog\<close>,
    \<open>DnsLog\<close>: the three line parsers with every outcome.
  \<^item> \<open>FilePoller\<close> (\<open>readAppendedFile\<close>, \<open>scanAppendedDir\<close>): offsets, truncation, the 8 MiB bound
    \<open>maxScanReadBytes\<close> of one read, and delivery of every whole line exactly once. \<open>FileTail\<close>: the same
    for all files of a directory over time, with listings, \<open>Stat\<close> calls and reads that fail, and files
    that are emptied or replaced.
  \<^item> \<open>ClickHouse\<close>: the driver calls as parameters and the locale \<open>retry_buffer\<close> (what is pending plus
    what is acknowledged accounts for what was added), interpreted by \<open>EventWriter\<close> for both buffers of
    \<open>chEventWriter\<close> and by \<open>DnsScan\<close> for the DNS writer.
  \<^item> \<open>SlotMachine\<close>: the abstract contract of one identity slot (locales \<open>newest_wins_store\<close> and
    \<open>swept_store\<close>): the answer of a slot is a function of the log of actions, not of the order they
    came in or of the sweeps in between. \<open>Identity\<close>, \<open>IdentityProps\<close>, \<open>IdentityScan\<close> (\<open>identity.go\<close>):
    the store, \<open>Lookup\<close>, \<open>applyDHCP\<close>, \<open>applyRADIUS\<close>, \<open>evictExpired\<close>, one whole scan, the final flush;
    both maps are interpretations of the contract.
  \<^item> \<open>IdentityJoin\<close> (\<open>cmd/trace/identity_join.go\<close>): the forensic join over batches of equal time (locale
    \<open>batch_fold\<close>, interpreted for leases and sessions), its meaning and its agreement with the store.
  \<^item> \<open>DnsStore\<close>, \<open>DnsProps\<close>, \<open>DnsScan\<close> (\<open>dnsstore.go\<close>): the bounded map, its eviction through a bounded
    max-heap, per-file parsers, one scan, the DNS event writer.
  \<^item> \<open>TcpdumpLog\<close>/\<open>TcpdumpProps\<close> and \<open>DnstapLog\<close>/\<open>DnstapProps\<close>: the two stateful parsers, as functions
    from a line and a state to events and a state.
  \<^item> \<open>Flow\<close>, \<open>BatchWriter\<close> (\<open>main.go\<close>, \<open>batchwriter.go\<close>): the flow records, the row, and the writer
    (\<open>bw_Add\<close>, \<open>drain\<close>, \<open>sendToClickHouse\<close>, \<open>FinalDrain\<close>, and the step relation \<open>bw_step\<close>).
  \<^item> \<open>Geo\<close>, \<open>Tenant\<close>, \<open>Threat\<close>, \<open>Dedup\<close>: one store each. \<open>Wiring\<close> (\<open>main.go\<close>, \<open>identity_config.go\<close>,
    \<open>logtz.go\<close>): the decisions from the environment. \<open>FailClosed\<close>: what these imply for tokens.
    \<open>Startup\<close>: the whole start of \<open>main\<close>, and what can end it.
  \<^item> \<open>Enrich\<close> and \<open>Pipeline\<close> (\<open>main.go\<close>): \<open>enrich\<close> block by block, and the worker pool as the step
    relation \<open>pool_step\<close> (any number of workers, any interleaving, any clock). \<open>Shutdown\<close>: the pool, the
    batch writer, its timer goroutine and the shutdown sequence of \<open>main\<close> as one machine, which
    projects onto \<open>pool_step\<close> and \<open>bw_step\<close>.
  \<^item> \<open>TraceQuery\<close>, \<open>TraceWho\<close> (\<open>cmd/trace/main.go\<close>): flags, filter, parameterised queries; who mode.
    \<open>DnsCopy\<close>, \<open>DnsReport\<close> (\<open>cmd/dnsscan/main.go\<close>): its copy of the parser; the statistics.
    \<open>TraceRender\<close>, \<open>DnsReportPrint\<close>: what the two tools print, and their \<open>main\<close>.
    \<open>LoadGen\<close> (\<open>cmd/loadgen/main.go\<close>): the synthetic records and how they are published.
  \<^item> \<open>Schema\<close> (\<open>batchwriter.go\<close>: \<open>schemaStatements\<close>, \<open>applySchema\<close>): the tables and the rows of every INSERT
    of the program. \<open>Evidence\<close>: the event tables as \<open>ReplacingMergeTree\<close>s read with FINAL, under replay.
  \<^item> \<open>Tasks\<close>: the ticker loop of the five background goroutines (\<open>StartRefresh\<close>, \<open>StartPoller\<close>); the locale
    \<open>reloadable\<close> is the contract of a refresh, interpreted for GeoIP, tenants and threats.
    \<open>IdentityPoller\<close>, \<open>DnsPoller\<close>: the loop around the two scans, from the lines of the log files to the
    answers of \<open>Lookup\<close>; \<open>LiveRows\<close>: the worker pool beside both, from the lines to the rows.
    \<open>EventShutdown\<close>: the final flush of the event writers beside a scan still in flight, as one machine
    that both writers run on. \<open>Metrics\<close> (\<open>metrics.go\<close>, \<open>logging.go\<close>): registration, routes, log level.

  \<^bold>\<open>What the theorems show.\<close> Live identity: an answer is exactly what the log of leases and sessions
  says, sweeps are invisible, replays and same-second ties converge, a scan is the parsers' events applied
  in order, a poller's answers are what the lines written so far say, what a row says of its two ends
  stands in the log files, and every event is acknowledged,
  pending or shed by the buffer cap. Privacy: without the
  explicit flag no token is anything but a keyed digest. Polling: each whole line is handed on exactly
  once and in order, and the poller catches up. Forensics: the joins mean what their documentation says,
  do not depend on row order, agree with the live store, and who mode loses nothing by fetching a window
  only. DNS: the cap holds, eviction sheds expired entries first, the newest resolution wins, a name
  is backed by the lines of one file, files do not disturb each other, and the three parsers emit usable events only (the dnstap parser inverts the
  printing of a document, the tcpdump parser's dates are exact). Flows: rows are conserved and in order
  through the buffer, a flow is a duplicate only if its 7-tuple was seen within the window, no
  conversation is lost by any interleaving of the pool, enrichment is symmetric and changes nothing
  reported, and from the first payload to the exit of the process every row is accounted for. The events
  are accounted for up to the exit too, a restart that reads the logs again neither loses nor doubles
  stored evidence, every INSERT fits the tables that a successful start leaves, whatever version it found,
  and the reference stores always hold the newest data that loaded. Output: an instant the trace tool
  prints can be given back to it, its table is whole or absent, metrics never panic. The dnsscan copy of
  the parser is the parser, and its tallies are consistent. Smaller lemmas record behaviour that differs from a comment: \<open>dns_eviction_top_up_wrong\<close>, \<open>poller_truncation_forgotten\<close>,
  \<open>poller_stalls_on_long_line\<close>, \<open>release_before_assign_lost\<close>, \<open>identity_poison_row\<close>,
  \<open>tcpdump_reorder_at_midnight\<close>, \<open>shutdown_timer_race\<close>, \<open>late_event_unreported\<close>, \<open>trace_negative_window\<close>,
  \<open>trace_asn_truncated\<close> and others.

  \<^bold>\<open>Bounds and termination.\<close> No fuel is used. Recursions are structural or have a measure, except
  the chunk loop of \<open>drain\<close> and the retry loop of \<open>FinalDrain\<close>, which are \<open>partial_function (option)\<close>,
  so that not returning is \<open>None\<close>; the theorems on \<open>drain\<close> and \<open>FinalDrain\<close> prove that they return.
  Buffer caps, the scanner's token limit and the read bound are those of the source.

  \<^bold>\<open>Parameters.\<close> Code outside the repository is an argument of the definitions that use it, with
  what is relied on as a named hypothesis: HMAC-SHA256, the XML, YAML and JSON decoders, the MaxMind
  readers, the CIDR trie (\<open>ranger\<close>), the expirable LRU (\<open>lru\<close>), the ClickHouse driver and server, the
  zone database, \<open>time.ParseDuration\<close>, the verbs for a duration and a rate, the merge of a
  \<open>ReplacingMergeTree\<close>, the Prometheus registry, the HTTP client, the file system.

  \<^bold>\<open>Not modelled.\<close> The Kafka client and the HTTP server themselves (I/O over third-party code; a
  reader is a source of messages), the texts of log lines and of error messages, flag parsing by the
  \<open>flag\<close> package, the settings of connections (timeouts, pool sizes), and the closing of files, readers
  and connections. SQL is modelled by its structure, the materialized views and retention periods as
  data only: nothing is proved of what the server aggregates or expires. Goroutines are modelled where
  they share state: the flow writer, the worker pool, the process, the background tasks and the final
  flush as step relations; the identity and DNS stores have a single mutator and are sequences of
  operations. The theorems on the pollers cover rotated logs as long as a scan sees the new file before
  it is as long as the old one was; \<open>poller_truncation_forgotten\<close> shows that the code loses lines
  otherwise.
\<close>

end
